(* ===== verification/Prelude.thy ===== *)
theory Prelude
  imports Main "HOL-Library.Word"
begin

unbundle bit_operations_syntax

text \<open>
  Shared vocabulary of the development: the machine integer types of the Rust sources, the
  little-endian byte codecs of the standard library, slice reads and writes, and the results of
  fallible functions. The lemmas here are about lists, bytes and words only; those that carry the
  codec proofs are collected in \<open>codec_simps\<close>, those about byte writes in \<open>slice_simps\<close>.
\<close>

named_theorems codec_simps \<open>round trips of the fixed-width byte codecs\<close>
named_theorems slice_simps \<open>reading a byte buffer after writing into it\<close>

type_synonym u8 = "8 word"
type_synonym u16 = "16 word"
type_synonym u32 = "32 word"
type_synonym u64 = "64 word"
type_synonym i64 = "64 word"
type_synonym bytes = "u8 list"

text \<open>
  \<open>Result<T, E>\<close> of the sources is \<open>'e + 'a\<close>, with \<open>Inl\<close> for \<open>Err\<close>. The question-mark operator is
  \<open>try_bind\<close>. A panic (a failed assertion, an index out of range, an arithmetic overflow check) is a
  value of its own where the model can reach it: such functions return an option, \<open>None\<close> for the panic.
\<close>

fun try_bind :: "'e + 'a \<Rightarrow> ('a \<Rightarrow> 'e + 'b) \<Rightarrow> 'e + 'b" where
  "try_bind (Inl e) f = Inl e"
| "try_bind (Inr x) f = f x"

fun map_err :: "('e \<Rightarrow> 'f) \<Rightarrow> 'e + 'a \<Rightarrow> 'f + 'a" where
  "map_err f (Inl e) = Inl (f e)"
| "map_err f (Inr x) = Inr x"

fun ok_or :: "'a option \<Rightarrow> 'e \<Rightarrow> 'e + 'a" where
  "ok_or None e = Inl e"
| "ok_or (Some x) e = Inr x"

text \<open>\<open>Result::ok\<close>.\<close>

fun result_ok :: "'e + 'a \<Rightarrow> 'a option" where
  "result_ok (Inl e) = None"
| "result_ok (Inr x) = Some x"

text \<open>\<open>slice.get(i)\<close>: the element, or \<open>None\<close> out of range.\<close>

definition get_at :: "'a list \<Rightarrow> nat \<Rightarrow> 'a option" where
  "get_at xs i = (if i < length xs then Some (xs ! i) else None)"

text \<open>\<open>&xs[a..b]\<close> where the range lies inside the slice.\<close>

definition subslice :: "'a list \<Rightarrow> nat \<Rightarrow> nat \<Rightarrow> 'a list" where
  "subslice xs a b = take (b - a) (drop a xs)"

text \<open>\<open>out[off..off + xs.len()].copy_from_slice(xs)\<close> where the range lies inside the slice.\<close>

definition copy_at :: "'a list \<Rightarrow> nat \<Rightarrow> 'a list \<Rightarrow> 'a list" where
  "copy_at out off xs = take off out @ xs @ drop (off + length xs) out"

text \<open>\<open>checked_sub\<close> on \<open>usize\<close>.\<close>

definition checked_sub :: "nat \<Rightarrow> nat \<Rightarrow> nat option" where
  "checked_sub a b = (if b \<le> a then Some (a - b) else None)"

definition saturating_add :: "'a::len word \<Rightarrow> 'a word \<Rightarrow> 'a word" where
  "saturating_add a b = (if a + b < a then - 1 else a + b)"

definition saturating_sub :: "'a::len word \<Rightarrow> 'a word \<Rightarrow> 'a word" where
  "saturating_sub a b = (if a < b then 0 else a - b)"

definition overflowing_add :: "'a::len word \<Rightarrow> 'a word \<Rightarrow> 'a word \<times> bool" where
  "overflowing_add a b = (a + b, a + b < a)"

text \<open>\<open>to_le_bytes\<close> and \<open>from_le_bytes\<close> of the unsigned types.\<close>

definition u16_to_le :: "u16 \<Rightarrow> bytes" where
  "u16_to_le x = [ucast x, ucast (drop_bit 8 x)]"

definition u16_from_le :: "u8 \<Rightarrow> u8 \<Rightarrow> u16" where
  "u16_from_le a b = ucast a OR push_bit 8 (ucast b)"

definition u32_to_le :: "u32 \<Rightarrow> bytes" where
  "u32_to_le x = [ucast x, ucast (drop_bit 8 x), ucast (drop_bit 16 x), ucast (drop_bit 24 x)]"

definition u32_from_le :: "u8 \<Rightarrow> u8 \<Rightarrow> u8 \<Rightarrow> u8 \<Rightarrow> u32" where
  "u32_from_le a b c d =
     ucast a OR push_bit 8 (ucast b) OR push_bit 16 (ucast c) OR push_bit 24 (ucast d)"

text \<open>\<open>&str\<close> is a byte string; names in the sources are ASCII literals.\<close>

definition as_bytes :: "string \<Rightarrow> bytes" where
  "as_bytes s = map of_char s"

definition is_ascii :: "bytes \<Rightarrow> bool" where
  "is_ascii bs \<longleftrightarrow> (\<forall>b \<in> set bs. b < 128)"

subsection \<open>Lemmas\<close>

lemma try_bind_Inr_iff [simp]: "try_bind r f = Inr y \<longleftrightarrow> (\<exists>x. r = Inr x \<and> f x = Inr y)"
  by (cases r) auto

lemma try_bind_Inl_iff [simp]:
  "try_bind r f = Inl e \<longleftrightarrow> r = Inl e \<or> (\<exists>x. r = Inr x \<and> f x = Inl e)"
  by (cases r) auto

lemma map_err_Inr_iff [simp]: "map_err f r = Inr y \<longleftrightarrow> r = Inr y"
  by (cases r) auto

lemma ok_or_Inr_iff [simp]: "ok_or x e = Inr y \<longleftrightarrow> x = Some y"
  by (cases x) auto

lemma result_ok_Some_iff [simp]: "result_ok r = Some x \<longleftrightarrow> r = Inr x"
  by (cases r) auto

lemma get_at_Some_iff [simp]: "get_at xs i = Some x \<longleftrightarrow> i < length xs \<and> x = xs ! i"
  by (auto simp: get_at_def)

lemma get_at_None_iff [simp]: "get_at xs i = None \<longleftrightarrow> length xs \<le> i"
  by (auto simp: get_at_def)

lemma length_u16_to_le [simp]: "length (u16_to_le x) = 2"
  by (simp add: u16_to_le_def)

lemma length_u32_to_le [simp]: "length (u32_to_le x) = 4"
  by (simp add: u32_to_le_def)

lemma u16_le_roundtrip [codec_simps, simp]: "u16_from_le (ucast x) (ucast (drop_bit 8 x)) = x"
  unfolding u16_from_le_def
  by (rule bit_word_eqI)
    (auto simp: bit_or_iff bit_push_bit_iff bit_unsigned_iff bit_drop_bit_eq not_less)

lemma u32_le_roundtrip [codec_simps, simp]:
  "u32_from_le (ucast x) (ucast (drop_bit 8 x)) (ucast (drop_bit 16 x)) (ucast (drop_bit 24 x)) = x"
proof (rule bit_word_eqI)
  fix n assume n: "n < LENGTH(32)"
  then consider "n < 8" | "8 \<le> n" "n < 16" | "16 \<le> n" "n < 24" | "24 \<le> n" "n < 32"
    by fastforce
  then show "bit (u32_from_le (ucast x) (ucast (drop_bit 8 x)) (ucast (drop_bit 16 x))
      (ucast (drop_bit 24 x))) n = bit x n"
    unfolding u32_from_le_def
    by cases (auto simp: bit_or_iff bit_push_bit_iff bit_unsigned_iff bit_drop_bit_eq)
qed

lemma u16_to_le_from_le [codec_simps, simp]: "u16_to_le (u16_from_le a b) = [a, b]"
proof -
  have "ucast (u16_from_le a b) = a"
    unfolding u16_from_le_def
    by (rule bit_word_eqI) (auto simp: bit_or_iff bit_push_bit_iff bit_unsigned_iff bit_drop_bit_eq)
  moreover have "ucast (drop_bit 8 (u16_from_le a b)) = b"
    unfolding u16_from_le_def
    by (rule bit_word_eqI)
      (auto simp: bit_or_iff bit_push_bit_iff bit_unsigned_iff bit_drop_bit_eq dest: bit_imp_le_length)
  ultimately show ?thesis by (simp add: u16_to_le_def)
qed

lemma u16_to_le_nth [slice_simps]:
  "u16_to_le x ! 0 = ucast x" "u16_to_le x ! Suc 0 = ucast (drop_bit 8 x)"
  by (simp_all add: u16_to_le_def)

lemma u16_to_le_inject: "u16_to_le x = u16_to_le y \<longleftrightarrow> x = y"
  by (metis list.sel(1,3) u16_le_roundtrip u16_to_le_def)

lemma u16_of_nat_le_roundtrip [simp]:
  "n < 65536 \<Longrightarrow> unat (of_nat n :: u16) = n"
  by (simp add: unat_of_nat take_bit_nat_eq_self_iff)

lemma xor_right_cancel: "a XOR c = b XOR c \<longleftrightarrow> a = (b :: 'a::len word)"
  by (auto simp: bit_eq_iff bit_xor_iff)

lemma xor_left_cancel: "c XOR a = c XOR b \<longleftrightarrow> a = (b :: 'a::len word)"
  by (auto simp: bit_eq_iff bit_xor_iff)

lemma uint_word_of_int_id:
  "0 \<le> n \<Longrightarrow> n < 2 ^ LENGTH('a::len) \<Longrightarrow> uint (word_of_int n :: 'a word) = n"
  by (simp add: uint_word_of_int_eq take_bit_int_eq_self)

lemma length_copy_at [slice_simps, simp]:
  "off + length xs \<le> length out \<Longrightarrow> length (copy_at out off xs) = length out"
  by (simp add: copy_at_def)

lemma nth_copy_at [slice_simps]:
  "off + length xs \<le> length out \<Longrightarrow> i < length out \<Longrightarrow>
   copy_at out off xs ! i = (if off \<le> i \<and> i < off + length xs then xs ! (i - off) else out ! i)"
  by (auto simp: copy_at_def nth_append min_def)

lemma copy_at_outside_take [slice_simps]:
  "n \<le> off \<Longrightarrow> off \<le> length out \<Longrightarrow> take n (copy_at out off xs) = take n out"
  by (simp add: copy_at_def min_def)

lemma length_subslice [simp]: "a \<le> b \<Longrightarrow> b \<le> length xs \<Longrightarrow> length (subslice xs a b) = b - a"
  by (simp add: subslice_def)

lemma nth_subslice [simp]:
  "a \<le> b \<Longrightarrow> b \<le> length xs \<Longrightarrow> i < b - a \<Longrightarrow> subslice xs a b ! i = xs ! (a + i)"
  by (simp add: subslice_def)

lemma subslice_copy_at [slice_simps]:
  "off + length xs \<le> length out \<Longrightarrow> subslice (copy_at out off xs) off (off + length xs) = xs"
  by (simp add: subslice_def copy_at_def)

lemma copy_at_extend [slice_simps]:
  "off = length xs \<Longrightarrow> off + length ys \<le> length buf \<Longrightarrow>
   copy_at (copy_at buf 0 xs) off ys = copy_at buf 0 (xs @ ys)"
  by (simp add: copy_at_def add.commute)

lemma update_copy_at_extend [slice_simps]:
  "off = length xs \<Longrightarrow> off < length buf \<Longrightarrow>
   (copy_at buf 0 xs)[off := v] = copy_at buf 0 (xs @ [v])"
  by (simp add: copy_at_def list_update_append Cons_nth_drop_Suc [symmetric] del: Cons_nth_drop_Suc)

lemma subslice_copy_at_0 [slice_simps]:
  "b \<le> length xs \<Longrightarrow> subslice (copy_at buf 0 xs) a b = subslice xs a b"
  by (cases "a \<le> b") (simp_all add: subslice_def copy_at_def)

lemma take_copy_at_0 [slice_simps]: "take (length xs) (copy_at buf 0 xs) = xs"
  by (simp add: copy_at_def)

lemma subslice_append [slice_simps]:
  "a = length xs \<Longrightarrow> b = a + length ys \<Longrightarrow> subslice (xs @ ys @ zs) a b = ys"
  by (simp add: subslice_def)

lemma subslice_append_end [slice_simps]:
  "a = length xs \<Longrightarrow> b = a + length ys \<Longrightarrow> subslice (xs @ ys) a b = ys"
  by (simp add: subslice_def)

lemma subslice_Cons:
  "a < b \<Longrightarrow> b \<le> length xs \<Longrightarrow> subslice xs a b = xs ! a # subslice xs (Suc a) b"
  by (simp add: subslice_def take_Suc_conv_app_nth Suc_diff_Suc [symmetric] Cons_nth_drop_Suc [symmetric])

lemma subslice_split:
  assumes "a \<le> b" "b \<le> c"
  shows "subslice xs a c = subslice xs a b @ subslice xs b c"
proof -
  have "take (c - a) (drop a xs) = take ((b - a) + (c - b)) (drop a xs)" using assms by simp
  then show ?thesis using assms by (simp only: take_add subslice_def drop_drop le_add_diff_inverse2)
qed

lemma subslice_empty [simp]: "subslice xs a a = []"
  by (simp add: subslice_def)

lemma subslice_all [simp]: "subslice xs 0 (length xs) = xs"
  by (simp add: subslice_def)

lemma subslice_update_other:
  "i < a \<or> b \<le> i \<Longrightarrow> subslice (xs[i := v]) a b = subslice xs a b"
  by (rule nth_equalityI) (auto simp: subslice_def nth_list_update)

lemma subslice_update_in:
  "a \<le> i \<Longrightarrow> i < b \<Longrightarrow> b \<le> length xs \<Longrightarrow> subslice (xs[i := v]) a b = (subslice xs a b)[i - a := v]"
  by (rule nth_equalityI) (auto simp: subslice_def nth_list_update)

lemma unat_Suc_less:
  fixes x y :: "'a::len word"
  assumes "x < y"
  shows "unat (x + 1) = Suc (unat x)"
proof -
  have "unat x < unat y" using assms by (simp add: word_less_nat_alt)
  moreover have "unat y < 2 ^ LENGTH('a)" by (rule unsigned_less)
  ultimately have "Suc (unat x) < 2 ^ LENGTH('a)" by linarith
  then show ?thesis by (simp add: unat_word_ariths)
qed

lemma u8_bit_beyond [simp]: "8 \<le> n \<Longrightarrow> \<not> bit (b :: u8) n"
  using bit_imp_le_length [of b n] by auto

lemma u32_to_le_from_le [codec_simps, simp]: "u32_to_le (u32_from_le a b c d) = [a, b, c, d]"
proof -
  have bits: "bit (u32_from_le a b c d) m \<longleftrightarrow>
      (if m < 8 then bit a m else if m < 16 then bit b (m - 8)
       else if m < 24 then bit c (m - 16) else bit d (m - 24))" if m: "m < 32" for m
  proof -
    consider "m < 8" | "8 \<le> m" "m < 16" | "16 \<le> m" "m < 24" | "24 \<le> m" by fastforce
    then show ?thesis using m
      by cases (auto simp: u32_from_le_def bit_or_iff bit_push_bit_iff bit_unsigned_iff)
  qed
  have "ucast (u32_from_le a b c d) = a"
    by (intro bit_word_eqI) (simp add: bits bit_unsigned_iff)
  moreover have "ucast (drop_bit 8 (u32_from_le a b c d)) = b"
    by (intro bit_word_eqI) (simp add: bits bit_unsigned_iff bit_drop_bit_eq)
  moreover have "ucast (drop_bit 16 (u32_from_le a b c d)) = c"
    by (intro bit_word_eqI) (simp add: bits bit_unsigned_iff bit_drop_bit_eq)
  moreover have "ucast (drop_bit 24 (u32_from_le a b c d)) = d"
    by (intro bit_word_eqI) (simp add: bits bit_unsigned_iff bit_drop_bit_eq)
  ultimately show ?thesis by (simp add: u32_to_le_def)
qed

lemma upt_0_numeral: "[0..<numeral k] = 0 # [Suc 0..<numeral k]"
  by (simp add: upt_conv_Cons)

lemma upt_1_numeral: "[Suc 0..<numeral k] = (if Suc 0 < numeral k then Suc 0 # [2..<numeral k] else [])"
  by (simp add: upt_conv_Cons numeral_2_eq_2)

lemmas upt_eval = upt_0_numeral upt_1_numeral upt_rec_numeral

lemma take_conv_map_nth: "n \<le> length xs \<Longrightarrow> take n xs = map ((!) xs) [0..<n]"
  by (rule nth_equalityI) auto

lemma subslice_conv_map_nth:
  "b \<le> length xs \<Longrightarrow> subslice xs a b = map ((!) xs) [a..<b]"
  by (rule nth_equalityI) (auto simp: subslice_def)

lemma list_conv_map_nth: "length xs = n \<Longrightarrow> xs = map ((!) xs) [0..<n]"
  by (auto simp: map_nth)

lemma copy_at_0_0: "copy_at buf 0 [] = buf"
  by (simp add: copy_at_def)

lemma update_0_copy_at: "0 < length buf \<Longrightarrow> buf[0 := v] = copy_at buf 0 [v]"
  by (cases buf) (simp_all add: copy_at_def)

lemma unat_ucast_up:
  fixes x :: "'a::len word"
  assumes "LENGTH('a) \<le> LENGTH('b::len)"
  shows "unat (ucast x :: 'b word) = unat x"
proof -
  have "unat x < 2 ^ LENGTH('a)" by (rule unsigned_less)
  also have "\<dots> \<le> 2 ^ LENGTH('b)" using assms by simp
  finally show ?thesis by (simp add: unsigned_ucast_eq take_bit_nat_eq_self)
qed

lemma unat_u32_minus_1: "unat (- 1 :: u32) = 4294967295"
  by (simp add: unsigned_minus_1_eq_mask mask_eq_exp_minus_1)

lemma unat_u32_bound: "unat (x :: u32) < 4294967296" "unat (x :: u32) \<le> 4294967295"
proof -
  have "unat x < 2 ^ LENGTH(32)" by (rule unsigned_less)
  then show "unat x < 4294967296" "unat x \<le> 4294967295" by simp_all
qed

lemma length_as_bytes [simp]: "length (as_bytes s) = length s"
  by (simp add: as_bytes_def)

lemma overflowing_add_unat:
  fixes a b :: "'a::len word"
  shows "snd (overflowing_add a b) \<longleftrightarrow> 2 ^ LENGTH('a) \<le> unat a + unat b"
proof -
  have u: "unat (a + b) = (unat a + unat b) mod 2 ^ LENGTH('a)"
    by (simp add: unat_word_ariths)
  have a: "unat a < 2 ^ LENGTH('a)" and b: "unat b < 2 ^ LENGTH('a)"
    by (rule unsigned_less)+
  show ?thesis
  proof (cases "unat a + unat b < 2 ^ LENGTH('a)")
    case True
    then show ?thesis using u by (simp add: overflowing_add_def word_less_nat_alt)
  next
    case False
    then have "unat (a + b) = (unat a + unat b - 2 ^ LENGTH('a)) mod 2 ^ LENGTH('a)"
      using u by (simp add: le_mod_geq)
    also have "\<dots> = unat a + unat b - 2 ^ LENGTH('a)"
      by (rule mod_less) (use a b False in linarith)
    finally have "unat (a + b) = unat a + unat b - 2 ^ LENGTH('a)" .
    with a b False have "unat (a + b) < unat a" by linarith
    with False show ?thesis by (simp add: overflowing_add_def word_less_nat_alt)
  qed
qed

end
