(* ===== verification/Float32.thy ===== *)
theory Float32
  imports Prelude
begin

text \<open>
  The \<open>f32\<close> and \<open>f64\<close> types of the sources as IEEE-754 binary32 and binary64, bit for bit and
  executable: a value is its bit pattern, every arithmetic operation is the exact integer result
  rounded to nearest, ties to even. A format is given by its number of fraction bits \<open>M\<close> and the
  magnitude code \<open>top\<close> of infinity; the magnitude code of a value is its bit pattern without the sign
  bit. Finite values are integers in units of the smallest subnormal (\<open>2^-149\<close> for binary32,
  \<open>2^-1074\<close> for binary64), so sums are exact integer sums and only the last step rounds.

  The result of an invalid operation is the default quiet NaN, as the Cortex-M33 and every host
  produce it; Rust leaves the payload of such a NaN unspecified and no code here reads it.
\<close>

named_theorems f32_simps \<open>unfolding the floating-point operations on concrete values\<close>

subsection \<open>Rounding a non-negative ratio to a magnitude code\<close>

function bitlen :: "int \<Rightarrow> nat" where
  "bitlen n = (if n \<le> 0 then 0 else Suc (bitlen (n div 2)))"
  by pat_completeness auto
termination
  by (relation "measure nat") auto

declare bitlen.simps [simp del]

text \<open>\<open>p / q\<close> to the nearest integer, ties to even.\<close>

definition rne :: "int \<Rightarrow> int \<Rightarrow> int" where
  "rne p q =
     (let n = p div q; r = 2 * (p mod q)
      in if r < q \<or> (r = q \<and> even n) then n else n + 1)"

text \<open>
  The value of a magnitude code in units of the smallest subnormal, and the code nearest to the
  ratio \<open>p / q\<close> of such units: \<open>k\<close> bits of \<open>p / q\<close> do not fit the significand and are rounded
  away; the code of significand \<open>m\<close> and exponent step \<open>k\<close> is \<open>k * 2^M + m\<close>, also across a carry.
\<close>

definition units_of :: "nat \<Rightarrow> int \<Rightarrow> int" where
  "units_of M c =
     (if c < 2 ^ M then c else (2 ^ M + c mod 2 ^ M) * 2 ^ nat (c div 2 ^ M - 1))"

definition code_of :: "nat \<Rightarrow> int \<Rightarrow> int \<Rightarrow> int" where
  "code_of M p q =
     (let k = bitlen (p div q) - Suc M in int k * 2 ^ M + rne p (q * 2 ^ k))"

subsection \<open>The binary32 type\<close>

datatype f32 = from_bits (to_bits: u32)

definition f32_sign :: "f32 \<Rightarrow> bool" where
  "f32_sign x \<longleftrightarrow> bit (to_bits x) 31"

definition f32_code :: "f32 \<Rightarrow> int" where
  "f32_code x = uint (to_bits x) mod 2 ^ 31"

abbreviation (input) f32_top :: int where
  "f32_top \<equiv> 0x7F800000"

definition f32_make :: "bool \<Rightarrow> int \<Rightarrow> f32" where
  "f32_make s c = from_bits (word_of_int ((if s then 2 ^ 31 else 0) + min c f32_top))"

definition is_nan :: "f32 \<Rightarrow> bool" where
  "is_nan x \<longleftrightarrow> f32_top < f32_code x"

definition is_infinite :: "f32 \<Rightarrow> bool" where
  "is_infinite x \<longleftrightarrow> f32_code x = f32_top"

definition is_finite :: "f32 \<Rightarrow> bool" where
  "is_finite x \<longleftrightarrow> f32_code x < f32_top"

definition f32_nan :: f32 where
  "f32_nan = from_bits 0x7FC00000"

text \<open>The signed value in units of \<open>2^-149\<close>.\<close>

definition f32_units :: "f32 \<Rightarrow> int" where
  "f32_units x = (if f32_sign x then - units_of 23 (f32_code x) else units_of 23 (f32_code x))"

text \<open>
  IEEE comparisons. Magnitude codes grow with the value they encode, so comparing values is
  comparing signed codes (\<open>f32_key\<close>); zero has the key 0 with either sign. A NaN compares false.
\<close>

definition f32_key :: "f32 \<Rightarrow> int" where
  "f32_key x = (if f32_sign x then - f32_code x else f32_code x)"

definition f32_le :: "f32 \<Rightarrow> f32 \<Rightarrow> bool" where
  "f32_le x y \<longleftrightarrow> \<not> is_nan x \<and> \<not> is_nan y \<and> f32_key x \<le> f32_key y"

definition f32_lt :: "f32 \<Rightarrow> f32 \<Rightarrow> bool" where
  "f32_lt x y \<longleftrightarrow> \<not> is_nan x \<and> \<not> is_nan y \<and> f32_key x < f32_key y"

definition f32_eq :: "f32 \<Rightarrow> f32 \<Rightarrow> bool" where
  "f32_eq x y \<longleftrightarrow> \<not> is_nan x \<and> \<not> is_nan y \<and> f32_key x = f32_key y"

subsection \<open>Arithmetic\<close>

definition f32_neg :: "f32 \<Rightarrow> f32" where
  "f32_neg x = from_bits (to_bits x XOR 0x80000000)"

definition f32_abs :: "f32 \<Rightarrow> f32" where
  "f32_abs x = from_bits (to_bits x AND 0x7FFFFFFF)"

definition f32_add :: "f32 \<Rightarrow> f32 \<Rightarrow> f32" where
  "f32_add x y =
     (if is_nan x \<or> is_nan y then f32_nan
      else if is_infinite x then
        (if is_infinite y \<and> f32_sign x \<noteq> f32_sign y then f32_nan else x)
      else if is_infinite y then y
      else (let s = f32_units x + f32_units y
            in if s = 0 then f32_make (f32_sign x \<and> f32_sign y) 0
               else f32_make (s < 0) (code_of 23 \<bar>s\<bar> 1)))"

definition f32_sub :: "f32 \<Rightarrow> f32 \<Rightarrow> f32" where
  "f32_sub x y = f32_add x (f32_neg y)"

definition f32_mul :: "f32 \<Rightarrow> f32 \<Rightarrow> f32" where
  "f32_mul x y =
     (if is_nan x \<or> is_nan y then f32_nan
      else if is_infinite x \<or> is_infinite y then
        (if f32_code x = 0 \<or> f32_code y = 0 then f32_nan
         else f32_make (f32_sign x \<noteq> f32_sign y) f32_top)
      else f32_make (f32_sign x \<noteq> f32_sign y)
             (code_of 23 (\<bar>f32_units x\<bar> * \<bar>f32_units y\<bar>) (2 ^ 149)))"

definition f32_div :: "f32 \<Rightarrow> f32 \<Rightarrow> f32" where
  "f32_div x y =
     (if is_nan x \<or> is_nan y then f32_nan
      else if is_infinite x then
        (if is_infinite y then f32_nan else f32_make (f32_sign x \<noteq> f32_sign y) f32_top)
      else if is_infinite y then f32_make (f32_sign x \<noteq> f32_sign y) 0
      else if f32_code y = 0 then
        (if f32_code x = 0 then f32_nan else f32_make (f32_sign x \<noteq> f32_sign y) f32_top)
      else f32_make (f32_sign x \<noteq> f32_sign y)
             (code_of 23 (\<bar>f32_units x\<bar> * 2 ^ 149) \<bar>f32_units y\<bar>))"

text \<open>\<open>f32::max\<close> and \<open>f32::min\<close> return the other operand when one is NaN.\<close>

definition f32_max :: "f32 \<Rightarrow> f32 \<Rightarrow> f32" where
  "f32_max x y = (if is_nan x then y else if is_nan y then x else if f32_lt x y then y else x)"

definition f32_min :: "f32 \<Rightarrow> f32 \<Rightarrow> f32" where
  "f32_min x y = (if is_nan x then y else if is_nan y then x else if f32_lt y x then y else x)"

text \<open>\<open>f32::clamp\<close> panics unless \<open>min <= max\<close> and passes NaN through.\<close>

definition f32_clamp :: "f32 \<Rightarrow> f32 \<Rightarrow> f32 \<Rightarrow> f32 option" where
  "f32_clamp x lo hi =
     (if \<not> f32_le lo hi then None
      else Some (if f32_lt x lo then lo else if f32_lt hi x then hi else x))"

subsection \<open>Literals and casts\<close>

text \<open>A literal \<open>n/d\<close> and \<open>n as f32\<close>.\<close>

definition f32_lit :: "int \<Rightarrow> int \<Rightarrow> f32" where
  "f32_lit n d = f32_make (n < 0) (code_of 23 (\<bar>n\<bar> * 2 ^ 149) d)"

definition f32_of_int :: "int \<Rightarrow> f32" where
  "f32_of_int n = f32_lit n 1"

definition f32_of_word :: "'a::len word \<Rightarrow> f32" where
  "f32_of_word w = f32_of_int (uint w)"

abbreviation (input) f32_0 :: f32 where "f32_0 \<equiv> from_bits 0"
abbreviation (input) f32_1 :: f32 where "f32_1 \<equiv> from_bits 0x3F800000"

text \<open>
  \<open>as\<close> to an integer type truncates towards zero, saturates, and sends NaN to 0; \<open>f32_trunc\<close> is
  the truncated value clamped to the target range.
\<close>

definition f32_trunc :: "int \<Rightarrow> int \<Rightarrow> f32 \<Rightarrow> int" where
  "f32_trunc lo hi x =
     (if is_nan x then 0
      else if is_infinite x then (if f32_sign x then lo else hi)
      else max lo (min hi (sgn (f32_units x) * (\<bar>f32_units x\<bar> div 2 ^ 149))))"

definition f32_to_u32 :: "f32 \<Rightarrow> u32" where
  "f32_to_u32 x = word_of_int (f32_trunc 0 (2 ^ 32 - 1) x)"

definition f32_to_u16 :: "f32 \<Rightarrow> u16" where
  "f32_to_u16 x = word_of_int (f32_trunc 0 (2 ^ 16 - 1) x)"

definition f32_to_i32 :: "f32 \<Rightarrow> int" where
  "f32_to_i32 x = f32_trunc (- (2 ^ 31)) (2 ^ 31 - 1) x"

definition f32_to_le :: "f32 \<Rightarrow> bytes" where
  "f32_to_le x = u32_to_le (to_bits x)"

definition f32_from_le :: "u8 \<Rightarrow> u8 \<Rightarrow> u8 \<Rightarrow> u8 \<Rightarrow> f32" where
  "f32_from_le a b c d = from_bits (u32_from_le a b c d)"

subsection \<open>Rounding: exactness and monotonicity\<close>

lemma bitlen_le_iff: "0 \<le> n \<Longrightarrow> bitlen n \<le> b \<longleftrightarrow> n < 2 ^ b"
proof (induction b arbitrary: n)
  case 0
  then show ?case by (subst bitlen.simps) auto
next
  case (Suc b)
  show ?case
  proof (cases "n = 0")
    case True
    then show ?thesis by (simp add: bitlen.simps)
  next
    case False
    with Suc.prems have "bitlen n = Suc (bitlen (n div 2))" by (subst bitlen.simps) auto
    moreover have "bitlen (n div 2) \<le> b \<longleftrightarrow> n div 2 < 2 ^ b" using Suc by simp
    moreover have "n div 2 < 2 ^ b \<longleftrightarrow> n < 2 ^ Suc b" by auto
    ultimately show ?thesis by simp
  qed
qed

lemma bitlen_mono: "0 \<le> m \<Longrightarrow> m \<le> n \<Longrightarrow> bitlen m \<le> bitlen n"
  by (meson bitlen_le_iff dual_order.trans le_less_trans order_refl)

lemma bitlen_ge: "0 \<le> n \<Longrightarrow> b < bitlen n \<Longrightarrow> 2 ^ b \<le> n"
  by (meson bitlen_le_iff not_le)

lemma bitlen_eqI: "2 ^ b \<le> n \<Longrightarrow> n < 2 ^ Suc b \<Longrightarrow> bitlen n = Suc b"
proof -
  assume lo: "2 ^ b \<le> n" and hi: "n < 2 ^ Suc b"
  from lo have n: "0 \<le> n" by (meson dual_order.trans zero_le_numeral zero_le_power)
  with hi have "bitlen n \<le> Suc b" by (simp only: bitlen_le_iff)
  moreover from n lo have "\<not> bitlen n \<le> b" by (simp only: bitlen_le_iff not_less)
  ultimately show ?thesis by simp
qed

lemma div_bounds:
  fixes p q :: int
  assumes "0 < q"
  shows "(p div q) * q \<le> p" "p < (p div q + 1) * q"
proof -
  have e: "(p div q) * q + p mod q = p" by (rule div_mult_mod_eq)
  have "0 \<le> p mod q" "p mod q < q" using assms by simp_all
  with e show "(p div q) * q \<le> p" "p < (p div q + 1) * q"
    unfolding distrib_right by linarith+
qed

lemma ratio_div_mono:
  fixes p q p' q' :: int
  assumes "0 < q" "0 < q'" "p * q' \<le> p' * q"
  shows "p div q \<le> p' div q'"
proof (rule ccontr)
  assume "\<not> ?thesis"
  then have "p' div q' + 1 \<le> p div q" by simp
  then have "(p' div q' + 1) * q \<le> p div q * q"
    using assms(1) by (simp add: mult_right_mono)
  also have "\<dots> \<le> p" by (rule div_bounds [OF assms(1)])
  finally have "(p' div q' + 1) * q * q' \<le> p * q'"
    using assms(2) by (simp add: mult_right_mono)
  moreover have "p' * q < (p' div q' + 1) * q' * q"
    using div_bounds(2) [OF assms(2), of p'] assms(1) by simp
  ultimately show False using assms(3) by (simp add: mult.commute mult.left_commute)
qed

lemma rne_bounds: "p div q \<le> rne p q" "rne p q \<le> p div q + 1"
  by (auto simp: rne_def Let_def)

lemma rne_mono:
  assumes "0 < q" "0 < q'" "p * q' \<le> p' * q"
  shows "rne p q \<le> rne p' q'"
proof -
  let ?n = "p div q" and ?n' = "p' div q'"
  have le: "?n \<le> ?n'" by (rule ratio_div_mono [OF assms])
  show ?thesis
  proof (cases "?n = ?n'")
    case False
    with le rne_bounds [of p q] rne_bounds [of p' q'] show ?thesis by linarith
  next
    case True
    have "(p - ?n * q) * q' \<le> (p' - ?n * q') * q"
      using assms(3) by (simp add: algebra_simps)
    then have m: "(p mod q) * q' \<le> (p' mod q') * q"
      unfolding minus_div_mult_eq_mod [symmetric] True [symmetric] .
    have up: "q' \<le> 2 * (p' mod q')" if "q \<le> 2 * (p mod q)"
    proof -
      have "q * q' \<le> 2 * (p mod q) * q'" using that assms(2) by simp
      also have "\<dots> \<le> 2 * (p' mod q') * q" using m by simp
      finally show ?thesis using assms(1) by (simp add: mult.commute)
    qed
    have up': "q' < 2 * (p' mod q')" if "q < 2 * (p mod q)"
    proof -
      have "q * q' < 2 * (p mod q) * q'" using that assms(2) by simp
      also have "\<dots> \<le> 2 * (p' mod q') * q" using m by simp
      finally show ?thesis using assms(1) by (simp add: mult.commute)
    qed
    show ?thesis
      using True up up' by (auto simp: rne_def Let_def not_less)
  qed
qed

lemma rne_exact [simp]: "0 < q \<Longrightarrow> rne (n * q) q = n"
  by (simp add: rne_def)

lemma rne_exact_1 [simp]: "rne n 1 = n"
  by (simp add: rne_def)

lemma rne_le: "0 < q \<Longrightarrow> p \<le> n * q \<Longrightarrow> rne p q \<le> n"
  using rne_mono [of q q p "n * q"] by simp

lemma rne_ge: "0 < q \<Longrightarrow> n * q \<le> p \<Longrightarrow> n \<le> rne p q"
  using rne_mono [of q q "n * q" p] by simp

lemma code_of_nonneg: "0 \<le> p \<Longrightarrow> 0 < q \<Longrightarrow> 0 \<le> code_of M p q"
  by (simp add: code_of_def Let_def rne_ge)

lemma code_of_upper:
  assumes "0 \<le> p" "0 < q"
  shows "code_of M p q \<le> int (bitlen (p div q) - Suc M) * 2 ^ M + 2 * 2 ^ M"
proof -
  let ?k = "bitlen (p div q) - Suc M"
  have "p div q < 2 ^ (?k + Suc M)"
    using assms by (subst bitlen_le_iff [symmetric]) (auto simp: pos_imp_zdiv_nonneg_iff)
  then have "p < 2 ^ (?k + Suc M) * q"
  proof -
    have "p < (p div q + 1) * q" by (rule div_bounds [OF assms(2)])
    also have "\<dots> \<le> 2 ^ (?k + Suc M) * q"
      using \<open>p div q < 2 ^ (?k + Suc M)\<close> assms(2) by (intro mult_right_mono) auto
    finally show ?thesis .
  qed
  then have "p \<le> (2 * 2 ^ M) * (q * 2 ^ ?k)"
    by (simp add: power_add algebra_simps)
  then have "rne p (q * 2 ^ ?k) \<le> 2 * 2 ^ M"
    using assms(2) by (intro rne_le) auto
  then show ?thesis by (simp add: code_of_def Let_def)
qed

lemma code_of_lower:
  assumes "0 \<le> p" "0 < q" "Suc M < bitlen (p div q)"
  shows "int (bitlen (p div q) - Suc M) * 2 ^ M + 2 ^ M \<le> code_of M p q"
proof -
  let ?k = "bitlen (p div q) - Suc M"
  have "2 ^ (?k + M) \<le> p div q"
    using assms by (intro bitlen_ge) (auto simp: pos_imp_zdiv_nonneg_iff)
  then have "2 ^ (?k + M) * q \<le> p"
    using div_bounds(1) [OF assms(2), of p] assms(2)
    by (meson dual_order.trans mult_right_mono order_less_imp_le)
  then have "2 ^ M * (q * 2 ^ ?k) \<le> p"
    by (simp add: power_add algebra_simps)
  then have "2 ^ M \<le> rne p (q * 2 ^ ?k)"
    using assms(2) by (intro rne_ge) auto
  then show ?thesis by (simp add: code_of_def Let_def)
qed

lemma code_of_mono:
  assumes "0 \<le> p" "0 < q" "0 < q'" "p * q' \<le> p' * q"
  shows "code_of M p q \<le> code_of M p' q'"
proof -
  let ?k = "bitlen (p div q) - Suc M" and ?k' = "bitlen (p' div q') - Suc M"
  have "0 \<le> p' * q" using assms by (meson dual_order.trans mult_nonneg_nonneg order_less_imp_le)
  with assms(2) have p': "0 \<le> p'" by (simp add: zero_le_mult_iff)
  have b: "bitlen (p div q) \<le> bitlen (p' div q')"
    using assms by (intro bitlen_mono ratio_div_mono) (auto simp: pos_imp_zdiv_nonneg_iff)
  show ?thesis
  proof (cases "?k = ?k'")
    case True
    have "p * (q' * 2 ^ ?k) \<le> p' * (q * 2 ^ ?k)" using assms(4) by (simp add: mult.assoc [symmetric])
    then have "rne p (q * 2 ^ ?k) \<le> rne p' (q' * 2 ^ ?k)"
      using assms by (intro rne_mono) auto
    with True show ?thesis by (simp add: code_of_def Let_def)
  next
    case False
    with b have k: "?k + 1 \<le> ?k'" and m: "Suc M < bitlen (p' div q')" by auto
    have "code_of M p q \<le> (int ?k + 2) * 2 ^ M"
      using code_of_upper [OF assms(1,2), of M] by (simp add: algebra_simps)
    also have "\<dots> \<le> (int ?k' + 1) * 2 ^ M" using k by (intro mult_right_mono) auto
    also have "\<dots> \<le> code_of M p' q'"
      using code_of_lower [OF p' assms(3) m] by (simp add: algebra_simps)
    finally show ?thesis .
  qed
qed

lemma units_of_nonneg: "0 \<le> c \<Longrightarrow> 0 \<le> units_of M c"
  by (simp add: units_of_def)

lemma code_of_units_of: "0 \<le> c \<Longrightarrow> code_of M (units_of M c) 1 = c"
proof (cases "c < 2 ^ M")
  case True
  assume "0 \<le> c"
  with True have "bitlen c \<le> Suc M" by (simp add: bitlen_le_iff)
  with True show ?thesis by (simp add: code_of_def units_of_def)
next
  case False
  define e where "e = nat (c div 2 ^ M - 1)"
  define f where "f = c mod 2 ^ M"
  have f: "0 \<le> f" "f < 2 ^ M" by (simp_all add: f_def)
  have "1 \<le> c div 2 ^ M" using False by (simp add: pos_imp_zdiv_pos_iff not_less int_one_le_iff_zero_less)
  then have c: "c = (int e + 1) * 2 ^ M + f" by (simp add: e_def f_def div_mult_mod_eq)
  have u: "units_of M c = (2 ^ M + f) * 2 ^ e" using False by (simp add: units_of_def e_def f_def)
  have "bitlen ((2 ^ M + f) * 2 ^ e) = Suc (M + e)"
  proof (rule bitlen_eqI)
    show "2 ^ (M + e) \<le> (2 ^ M + f) * 2 ^ e" using f by (simp add: power_add)
    show "(2 ^ M + f) * 2 ^ e < 2 ^ Suc (M + e)" using f by (simp add: power_add algebra_simps)
  qed
  then have "code_of M (units_of M c) 1 = int e * 2 ^ M + (2 ^ M + f)"
    by (simp add: code_of_def u)
  also have "\<dots> = (int e + 1) * 2 ^ M + f" by (simp add: distrib_right)
  also have "\<dots> = c" by (rule c [symmetric])
  finally show ?thesis .
qed


lemma units_of_strict_mono: "0 \<le> a \<Longrightarrow> a < b \<Longrightarrow> units_of M a < units_of M b"
proof (rule ccontr)
  assume a: "0 \<le> a" "a < b" and n: "\<not> units_of M a < units_of M b"
  then have "code_of M (units_of M b) 1 \<le> code_of M (units_of M a) 1"
    by (intro code_of_mono) (auto simp: units_of_nonneg)
  with a show False by (simp add: code_of_units_of)
qed

lemma units_of_le_iff:
  "0 \<le> a \<Longrightarrow> 0 \<le> b \<Longrightarrow> units_of M a \<le> units_of M b \<longleftrightarrow> a \<le> b"
  using units_of_strict_mono [of a b M] units_of_strict_mono [of b a M] by force

lemma units_of_0 [simp]: "units_of M 0 = 0"
  by (simp add: units_of_def)

lemma units_of_eq_0_iff: "0 \<le> c \<Longrightarrow> units_of M c = 0 \<longleftrightarrow> c = 0"
  using units_of_le_iff [of c 0 M] units_of_nonneg [of c M] by auto

text \<open>A ratio below (above) a representable value rounds to a code below (above) its code.\<close>

lemma code_of_le: "0 \<le> p \<Longrightarrow> 0 < q \<Longrightarrow> 0 \<le> c \<Longrightarrow> p \<le> units_of M c * q \<Longrightarrow> code_of M p q \<le> c"
  using code_of_mono [of p q 1 "units_of M c" M] by (simp add: code_of_units_of)

lemma code_of_ge: "0 < q \<Longrightarrow> 0 \<le> c \<Longrightarrow> units_of M c * q \<le> p \<Longrightarrow> c \<le> code_of M p q"
  using code_of_mono [of "units_of M c" 1 q p M] by (simp add: code_of_units_of units_of_nonneg)

subsection \<open>Codes, signs and keys of results\<close>

lemma f32_code_range [simp]: "0 \<le> f32_code x" "f32_code x < 2 ^ 31"
  by (simp_all add: f32_code_def)

lemma f32_make_bits:
  assumes "0 \<le> c"
  shows "uint (to_bits (f32_make s c)) = (if s then 2 ^ 31 else 0) + min c f32_top"
proof -
  have "0 \<le> (if s then 2 ^ 31 else 0) + min c f32_top"
    "(if s then 2 ^ 31 else 0) + min c f32_top < (2 ^ 32 :: int)"
    using assms by (auto simp: min_def)
  then show ?thesis unfolding f32_make_def f32.sel by (intro uint_word_of_int_id) simp_all
qed

lemma f32_make_code [simp]: "0 \<le> c \<Longrightarrow> f32_code (f32_make s c) = min c f32_top"
  by (auto simp: f32_code_def f32_make_bits)

lemma f32_sign_iff: "f32_sign x \<longleftrightarrow> 2 ^ 31 \<le> uint (to_bits x)"
proof -
  have u: "uint (to_bits x) < 2 ^ 32" "0 \<le> uint (to_bits x)"
    using uint_lt2p [of "to_bits x"] by simp_all
  have "uint (to_bits x) div 2 ^ 31 = (if 2 ^ 31 \<le> uint (to_bits x) then 1 else 0)"
    using u by (auto simp: div_eq_0_iff div_pos_geq)
  then have "bit (uint (to_bits x)) 31 \<longleftrightarrow> 2 ^ 31 \<le> uint (to_bits x)"
    by (simp add: bit_iff_odd)
  then show ?thesis by (simp add: f32_sign_def bit_uint_iff)
qed

lemma f32_make_sign [simp]: "0 \<le> c \<Longrightarrow> f32_sign (f32_make s c) = s"
  by (auto simp: f32_sign_iff f32_make_bits)

lemma f32_make_not_nan [simp]: "0 \<le> c \<Longrightarrow> \<not> is_nan (f32_make s c)"
  by (simp add: is_nan_def)

lemma f32_key_make: "0 \<le> c \<Longrightarrow> f32_key (f32_make s c) = (if s then - min c f32_top else min c f32_top)"
  by (simp add: f32_key_def)

lemma is_finite_iff: "is_finite x \<longleftrightarrow> \<not> is_nan x \<and> \<not> is_infinite x"
  by (auto simp: is_finite_def is_nan_def is_infinite_def)

subsection \<open>Order: results are the monotone rounding of the exact value\<close>

text \<open>The key of the exact value \<open>p / q\<close> rounded: what every finite operation returns.\<close>

definition rkey :: "int \<Rightarrow> int \<Rightarrow> int" where
  "rkey p q = (if p < 0 then - min (code_of 23 (- p) q) f32_top else min (code_of 23 p q) f32_top)"

lemma code_of_0 [simp]: "0 < q \<Longrightarrow> code_of M 0 q = 0"
  by (simp add: code_of_def rne_def bitlen.simps)

lemma rkey_0 [simp]: "0 < q \<Longrightarrow> rkey 0 q = 0"
  by (simp add: rkey_def)

lemma rkey_mono:
  assumes "0 < q" "p \<le> p'"
  shows "rkey p q \<le> rkey p' q"
proof -
  have mono: "code_of 23 a q \<le> code_of 23 b q" if "0 \<le> a" "a \<le> b" for a b
    using that assms(1) by (intro code_of_mono) auto
  have nn: "0 \<le> code_of 23 a q" if "0 \<le> a" for a using that assms(1) by (rule code_of_nonneg)
  consider "p' < 0" | "p < 0" "0 \<le> p'" | "0 \<le> p" by linarith
  then show ?thesis
  proof cases
    case 1
    then show ?thesis using assms mono [of "- p'" "- p"] by (simp add: rkey_def min_def)
  next
    case 2
    then show ?thesis using nn [of "- p"] nn [of p'] by (simp add: rkey_def min_def)
  next
    case 3
    then show ?thesis using assms mono [of p p'] by (simp add: rkey_def min_def)
  qed
qed

lemma f32_units_key: "rkey (f32_units x) 1 = f32_key x" if "is_finite x"
proof -
  have c: "0 \<le> f32_code x" "f32_code x < f32_top" using that by (simp_all add: is_finite_def)
  show ?thesis
    using c code_of_units_of [OF c(1), of 23] units_of_nonneg [OF c(1), of 23]
      units_of_eq_0_iff [OF c(1), of 23]
    by (auto simp: rkey_def f32_units_def f32_key_def)
qed

lemma f32_units_le_iff: "f32_units x \<le> f32_units y \<longleftrightarrow> f32_key x \<le> f32_key y"
proof -
  let ?a = "f32_code x" and ?b = "f32_code y"
  let ?u = "units_of 23 ?a" and ?v = "units_of 23 ?b"
  have r: "0 \<le> ?a" "0 \<le> ?b" by simp_all
  have u: "0 \<le> ?u" "0 \<le> ?v" using r by (simp_all add: units_of_nonneg)
  have z: "?u = 0 \<longleftrightarrow> ?a = 0" "?v = 0 \<longleftrightarrow> ?b = 0" using r by (simp_all add: units_of_eq_0_iff)
  have le: "?u \<le> ?v \<longleftrightarrow> ?a \<le> ?b" "?v \<le> ?u \<longleftrightarrow> ?b \<le> ?a"
    using r by (simp_all add: units_of_le_iff)
  have p: "?u \<le> - ?v \<longleftrightarrow> ?a \<le> - ?b" using r u z by linarith
  have n: "- ?u \<le> ?v" "- ?a \<le> ?b" using r u by linarith+
  show ?thesis unfolding f32_units_def f32_key_def using le p n by auto
qed

lemma finite_not: "is_finite x \<Longrightarrow> \<not> is_nan x" "is_finite x \<Longrightarrow> \<not> is_infinite x"
  by (simp_all add: is_finite_iff)

lemma f32_key_add:
  assumes "is_finite x" "is_finite y"
  shows "\<not> is_nan (f32_add x y)" "f32_key (f32_add x y) = rkey (f32_units x + f32_units y) 1"
proof -
  have nn: "0 \<le> code_of 23 \<bar>s\<bar> 1" for s by (rule code_of_nonneg) simp_all
  show "\<not> is_nan (f32_add x y)" "f32_key (f32_add x y) = rkey (f32_units x + f32_units y) 1"
    using finite_not [OF assms(1)] finite_not [OF assms(2)] nn [of "f32_units x + f32_units y"]
    by (auto simp: f32_add_def Let_def f32_key_make rkey_def)
qed

lemma f32_add_mono:
  assumes "is_finite x" "is_finite y" "is_finite z" "f32_le y z"
  shows "f32_le (f32_add x y) (f32_add x z)"
  using assms f32_key_add rkey_mono [of 1 "f32_units x + f32_units y" "f32_units x + f32_units z"]
    f32_units_le_iff [of y z]
  by (simp add: f32_le_def)

lemma f32_add_key_0:
  assumes "is_finite x" "is_finite z" "f32_key z = 0"
  shows "f32_key (f32_add x z) = f32_key x"
proof -
  have "f32_units z = 0"
    using f32_units_le_iff [of z "from_bits 0"] f32_units_le_iff [of "from_bits 0" z] assms(3)
    by (simp add: f32_units_def f32_key_def f32_code_def f32_sign_def)
  then show ?thesis using f32_key_add [OF assms(1,2)] f32_units_key [OF assms(1)] by simp
qed

lemma units_of_pos: "0 < c \<Longrightarrow> 0 < units_of M c"
  using units_of_strict_mono [of 0 c M] by simp

lemma f32_units_sgn: "f32_units x < 0 \<longleftrightarrow> f32_sign x \<and> 0 < f32_code x"
  "f32_units x = 0 \<longleftrightarrow> f32_code x = 0" "\<bar>f32_units x\<bar> = units_of 23 (f32_code x)"
proof -
  have c: "0 \<le> f32_code x" by simp
  show "f32_units x < 0 \<longleftrightarrow> f32_sign x \<and> 0 < f32_code x" "f32_units x = 0 \<longleftrightarrow> f32_code x = 0"
    "\<bar>f32_units x\<bar> = units_of 23 (f32_code x)"
    using units_of_nonneg [OF c, of 23] units_of_eq_0_iff [OF c, of 23] c
    by (auto simp: f32_units_def order.order_iff_strict)
qed

lemma f32_key_mul:
  assumes "is_finite x" "is_finite y"
  shows "\<not> is_nan (f32_mul x y)" "f32_key (f32_mul x y) = rkey (f32_units x * f32_units y) (2 ^ 149)"
proof -
  let ?u = "f32_units x" and ?v = "f32_units y"
  have nn: "0 \<le> code_of 23 (\<bar>?u\<bar> * \<bar>?v\<bar>) (2 ^ 149)" by (rule code_of_nonneg) simp_all
  have m: "f32_mul x y = f32_make (f32_sign x \<noteq> f32_sign y) (code_of 23 (\<bar>?u\<bar> * \<bar>?v\<bar>) (2 ^ 149))"
    using finite_not [OF assms(1)] finite_not [OF assms(2)] by (simp add: f32_mul_def)
  show "\<not> is_nan (f32_mul x y)" unfolding m by (rule f32_make_not_nan [OF nn])
  show "f32_key (f32_mul x y) = rkey (?u * ?v) (2 ^ 149)"
  proof (cases "?u = 0 \<or> ?v = 0")
    case True
    then show ?thesis unfolding m using f32_key_make by auto
  next
    case False
    then have s: "?u < 0 \<longleftrightarrow> f32_sign x" "?v < 0 \<longleftrightarrow> f32_sign y"
      using f32_units_sgn(1,2) f32_code_range(1) by (metis order_le_less)+
    have "?u * ?v < 0 \<longleftrightarrow> (f32_sign x \<noteq> f32_sign y)"
      using False s by (auto simp: mult_less_0_iff)
    moreover have "\<bar>?u\<bar> * \<bar>?v\<bar> = (if ?u * ?v < 0 then - (?u * ?v) else ?u * ?v)"
      unfolding abs_mult [symmetric] by (rule abs_if)
    ultimately show ?thesis unfolding m using f32_key_make [OF nn] by (simp add: rkey_def split: if_splits)
  qed
qed

lemma rkey_scale: "0 < r \<Longrightarrow> 0 < q \<Longrightarrow> rkey (p * r) (q * r) = rkey p q"
proof -
  assume r: "0 < r" "0 < q"
  have c: "code_of 23 (a * r) (q * r) = code_of 23 a q" if "0 \<le> a" for a
    using r that by (intro antisym code_of_mono) (auto simp: algebra_simps)
  have "p * r < 0 \<longleftrightarrow> p < 0" using r by (simp add: mult_less_0_iff)
  then show ?thesis using c [of p] c [of "- p"] by (auto simp: rkey_def)
qed

end
