(* ===== verification/Float64.thy ===== *)
theory Float64
  imports Float32
begin

text \<open>
  The \<open>f64\<close> operations the sources use when they compute phase increments and filter
  coefficients: the same construction as \<open>f32\<close> with 52 fraction bits and units of \<open>2^-1074\<close>.
\<close>

datatype f64 = from_bits64 (to_bits64: u64)

definition f64_sign :: "f64 \<Rightarrow> bool" where
  "f64_sign x \<longleftrightarrow> bit (to_bits64 x) 63"

definition f64_code :: "f64 \<Rightarrow> int" where
  "f64_code x = uint (to_bits64 x) mod 2 ^ 63"

abbreviation (input) f64_top :: int where
  "f64_top \<equiv> 0x7FF0000000000000"

definition f64_make :: "bool \<Rightarrow> int \<Rightarrow> f64" where
  "f64_make s c = from_bits64 (word_of_int ((if s then 2 ^ 63 else 0) + min c f64_top))"

definition f64_is_nan :: "f64 \<Rightarrow> bool" where
  "f64_is_nan x \<longleftrightarrow> f64_top < f64_code x"

definition f64_is_infinite :: "f64 \<Rightarrow> bool" where
  "f64_is_infinite x \<longleftrightarrow> f64_code x = f64_top"

definition f64_is_finite :: "f64 \<Rightarrow> bool" where
  "f64_is_finite x \<longleftrightarrow> f64_code x < f64_top"

definition f64_nan :: f64 where
  "f64_nan = from_bits64 0x7FF8000000000000"

definition f64_units :: "f64 \<Rightarrow> int" where
  "f64_units x = (if f64_sign x then - units_of 52 (f64_code x) else units_of 52 (f64_code x))"

definition f64_key :: "f64 \<Rightarrow> int" where
  "f64_key x = (if f64_sign x then - f64_code x else f64_code x)"

definition f64_lt :: "f64 \<Rightarrow> f64 \<Rightarrow> bool" where
  "f64_lt x y \<longleftrightarrow> \<not> f64_is_nan x \<and> \<not> f64_is_nan y \<and> f64_key x < f64_key y"

definition f64_le :: "f64 \<Rightarrow> f64 \<Rightarrow> bool" where
  "f64_le x y \<longleftrightarrow> \<not> f64_is_nan x \<and> \<not> f64_is_nan y \<and> f64_key x \<le> f64_key y"

definition f64_neg :: "f64 \<Rightarrow> f64" where
  "f64_neg x = from_bits64 (to_bits64 x XOR 0x8000000000000000)"

definition f64_add :: "f64 \<Rightarrow> f64 \<Rightarrow> f64" where
  "f64_add x y =
     (if f64_is_nan x \<or> f64_is_nan y then f64_nan
      else if f64_is_infinite x then
        (if f64_is_infinite y \<and> f64_sign x \<noteq> f64_sign y then f64_nan else x)
      else if f64_is_infinite y then y
      else (let s = f64_units x + f64_units y
            in if s = 0 then f64_make (f64_sign x \<and> f64_sign y) 0
               else f64_make (s < 0) (code_of 52 \<bar>s\<bar> 1)))"

definition f64_sub :: "f64 \<Rightarrow> f64 \<Rightarrow> f64" where
  "f64_sub x y = f64_add x (f64_neg y)"

definition f64_mul :: "f64 \<Rightarrow> f64 \<Rightarrow> f64" where
  "f64_mul x y =
     (if f64_is_nan x \<or> f64_is_nan y then f64_nan
      else if f64_is_infinite x \<or> f64_is_infinite y then
        (if f64_code x = 0 \<or> f64_code y = 0 then f64_nan
         else f64_make (f64_sign x \<noteq> f64_sign y) f64_top)
      else f64_make (f64_sign x \<noteq> f64_sign y)
             (code_of 52 (\<bar>f64_units x\<bar> * \<bar>f64_units y\<bar>) (2 ^ 1074)))"

definition f64_div :: "f64 \<Rightarrow> f64 \<Rightarrow> f64" where
  "f64_div x y =
     (if f64_is_nan x \<or> f64_is_nan y then f64_nan
      else if f64_is_infinite x then
        (if f64_is_infinite y then f64_nan else f64_make (f64_sign x \<noteq> f64_sign y) f64_top)
      else if f64_is_infinite y then f64_make (f64_sign x \<noteq> f64_sign y) 0
      else if f64_code y = 0 then
        (if f64_code x = 0 then f64_nan else f64_make (f64_sign x \<noteq> f64_sign y) f64_top)
      else f64_make (f64_sign x \<noteq> f64_sign y)
             (code_of 52 (\<bar>f64_units x\<bar> * 2 ^ 1074) \<bar>f64_units y\<bar>))"

definition f64_lit :: "int \<Rightarrow> int \<Rightarrow> f64" where
  "f64_lit n d = f64_make (n < 0) (code_of 52 (\<bar>n\<bar> * 2 ^ 1074) d)"

text \<open>\<open>x as f64\<close> of an \<open>f32\<close> is exact; \<open>x as f32\<close> of an \<open>f64\<close> rounds.\<close>

definition f64_of_f32 :: "f32 \<Rightarrow> f64" where
  "f64_of_f32 x =
     (if is_nan x then f64_nan
      else if is_infinite x then f64_make (f32_sign x) f64_top
      else f64_make (f32_sign x) (code_of 52 (\<bar>f32_units x\<bar> * 2 ^ 925) 1))"

definition f32_of_f64 :: "f64 \<Rightarrow> f32" where
  "f32_of_f64 x =
     (if f64_is_nan x then f32_nan
      else if f64_is_infinite x then f32_make (f64_sign x) f32_top
      else f32_make (f64_sign x) (code_of 23 \<bar>f64_units x\<bar> (2 ^ 925)))"

definition f64_to_u32 :: "f64 \<Rightarrow> u32" where
  "f64_to_u32 x =
     word_of_int
       (if f64_is_nan x then 0
        else if f64_is_infinite x then (if f64_sign x then 0 else 2 ^ 32 - 1)
        else max 0 (min (2 ^ 32 - 1) (sgn (f64_units x) * (\<bar>f64_units x\<bar> div 2 ^ 1074))))"

subsection \<open>Facts\<close>

lemma f64_code_range [simp]: "0 \<le> f64_code x" "f64_code x < 2 ^ 63"
  by (simp_all add: f64_code_def)

lemma f64_make_bits:
  assumes "0 \<le> c"
  shows "uint (to_bits64 (f64_make s c)) = (if s then 2 ^ 63 else 0) + min c f64_top"
proof -
  have "0 \<le> (if s then 2 ^ 63 else 0) + min c f64_top"
    "(if s then 2 ^ 63 else 0) + min c f64_top < (2 ^ 64 :: int)"
    using assms by (auto simp: min_def)
  then show ?thesis unfolding f64_make_def f64.sel by (intro uint_word_of_int_id) simp_all
qed

lemma f64_make_code [simp]: "0 \<le> c \<Longrightarrow> f64_code (f64_make s c) = min c f64_top"
  by (auto simp: f64_code_def f64_make_bits)

text \<open>A magnitude code is the rounding of a ratio up to common factors, and whole numbers below \<open>2^53\<close> are exact.\<close>

lemma code_of_scale: "0 \<le> p \<Longrightarrow> 0 < q \<Longrightarrow> 0 < r \<Longrightarrow> code_of M (p * r) (q * r) = code_of M p q"
  by (intro order_antisym code_of_mono) (auto simp: mult.assoc mult.commute mult.left_commute)

lemma whole_code:
  assumes "0 < n" "n < 2 ^ Suc M" "M \<le> k"
  shows "\<exists>c. 0 \<le> c \<and> units_of M c = n * 2 ^ k \<and> c < (int k + 2) * 2 ^ M"
proof -
  define b where "b = bitlen n - 1"
  have bl: "bitlen n = Suc b" using assms(1) by (simp add: b_def bitlen.simps)
  have b: "2 ^ b \<le> n" "n < 2 ^ Suc b" "b \<le> M"
    using bitlen_ge [of n b] bl bitlen_le_iff [of n "Suc b"] bitlen_le_iff [of n "Suc M"] assms by auto
  define m where "m = n * 2 ^ (M - b)"
  have "2 ^ b * 2 ^ (M - b) \<le> m" "m < 2 ^ Suc b * 2 ^ (M - b)" unfolding m_def using b by (auto intro: mult_right_mono)
  then have m: "2 ^ M \<le> m" "m < 2 * 2 ^ M" using b(3) by (simp_all add: power_add [symmetric] mult.assoc)
  define e where "e = k - (M - b)"
  define c where "c = (int e + 1) * 2 ^ M + (m - 2 ^ M)"
  have "0 \<le> m - 2 ^ M" "m - 2 ^ M < 2 ^ M" using m by simp_all
  then have dm: "c div 2 ^ M = int e + 1" "c mod 2 ^ M = m - 2 ^ M"
    using int_div_pos_eq [of c "2 ^ M" "int e + 1" "m - 2 ^ M"] int_mod_pos_eq [of c "2 ^ M" "int e + 1" "m - 2 ^ M"]
    by (simp_all add: c_def mult.commute)
  have "2 ^ M \<le> c" 
  proof -
    have "c = int e * 2 ^ M + m" "0 \<le> int e * 2 ^ M" by (simp_all add: c_def distrib_right)
    then show ?thesis using m by linarith
  qed
  then have "units_of M c = m * 2 ^ e" by (simp add: units_of_def dm)
  also have "\<dots> = n * 2 ^ k" using assms(3) by (simp add: m_def e_def mult.assoc power_add [symmetric])
  finally have "units_of M c = n * 2 ^ k" .
  moreover have "c < (int e + 2) * 2 ^ M" using m by (simp add: c_def algebra_simps)
  then have "c < (int k + 2) * 2 ^ M"
    by (rule less_le_trans) (intro mult_right_mono, simp_all add: e_def)
  moreover have "0 \<le> c" using \<open>2 ^ M \<le> c\<close> by (rule order_trans [rotated]) simp
  ultimately show ?thesis by blast
qed

text \<open>A whole number held exactly.\<close>

definition f64_whole :: "f64 \<Rightarrow> int \<Rightarrow> bool" where
  "f64_whole x n \<longleftrightarrow> f64_is_finite x \<and> \<not> f64_sign x \<and> f64_units x = n * 2 ^ 1074"

lemma f64_sign_iff: "f64_sign x \<longleftrightarrow> 2 ^ 63 \<le> uint (to_bits64 x)"
proof -
  have u: "uint (to_bits64 x) < 2 ^ 64" "0 \<le> uint (to_bits64 x)"
    using uint_lt2p [of "to_bits64 x"] by simp_all
  have "uint (to_bits64 x) div 2 ^ 63 = (if 2 ^ 63 \<le> uint (to_bits64 x) then 1 else 0)"
    using u by (auto simp: div_eq_0_iff div_pos_geq)
  then have "bit (uint (to_bits64 x)) 63 \<longleftrightarrow> 2 ^ 63 \<le> uint (to_bits64 x)"
    by (simp add: bit_iff_odd)
  then show ?thesis by (simp add: f64_sign_def bit_uint_iff)
qed

lemma f64_make_sign [simp]: "0 \<le> c \<Longrightarrow> f64_sign (f64_make s c) = s"
  by (auto simp: f64_sign_iff f64_make_bits)

lemma code_of_whole:
  assumes "0 \<le> n" "n < 2 ^ 53"
  shows "0 \<le> code_of 52 (n * 2 ^ 1074) 1 \<and> code_of 52 (n * 2 ^ 1074) 1 < f64_top \<and> units_of 52 (code_of 52 (n * 2 ^ 1074) 1) = n * 2 ^ 1074"
proof (cases "n = 0")
  case True
  then show ?thesis by simp
next
  case False
  then obtain c where c: "0 \<le> c" "units_of 52 c = n * 2 ^ 1074" "c < 1076 * 2 ^ 52"
    using whole_code [of n 52 1074] assms by auto
  then have "code_of 52 (n * 2 ^ 1074) 1 = c" using code_of_units_of [OF c(1), of 52] by simp
  then show ?thesis using c by simp
qed

lemma f64_whole_lit: "0 \<le> n \<Longrightarrow> n < 2 ^ 53 \<Longrightarrow> f64_whole (f64_lit n 1) n"
  using code_of_whole [of n] by (auto simp: f64_whole_def f64_lit_def f64_is_finite_def f64_units_def min_def)

lemma f64_whole_mul:
  assumes "f64_whole x a" "f64_whole y b" "0 \<le> a" "0 \<le> b" "a * b < 2 ^ 53"
  shows "f64_whole (f64_mul x y) (a * b)"
proof -
  have "\<not> f64_is_nan x" "\<not> f64_is_nan y" "\<not> f64_is_infinite x" "\<not> f64_is_infinite y"
    using assms(1,2) by (auto simp: f64_whole_def f64_is_finite_def f64_is_nan_def f64_is_infinite_def)
  moreover have "code_of 52 (a * 2 ^ 1074 * (b * 2 ^ 1074)) (2 ^ 1074) = code_of 52 (a * b * 2 ^ 1074) 1"
    using code_of_scale [of "a * b * 2 ^ 1074" 1 "2 ^ 1074" 52] assms(3,4) by (simp add: mult.assoc mult.left_commute)
  ultimately have "f64_mul x y = f64_make False (code_of 52 (a * b * 2 ^ 1074) 1)"
    using assms by (simp add: f64_mul_def f64_whole_def del: power_numeral)
  then show ?thesis using code_of_whole [of "a * b"] assms
    by (auto simp: f64_whole_def f64_is_finite_def f64_units_def min_def)
qed

lemma f64_whole_pos:
  assumes "f64_whole x n" "0 < n"
  shows "\<not> f64_le x (f64_lit 0 1)"
proof -
  have "f64_code x \<noteq> 0" using assms by (auto simp: f64_whole_def f64_units_def)
  then have "0 < f64_code x" using f64_code_range(1) [of x] by linarith
  moreover have "f64_key (f64_lit 0 1) = 0" by (simp add: f64_lit_def f64_key_def)
  ultimately show ?thesis using assms by (simp add: f64_le_def f64_key_def f64_whole_def)
qed

end
