(* ===== verification/Signal.thy ===== *)
theory Signal
  imports Float64
begin

text \<open>
  Signal synthesis of \<open>helic-core\<close>: the phase accumulator (\<open>phase.rs\<close>), the interpolated sine
  table (\<open>lut.rs\<close>), Fourier coefficients (\<open>generator.rs\<close>), the shared harmonic frame
  (\<open>harmonics.rs\<close>) and the coefficient estimator (\<open>fourier.rs\<close>). A \<open>[f32; H]\<close> array is a list of
  length \<open>H\<close>. The third-party routines \<open>libm::sinf\<close> and \<open>libm::sqrtf\<close> are parameters.
\<close>

subsection \<open>Phase accumulator (phase.rs)\<close>

record PhaseAccumulator =
  pa_phase :: u32
  pa_increment :: u32

definition phase_new :: PhaseAccumulator where
  "phase_new = \<lparr>pa_phase = 0, pa_increment = 0\<rparr>"

definition increment_for :: "f64 \<Rightarrow> f64 \<Rightarrow> u32" where
  "increment_for f0 fs =
     f64_to_u32 (f64_add (f64_mul (f64_div f0 fs) (f64_lit 4294967296 1)) (f64_lit 1 2))"

definition phase_set_frequency :: "f64 \<Rightarrow> f64 \<Rightarrow> PhaseAccumulator \<Rightarrow> PhaseAccumulator" where
  "phase_set_frequency f0 fs p = p\<lparr>pa_increment := increment_for f0 fs\<rparr>"

definition phase_set_increment :: "u32 \<Rightarrow> PhaseAccumulator \<Rightarrow> PhaseAccumulator" where
  "phase_set_increment increment p = p\<lparr>pa_increment := increment\<rparr>"

definition phase_step :: "PhaseAccumulator \<Rightarrow> PhaseAccumulator \<times> u32 \<times> bool" where
  "phase_step p =
     (let (phase, wrapped) = overflowing_add (pa_phase p) (pa_increment p)
      in (p\<lparr>pa_phase := phase\<rparr>, phase, wrapped))"

definition phase_harmonic :: "PhaseAccumulator \<Rightarrow> u32 \<Rightarrow> u32" where
  "phase_harmonic p k = k * pa_phase p"

definition phase_reset :: "PhaseAccumulator \<Rightarrow> PhaseAccumulator" where
  "phase_reset p = p\<lparr>pa_phase := 0\<rparr>"

subsection \<open>Sine table (lut.rs)\<close>

definition LUT_BITS :: nat where "LUT_BITS = 10"
definition LUT_SIZE :: nat where "LUT_SIZE = 2 ^ LUT_BITS"
definition FRAC_BITS :: nat where "FRAC_BITS = 32 - LUT_BITS"
definition FRAC_SCALE :: f32 where "FRAC_SCALE = f32_div f32_1 (f32_of_word (push_bit 22 (1 :: u32)))"

text \<open>\<open>core::f32::consts::TAU\<close>.\<close>

definition F32_TAU :: f32 where "F32_TAU = from_bits 0x40C90FDB"

record SinLut =
  lut_table :: "f32 list"

definition lut_new :: "(f32 \<Rightarrow> f32) \<Rightarrow> SinLut" where
  "lut_new sinf =
     (let scale = f32_div F32_TAU (f32_of_int (int LUT_SIZE));
          table = map (\<lambda>i. sinf (f32_mul (f32_of_int (int i)) scale)) [0..<LUT_SIZE + 1]
      in \<lparr>lut_table = table[LUT_SIZE := table ! 0]\<rparr>)"

definition lut_index :: "u32 \<Rightarrow> nat" where
  "lut_index phase = unat (drop_bit FRAC_BITS phase)"

definition lut_sin :: "SinLut \<Rightarrow> u32 \<Rightarrow> f32" where
  "lut_sin lut phase =
     (let idx = lut_index phase;
          frac = f32_mul (f32_of_word (phase AND (push_bit FRAC_BITS 1 - 1))) FRAC_SCALE;
          a = lut_table lut ! idx;
          b = lut_table lut ! (idx + 1)
      in f32_add a (f32_mul (f32_sub b a) frac))"

definition lut_cos :: "SinLut \<Rightarrow> u32 \<Rightarrow> f32" where
  "lut_cos lut phase = lut_sin lut (phase + push_bit 30 1)"

subsection \<open>Fourier coefficients (generator.rs)\<close>

record FourierCoeffs =
  fc_mean :: f32
  fc_a :: "f32 list"
  fc_b :: "f32 list"

definition coeffs_zero :: "nat \<Rightarrow> FourierCoeffs" where
  "coeffs_zero K = \<lparr>fc_mean = f32_0, fc_a = replicate K f32_0, fc_b = replicate K f32_0\<rparr>"

definition coeffs_evaluate :: "FourierCoeffs \<Rightarrow> SinLut \<Rightarrow> u32 \<Rightarrow> f32" where
  "coeffs_evaluate c lut phase =
     foldl (\<lambda>sum k.
         let phase_k = (of_nat k + 1) * phase
         in f32_add sum (f32_add (f32_mul (fc_a c ! k) (lut_cos lut phase_k))
                                 (f32_mul (fc_b c ! k) (lut_sin lut phase_k))))
       (fc_mean c) [0..<length (fc_a c)]"

definition amplitude_bound :: "(f32 \<Rightarrow> f32) \<Rightarrow> FourierCoeffs \<Rightarrow> f32" where
  "amplitude_bound sqrtf c =
     foldl (\<lambda>sum k.
         f32_add sum (sqrtf (f32_add (f32_mul (fc_a c ! k) (fc_a c ! k))
                                     (f32_mul (fc_b c ! k) (fc_b c ! k)))))
       (if f32_lt (fc_mean c) f32_0 then f32_neg (fc_mean c) else fc_mean c)
       [0..<length (fc_a c)]"

subsection \<open>Harmonic frames (harmonics.rs)\<close>

record HarmonicFrame =
  hf_phase :: u32
  hf_period_start :: bool
  hf_cos :: "f32 list"
  hf_sin :: "f32 list"

definition frame_zero :: "nat \<Rightarrow> HarmonicFrame" where
  "frame_zero H =
     \<lparr>hf_phase = 0, hf_period_start = False, hf_cos = replicate H f32_0, hf_sin = replicate H f32_0\<rparr>"

definition frame_phase_turns :: "HarmonicFrame \<Rightarrow> f32" where
  "frame_phase_turns fr = f32_mul (f32_of_word (hf_phase fr)) (f32_div f32_1 (f32_lit 4294967296 1))"

definition frame_project :: "HarmonicFrame \<Rightarrow> FourierCoeffs \<Rightarrow> f32" where
  "frame_project fr c =
     foldl (\<lambda>value harmonic.
         f32_add value (f32_add (f32_mul (fc_a c ! harmonic) (hf_cos fr ! harmonic))
                                (f32_mul (fc_b c ! harmonic) (hf_sin fr ! harmonic))))
       (fc_mean c) [0..<length (hf_cos fr)]"

record HarmonicGenerator =
  hg_phase :: PhaseAccumulator
  hg_frame :: HarmonicFrame

definition generator_new :: "nat \<Rightarrow> HarmonicGenerator" where
  "generator_new H = \<lparr>hg_phase = phase_new, hg_frame = frame_zero H\<rparr>"

definition generator_set_increment :: "u32 \<Rightarrow> HarmonicGenerator \<Rightarrow> HarmonicGenerator" where
  "generator_set_increment increment g = g\<lparr>hg_phase := phase_set_increment increment (hg_phase g)\<rparr>"

definition generator_increment :: "HarmonicGenerator \<Rightarrow> u32" where
  "generator_increment g = pa_increment (hg_phase g)"

definition generator_step :: "SinLut \<Rightarrow> HarmonicGenerator \<Rightarrow> HarmonicGenerator" where
  "generator_step lut g =
     (let (acc, phase, period_start) = phase_step (hg_phase g);
          harmonics = [0..<length (hf_cos (hg_frame g))]
      in g\<lparr>hg_phase := acc,
           hg_frame :=
             \<lparr>hf_phase = phase, hf_period_start = period_start,
              hf_cos = map (\<lambda>h. lut_cos lut ((of_nat h + 1) * phase)) harmonics,
              hf_sin = map (\<lambda>h. lut_sin lut ((of_nat h + 1) * phase)) harmonics\<rparr>\<rparr>)"

subsection \<open>Fourier estimation (fourier.rs)\<close>

record FourierEstimator =
  fe_estimate :: FourierCoeffs
  fe_alpha :: f32

definition estimator_alpha :: "f32 \<Rightarrow> f32 \<Rightarrow> f32" where
  "estimator_alpha tau fs = f32_div f32_1 (f32_add (f32_mul tau fs) f32_1)"

definition estimator_new :: "nat \<Rightarrow> f32 \<Rightarrow> f32 \<Rightarrow> FourierEstimator" where
  "estimator_new K tau fs = \<lparr>fe_estimate = coeffs_zero K, fe_alpha = estimator_alpha tau fs\<rparr>"

definition estimator_set_time_constant :: "f32 \<Rightarrow> f32 \<Rightarrow> FourierEstimator \<Rightarrow> FourierEstimator" where
  "estimator_set_time_constant tau fs e = e\<lparr>fe_alpha := estimator_alpha tau fs\<rparr>"

definition estimator_reset :: "FourierEstimator \<Rightarrow> FourierEstimator" where
  "estimator_reset e = e\<lparr>fe_estimate := coeffs_zero (length (fc_a (fe_estimate e)))\<rparr>"

definition estimator_update :: "SinLut \<Rightarrow> f32 \<Rightarrow> u32 \<Rightarrow> FourierEstimator \<Rightarrow> FourierEstimator" where
  "estimator_update lut signal phase e =
     (let c = fe_estimate e;
          smooth = (\<lambda>old new. f32_add old (f32_mul (fe_alpha e) (f32_sub new old)));
          ks = [0..<length (fc_a c)];
          phase_k = (\<lambda>k. (of_nat k + 1) * phase);
          demod = (\<lambda>basis. f32_mul (f32_mul (f32_lit 2 1) signal) basis)
      in e\<lparr>fe_estimate :=
             \<lparr>fc_mean = smooth (fc_mean c) signal,
              fc_a = map (\<lambda>k. smooth (fc_a c ! k) (demod (lut_cos lut (phase_k k)))) ks,
              fc_b = map (\<lambda>k. smooth (fc_b c ! k) (demod (lut_sin lut (phase_k k)))) ks\<rparr>\<rparr>)"

subsection \<open>Phase arithmetic is exact\<close>

text \<open>\<open>n\<close> samples of an accumulator, counting the period starts it reported.\<close>

fun phase_run :: "nat \<Rightarrow> PhaseAccumulator \<Rightarrow> PhaseAccumulator \<times> nat" where
  "phase_run 0 p = (p, 0)"
| "phase_run (Suc n) p =
     (let (p', wraps) = phase_run n p; (p'', _, wrapped) = phase_step p'
      in (p'', wraps + (if wrapped then 1 else 0)))"

lemma phase_step_increment [simp]: "pa_increment (fst (phase_step p)) = pa_increment p"
  by (simp add: phase_step_def overflowing_add_def)

lemma phase_step_wrap:
  assumes "phase_step p = (p', phase, wrapped)"
  shows "unat (pa_phase p') + (if wrapped then 2 ^ 32 else 0) = unat (pa_phase p) + unat (pa_increment p)"
    "phase = pa_phase p'" "pa_increment p' = pa_increment p"
proof -
  let ?a = "pa_phase p" and ?b = "pa_increment p"
  have p': "pa_phase p' = ?a + ?b" "phase = ?a + ?b" "pa_increment p' = ?b"
    "wrapped \<longleftrightarrow> 2 ^ 32 \<le> unat ?a + unat ?b"
    using assms overflowing_add_unat [of ?a ?b]
    by (auto simp: phase_step_def overflowing_add_def)
  have b: "unat ?a < 2 ^ 32" "unat ?b < 2 ^ 32"
    using unsigned_less [of ?a] unsigned_less [of ?b] by simp_all
  have u: "unat (?a + ?b) = (unat ?a + unat ?b) mod 2 ^ 32" by (simp add: unat_word_ariths)
  show "unat (pa_phase p') + (if wrapped then 2 ^ 32 else 0) = unat ?a + unat ?b"
  proof (cases wrapped)
    case True
    then have ge: "2 ^ 32 \<le> unat ?a + unat ?b" using p' by simp
    have "(unat ?a + unat ?b) mod 2 ^ 32 = (unat ?a + unat ?b - 2 ^ 32) mod 2 ^ 32"
      by (rule le_mod_geq [OF ge])
    also have "\<dots> = unat ?a + unat ?b - 2 ^ 32" using b by (intro mod_less) linarith
    finally show ?thesis using True ge u p'(1) by simp
  next
    case False
    then have "unat ?a + unat ?b < 2 ^ 32" using p' by simp
    then show ?thesis using False u p'(1) by simp
  qed
  show "phase = pa_phase p'" "pa_increment p' = ?b" using p' by simp_all
qed

lemma phase_run_sum:
  "phase_run n p = (p', wraps) \<Longrightarrow>
   pa_increment p' = pa_increment p \<and>
   unat (pa_phase p') + wraps * 2 ^ 32 = unat (pa_phase p) + n * unat (pa_increment p)"
proof (induction n arbitrary: p' wraps)
  case 0
  then show ?case by simp
next
  case (Suc n)
  obtain q w where q: "phase_run n p = (q, w)" by (cases "phase_run n p")
  obtain q' ph wr where q': "phase_step q = (q', ph, wr)" by (cases "phase_step q")
  have "p' = q'" "wraps = w + (if wr then 1 else 0)"
    using Suc.prems q q' by auto
  with Suc.IH [OF q] phase_step_wrap [OF q'] show ?case by (simp split: if_splits)
qed

text \<open>
  After any number of samples the accumulator is at exactly \<open>phase0 + n * increment\<close> modulo
  \<open>2^32\<close>, the period-start flag was raised exactly once per period completed, and every harmonic is at
  exactly \<open>k\<close> times that phase, so harmonics never drift from the fundamental.
\<close>

theorem phase_run_exact:
  "(case phase_run n p of (p', wraps) \<Rightarrow>
      unat (pa_phase p') = (unat (pa_phase p) + n * unat (pa_increment p)) mod 2 ^ 32
    \<and> wraps = (unat (pa_phase p) + n * unat (pa_increment p)) div 2 ^ 32
    \<and> unat (phase_harmonic p' k)
        = (unat k * (unat (pa_phase p) + n * unat (pa_increment p))) mod 2 ^ 32)"
proof -
  obtain p' wraps where r: "phase_run n p = (p', wraps)" by (cases "phase_run n p")
  let ?t = "unat (pa_phase p) + n * unat (pa_increment p)"
  have t: "?t = unat (pa_phase p') + wraps * 2 ^ 32" using phase_run_sum [OF r] by simp
  have b: "unat (pa_phase p') < 2 ^ 32" using unsigned_less [of "pa_phase p'"] by simp
  have m: "unat (pa_phase p') = ?t mod 2 ^ 32" unfolding t using b by simp
  moreover have "wraps = ?t div 2 ^ 32" unfolding t using b by simp
  moreover have "unat (phase_harmonic p' k) = (unat k * ?t) mod 2 ^ 32"
    unfolding phase_harmonic_def by (simp add: unat_word_ariths m mod_mult_right_eq)
  ultimately show ?thesis using r by simp
qed

subsection \<open>The sine table is only read inside its bounds\<close>

lemma lut_index_div: "lut_index phase = unat phase div 2 ^ 22"
  by (simp add: lut_index_def FRAC_BITS_def LUT_BITS_def drop_bit_eq_div unat_div)

lemma lut_index_bound: "lut_index phase < LUT_SIZE"
proof -
  have "unat phase < 2 ^ 32" using unsigned_less [of phase] by simp
  then show ?thesis by (simp add: lut_index_div LUT_SIZE_def LUT_BITS_def)
qed

lemma length_lut_new [simp]: "length (lut_table (lut_new sinf)) = LUT_SIZE + 1"
  by (simp add: lut_new_def Let_def)

lemma lut_new_periodic: "lut_table (lut_new sinf) ! LUT_SIZE = lut_table (lut_new sinf) ! 0"
  by (simp add: lut_new_def Let_def LUT_SIZE_def LUT_BITS_def)

text \<open>
  For every phase the two table reads of \<open>sin\<close> (and so of \<open>cos\<close>) are inside the table that
  \<open>SinLut::new\<close> builds, so they cannot panic; the read index is the phase's top ten bits, and the
  duplicated last entry equals the first, which is what interpolation across the period end reads.
\<close>

theorem lut_reads_in_bounds:
  "lut_index phase + 1 < length (lut_table (lut_new sinf))
    \<and> lut_index phase = unat phase div 2 ^ 22
    \<and> lut_table (lut_new sinf) ! LUT_SIZE = lut_table (lut_new sinf) ! 0"
  using lut_index_bound [of phase] lut_new_periodic lut_index_div by simp

subsection \<open>The harmonic frame computes the Fourier series\<close>

lemma generator_step_frame:
  assumes "H = length (hf_cos (hg_frame g))"
  shows "length (hf_cos (hg_frame (generator_step lut g))) = H"
    "length (hf_sin (hg_frame (generator_step lut g))) = H"
    "hf_phase (hg_frame (generator_step lut g)) = pa_phase (hg_phase g) + pa_increment (hg_phase g)"
    "pa_phase (hg_phase (generator_step lut g)) = hf_phase (hg_frame (generator_step lut g))"
    "generator_increment (generator_step lut g) = generator_increment g"
  using assms
  by (simp_all add: generator_step_def Let_def phase_step_def overflowing_add_def generator_increment_def)

lemma foldl_cong_set:
  "(\<And>acc k. k \<in> set ks \<Longrightarrow> f acc k = g acc k) \<Longrightarrow> foldl f acc ks = foldl g acc ks"
  by (rule foldl_cong) auto

lemma generator_project_evaluate:
  assumes "length (fc_a c) = length (hf_cos (hg_frame g))"
  shows "frame_project (hg_frame (generator_step lut g)) c
    = coeffs_evaluate c lut (pa_phase (hg_phase g) + pa_increment (hg_phase g))"
  using assms generator_step_frame(1) [OF refl, of lut g]
  unfolding frame_project_def coeffs_evaluate_def
  by (auto intro!: foldl_cong_set
      simp: generator_step_def Let_def phase_step_def overflowing_add_def)

text \<open>
  Projecting coefficients onto the shared harmonic frame of a sample gives, bit for bit, the
  value of \<open>FourierCoeffs::evaluate\<close> at the phase reached by that sample, so all signals projected
  from one frame are phase-coherent; the step keeps the frame's harmonic count.
\<close>

theorem harmonic_frame_coherent:
  assumes "length (fc_a c) = length (hf_cos (hg_frame g))"
  shows "frame_project (hg_frame (generator_step lut g)) c
      = coeffs_evaluate c lut (fst (snd (phase_step (hg_phase g))))
    \<and> hf_period_start (hg_frame (generator_step lut g)) = snd (snd (phase_step (hg_phase g)))
    \<and> length (hf_cos (hg_frame (generator_step lut g))) = length (hf_cos (hg_frame g))"
  using generator_project_evaluate [OF assms, of lut] generator_step_frame(1) [OF refl, of lut g]
  by (simp add: phase_step_def overflowing_add_def) (simp add: generator_step_def Let_def
      phase_step_def overflowing_add_def)

theorem harmonic_frame_coherent_witness:
  "frame_project (hg_frame (generator_step (lut_new (\<lambda>x. x)) (generator_new 3))) (coeffs_zero 3)
    = coeffs_evaluate (coeffs_zero 3) (lut_new (\<lambda>x. x)) 0"
  using harmonic_frame_coherent [of "coeffs_zero 3" "generator_new 3" "lut_new (\<lambda>x. x)"]
  by (simp add: coeffs_zero_def generator_new_def frame_zero_def phase_step_def phase_new_def
      overflowing_add_def)

end
