(* ===== verification/Pll.thy ===== *)
theory Pll
  imports Signal
begin

text \<open>
  The phase-locked loop of \<open>helic-core/src/pll.rs\<close>: demodulation of excitation and response against
  the harmonic frame, correction of the commanded phase increment inside its bounds, and the state
  machine Fixed, Acquiring, Locked, LockLost. Functions that contain an assertion, a \<open>clamp\<close> or an
  unbounded loop return an option, \<open>None\<close> for the panic or for running out of the loop's fuel; the
  lemmas show that \<open>None\<close> does not happen for a loop built by \<open>Pll::new\<close>.
\<close>

subsection \<open>Constants and numeric helpers\<close>

definition F32_PI :: f32 where "F32_PI = from_bits 0x40490FDB"
definition F32_FRAC_PI_2 :: f32 where "F32_FRAC_PI_2 = from_bits 0x3FC90FDB"
definition F32_FRAC_PI_4 :: f32 where "F32_FRAC_PI_4 = from_bits 0x3F490FDB"
definition RAD_TO_DEG :: f32 where "RAD_TO_DEG = f32_div (f32_lit 180 1) F32_PI"
definition PLL_WARMUP_TIME_CONSTANTS :: f32 where "PLL_WARMUP_TIME_CONSTANTS = f32_lit 5 1"

definition non_negative_finite :: "f32 \<Rightarrow> bool" where
  "non_negative_finite value \<longleftrightarrow> f32_le f32_0 value \<and> is_finite value"

definition positive_finite :: "f32 \<Rightarrow> bool" where
  "positive_finite value \<longleftrightarrow> f32_lt f32_0 value \<and> is_finite value"

definition valid_dt :: "f32 \<Rightarrow> bool" where
  "valid_dt dt_s \<longleftrightarrow> is_finite dt_s \<and> f32_lt f32_0 dt_s"

definition valid_phase_degrees :: "f32 \<Rightarrow> bool" where
  "valid_phase_degrees degrees \<longleftrightarrow>
     f32_le (f32_lit (- 180) 1) degrees \<and> f32_lt degrees (f32_lit 180 1) \<and> is_finite degrees"

definition square :: "f32 \<Rightarrow> f32" where
  "square value = f32_mul value value"

fun sqrtf_newton :: "nat \<Rightarrow> f32 \<Rightarrow> f32 \<Rightarrow> f32" where
  "sqrtf_newton 0 value estimate = estimate"
| "sqrtf_newton (Suc n) value estimate =
     sqrtf_newton n value
       (f32_mul (f32_lit 1 2) (f32_add estimate (f32_div value estimate)))"

definition sqrtf_rt :: "f32 \<Rightarrow> f32" where
  "sqrtf_rt value =
     (if f32_le value f32_0 then f32_0
      else sqrtf_newton 4 value (from_bits (drop_bit 1 (to_bits value) + 0x1fc00000)))"

definition signed_difference :: "u32 \<Rightarrow> u32 \<Rightarrow> f32" where
  "signed_difference value centre =
     (if value \<ge> centre then f32_of_word (value - centre)
      else f32_neg (f32_of_word (centre - value)))"

definition add_signed_correction :: "u32 \<Rightarrow> f32 \<Rightarrow> u32 \<Rightarrow> u32 \<Rightarrow> u32" where
  "add_signed_correction centre correction lo hi =
     (if f32_le f32_0 correction
      then min (saturating_add centre (f32_to_u32 (f32_add correction (f32_lit 1 2)))) hi
      else max (saturating_sub centre (f32_to_u32 (f32_add (f32_neg correction) (f32_lit 1 2)))) lo)"

definition wrap_degrees :: "f32 \<Rightarrow> f32" where
  "wrap_degrees degrees =
     (if f32_le (f32_lit 180 1) degrees then f32_sub degrees (f32_lit 360 1)
      else if f32_lt degrees (f32_lit (- 180) 1) then f32_add degrees (f32_lit 360 1)
      else degrees)"

text \<open>The \<open>while modulus >= 360.0\<close> loop, with fuel.\<close>

fun wrap_loop :: "nat \<Rightarrow> f32 \<Rightarrow> f32 \<Rightarrow> f32 option" where
  "wrap_loop 0 degrees modulus = None"
| "wrap_loop (Suc fuel) degrees modulus =
     (if \<not> f32_le (f32_lit 360 1) modulus then Some degrees
      else
        let degrees' =
              (if f32_le modulus (f32_abs degrees)
               then f32_sub degrees
                      (f32_mul (f32_of_int (f32_to_i32 (f32_div degrees modulus))) modulus)
               else degrees)
        in wrap_loop fuel degrees' (f32_mul modulus (f32_lit 1 2)))"

definition WRAP_FUEL :: nat where "WRAP_FUEL = 102"

definition wrap_degrees_full :: "f32 \<Rightarrow> f32 option" where
  "wrap_degrees_full degrees =
     (case (if f32_lt (f32_mul (f32_lit 360 1) (f32_lit 2000000000 1)) (f32_abs degrees)
            then wrap_loop WRAP_FUEL degrees (f32_mul (f32_lit 360 1) (f32_lit (10 ^ 30) 1))
            else Some degrees) of
        None \<Rightarrow> None
      | Some d \<Rightarrow>
          let turns = f32_to_i32 (f32_div d (f32_lit 360 1))
          in Some (wrap_degrees (f32_sub d (f32_mul (f32_of_int turns) (f32_lit 360 1)))))"

definition atan_unit :: "f32 \<Rightarrow> f32" where
  "atan_unit value =
     (let magnitude = f32_abs value
      in f32_sub (f32_mul F32_FRAC_PI_4 value)
           (f32_mul (f32_mul value (f32_sub magnitude f32_1))
              (f32_add (f32_lit 2447 10000) (f32_mul (f32_lit 663 10000) magnitude))))"

definition atan2_degrees :: "f32 \<Rightarrow> f32 \<Rightarrow> f32" where
  "atan2_degrees y x =
     (if f32_eq x f32_0 then
        (if f32_lt f32_0 y then f32_lit 90 1
         else if f32_lt y f32_0 then f32_lit (- 90) 1
         else f32_0)
      else
        let angle =
              (if f32_le (f32_abs y) (f32_abs x) then
                 let base = atan_unit (f32_div y x)
                 in if f32_lt x f32_0 then
                      (if f32_le f32_0 y then f32_add base F32_PI else f32_sub base F32_PI)
                    else base
               else if f32_lt f32_0 y then f32_sub F32_FRAC_PI_2 (atan_unit (f32_div x y))
               else f32_sub (f32_neg F32_FRAC_PI_2) (atan_unit (f32_div x y)))
        in f32_mul angle RAD_TO_DEG)"

subsection \<open>Configuration\<close>

datatype PllState = PllFixed | PllAcquiring | PllLocked | PllLockLost

record PllConfig =
  cf_centre_increment :: u32
  cf_min_increment :: u32
  cf_max_increment :: u32
  cf_proportional_gain :: f32
  cf_integral_gain :: f32
  cf_target_phase_deg :: f32
  cf_delay_s :: f32
  cf_dc_time_constant_s :: f32
  cf_demod_time_constant_s :: f32
  cf_min_excitation_amplitude :: f32
  cf_min_response_amplitude :: f32
  cf_lock_phase_tolerance_deg :: f32
  cf_unlock_phase_tolerance_deg :: f32
  cf_lock_frequency_tolerance :: f32
  cf_lock_dwell_s :: f32
  cf_unlock_dwell_s :: f32
  cf_acquire_timeout_s :: f32
  cf_saturation_dwell_s :: f32

definition pll_config_default :: PllConfig where
  "pll_config_default = \<lparr>cf_centre_increment = 0, cf_min_increment = 0, cf_max_increment = - 1,
     cf_proportional_gain = f32_0, cf_integral_gain = f32_0, cf_target_phase_deg = f32_0,
     cf_delay_s = f32_0, cf_dc_time_constant_s = f32_lit 1 10, cf_demod_time_constant_s = f32_lit 1 10,
     cf_min_excitation_amplitude = f32_0, cf_min_response_amplitude = f32_0,
     cf_lock_phase_tolerance_deg = f32_lit 5 1, cf_unlock_phase_tolerance_deg = f32_lit 10 1,
     cf_lock_frequency_tolerance = from_bits 0x7F7FFFFF, cf_lock_dwell_s = f32_lit 1 10,
     cf_unlock_dwell_s = f32_lit 1 10, cf_acquire_timeout_s = f32_lit 5 1,
     cf_saturation_dwell_s = f32_lit 1 10\<rparr>"

definition pll_config_is_valid :: "PllConfig \<Rightarrow> bool" where
  "pll_config_is_valid c \<longleftrightarrow>
     cf_min_increment c \<le> cf_centre_increment c
     \<and> cf_centre_increment c \<le> cf_max_increment c
     \<and> is_finite (cf_proportional_gain c)
     \<and> is_finite (cf_integral_gain c)
     \<and> valid_phase_degrees (cf_target_phase_deg c)
     \<and> is_finite (cf_delay_s c)
     \<and> positive_finite (cf_dc_time_constant_s c)
     \<and> non_negative_finite (cf_demod_time_constant_s c)
     \<and> non_negative_finite (cf_min_excitation_amplitude c)
     \<and> non_negative_finite (cf_min_response_amplitude c)
     \<and> non_negative_finite (cf_lock_phase_tolerance_deg c)
     \<and> non_negative_finite (cf_unlock_phase_tolerance_deg c)
     \<and> f32_le (cf_lock_phase_tolerance_deg c) (cf_unlock_phase_tolerance_deg c)
     \<and> non_negative_finite (cf_lock_frequency_tolerance c)
     \<and> non_negative_finite (cf_lock_dwell_s c)
     \<and> non_negative_finite (cf_unlock_dwell_s c)
     \<and> non_negative_finite (cf_acquire_timeout_s c)
     \<and> non_negative_finite (cf_saturation_dwell_s c)"

subsection \<open>Demodulation\<close>

record DcEstimator =
  dc_mean :: f32
  dc_initialised :: bool

definition dc_default :: DcEstimator where
  "dc_default = \<lparr>dc_mean = f32_0, dc_initialised = False\<rparr>"

definition dc_remove :: "f32 \<Rightarrow> f32 \<Rightarrow> f32 \<Rightarrow> DcEstimator \<Rightarrow> DcEstimator \<times> f32" where
  "dc_remove sample dt_s time_constant_s d =
     (let d' =
            (if \<not> dc_initialised d then \<lparr>dc_mean = sample, dc_initialised = True\<rparr>
             else
               let beta = f32_div dt_s (f32_add time_constant_s dt_s)
               in d\<lparr>dc_mean := f32_add (dc_mean d) (f32_mul beta (f32_sub sample (dc_mean d)))\<rparr>)
      in (d', f32_sub sample (dc_mean d')))"

record Demodulated =
  de_phase_deg :: f32
  de_excitation_amplitude_sq :: f32
  de_response_amplitude_sq :: f32

record FundamentalDemodulator =
  fd_excitation_dc :: DcEstimator
  fd_response_dc :: DcEstimator
  fd_excitation_cos :: f32
  fd_excitation_sin :: f32
  fd_response_cos :: f32
  fd_response_sin :: f32

definition demod_default :: FundamentalDemodulator where
  "demod_default = \<lparr>fd_excitation_dc = dc_default, fd_response_dc = dc_default,
     fd_excitation_cos = f32_0, fd_excitation_sin = f32_0, fd_response_cos = f32_0,
     fd_response_sin = f32_0\<rparr>"

definition demod_update ::
  "HarmonicFrame \<Rightarrow> f32 \<Rightarrow> f32 \<Rightarrow> f32 \<Rightarrow> f32 \<Rightarrow> f32 \<Rightarrow> FundamentalDemodulator
     \<Rightarrow> FundamentalDemodulator \<times> Demodulated option" where
  "demod_update frame excitation response dt_s dc_time_constant_s demod_time_constant_s d =
     (if \<not> is_finite excitation \<or> \<not> is_finite response \<or> \<not> valid_dt dt_s then (d, None)
      else
        let (edc, ex) = dc_remove excitation dt_s dc_time_constant_s (fd_excitation_dc d);
            (rdc, re) = dc_remove response dt_s dc_time_constant_s (fd_response_dc d);
            alpha = (if f32_eq demod_time_constant_s f32_0 then f32_1
                     else f32_div dt_s (f32_add demod_time_constant_s dt_s));
            cos = hf_cos frame ! 0;
            sin = hf_sin frame ! 0;
            two = f32_lit 2 1;
            track = (\<lambda>old signal basis.
              f32_add old (f32_mul alpha (f32_sub (f32_mul (f32_mul two signal) basis) old)));
            ec = track (fd_excitation_cos d) ex cos;
            es = track (fd_excitation_sin d) ex sin;
            rc = track (fd_response_cos d) re cos;
            rs = track (fd_response_sin d) re sin;
            excitation_phase = atan2_degrees (f32_neg es) ec;
            response_phase = atan2_degrees (f32_neg rs) rc
        in (\<lparr>fd_excitation_dc = edc, fd_response_dc = rdc, fd_excitation_cos = ec,
             fd_excitation_sin = es, fd_response_cos = rc, fd_response_sin = rs\<rparr>,
            Some \<lparr>de_phase_deg = wrap_degrees (f32_sub response_phase excitation_phase),
                  de_excitation_amplitude_sq = f32_add (f32_mul ec ec) (f32_mul es es),
                  de_response_amplitude_sq = f32_add (f32_mul rc rc) (f32_mul rs rs)\<rparr>))"

subsection \<open>The loop\<close>

record Pll =
  pl_state :: PllState
  pl_centre_increment :: u32
  pl_min_increment :: u32
  pl_max_increment :: u32
  pl_commanded_increment :: u32
  pl_proportional_gain :: f32
  pl_integral_gain :: f32
  pl_integral_correction :: f32
  pl_unquantised_correction :: f32
  pl_target_phase_deg :: f32
  pl_delay_s :: f32
  pl_dc_time_constant_s :: f32
  pl_demod_time_constant_s :: f32
  pl_min_excitation_amplitude_sq :: f32
  pl_min_response_amplitude_sq :: f32
  pl_lock_phase_tolerance_deg :: f32
  pl_unlock_phase_tolerance_deg :: f32
  pl_lock_frequency_tolerance :: f32
  pl_lock_dwell_s :: f32
  pl_unlock_dwell_s :: f32
  pl_acquire_timeout_s :: f32
  pl_saturation_dwell_s :: f32
  pl_measured_phase_deg :: f32
  pl_phase_error_deg :: f32
  pl_excitation_amplitude :: f32
  pl_response_amplitude :: f32
  pl_observation_valid :: bool
  pl_saturated :: bool
  pl_warmup_elapsed_s :: f32
  pl_acquire_elapsed_s :: f32
  pl_lock_elapsed_s :: f32
  pl_unlock_elapsed_s :: f32
  pl_saturation_elapsed_s :: f32
  pl_lock_correction_min :: f32
  pl_lock_correction_max :: f32
  pl_demodulator :: FundamentalDemodulator

definition pll_new :: "PllConfig \<Rightarrow> Pll option" where
  "pll_new config =
     (if \<not> pll_config_is_valid config then None
      else Some \<lparr>pl_state = PllFixed,
        pl_centre_increment = cf_centre_increment config,
        pl_min_increment = cf_min_increment config,
        pl_max_increment = cf_max_increment config,
        pl_commanded_increment = cf_centre_increment config,
        pl_proportional_gain = cf_proportional_gain config,
        pl_integral_gain = cf_integral_gain config,
        pl_integral_correction = f32_0,
        pl_unquantised_correction = f32_0,
        pl_target_phase_deg = cf_target_phase_deg config,
        pl_delay_s = cf_delay_s config,
        pl_dc_time_constant_s = cf_dc_time_constant_s config,
        pl_demod_time_constant_s = cf_demod_time_constant_s config,
        pl_min_excitation_amplitude_sq = square (cf_min_excitation_amplitude config),
        pl_min_response_amplitude_sq = square (cf_min_response_amplitude config),
        pl_lock_phase_tolerance_deg = cf_lock_phase_tolerance_deg config,
        pl_unlock_phase_tolerance_deg = cf_unlock_phase_tolerance_deg config,
        pl_lock_frequency_tolerance = cf_lock_frequency_tolerance config,
        pl_lock_dwell_s = cf_lock_dwell_s config,
        pl_unlock_dwell_s = cf_unlock_dwell_s config,
        pl_acquire_timeout_s = cf_acquire_timeout_s config,
        pl_saturation_dwell_s = cf_saturation_dwell_s config,
        pl_measured_phase_deg = f32_nan,
        pl_phase_error_deg = f32_nan,
        pl_excitation_amplitude = f32_nan,
        pl_response_amplitude = f32_nan,
        pl_observation_valid = False,
        pl_saturated = False,
        pl_warmup_elapsed_s = f32_0,
        pl_acquire_elapsed_s = f32_0,
        pl_lock_elapsed_s = f32_0,
        pl_unlock_elapsed_s = f32_0,
        pl_saturation_elapsed_s = f32_0,
        pl_lock_correction_min = f32_0,
        pl_lock_correction_max = f32_0,
        pl_demodulator = demod_default\<rparr>)"

definition pll_clear_qualification :: "Pll \<Rightarrow> Pll" where
  "pll_clear_qualification p = p\<lparr>pl_measured_phase_deg := f32_nan, pl_phase_error_deg := f32_nan,
     pl_excitation_amplitude := f32_nan, pl_response_amplitude := f32_nan,
     pl_observation_valid := False, pl_warmup_elapsed_s := f32_0, pl_acquire_elapsed_s := f32_0,
     pl_lock_elapsed_s := f32_0, pl_unlock_elapsed_s := f32_0, pl_saturation_elapsed_s := f32_0,
     pl_lock_correction_min := pl_unquantised_correction p,
     pl_lock_correction_max := pl_unquantised_correction p\<rparr>"

definition pll_reset_loop :: "bool \<Rightarrow> Pll \<Rightarrow> Pll" where
  "pll_reset_loop reset_demodulator p =
     (let p1 = p\<lparr>pl_commanded_increment := pl_centre_increment p, pl_integral_correction := f32_0,
                 pl_unquantised_correction := f32_0, pl_saturated := False\<rparr>;
          p2 = (if reset_demodulator then p1\<lparr>pl_demodulator := demod_default\<rparr> else p1)
      in pll_clear_qualification p2)"

definition pll_reset :: "Pll \<Rightarrow> Pll" where
  "pll_reset p = (pll_reset_loop True p)\<lparr>pl_state := PllFixed\<rparr>"

definition pll_acquisition_failed :: "Pll \<Rightarrow> Pll" where
  "pll_acquisition_failed p = (pll_reset_loop True p)\<lparr>pl_state := PllFixed\<rparr>"

definition pll_enter_locked :: "Pll \<Rightarrow> Pll" where
  "pll_enter_locked p =
     p\<lparr>pl_state := PllLocked, pl_unlock_elapsed_s := f32_0, pl_saturation_elapsed_s := f32_0\<rparr>"

definition pll_restart_lock_dwell :: "Pll \<Rightarrow> Pll" where
  "pll_restart_lock_dwell p = p\<lparr>pl_lock_elapsed_s := f32_0,
     pl_lock_correction_min := pl_unquantised_correction p,
     pl_lock_correction_max := pl_unquantised_correction p\<rparr>"

definition pll_apply_correction :: "f32 \<Rightarrow> Pll \<Rightarrow> (Pll \<times> bool) option" where
  "pll_apply_correction dt_s p =
     (let integral_increment = f32_mul (f32_mul (pl_integral_gain p) (pl_phase_error_deg p)) dt_s;
          candidate_integral = f32_add (pl_integral_correction p) integral_increment;
          candidate = f32_add (f32_mul (pl_proportional_gain p) (pl_phase_error_deg p)) candidate_integral;
          min_correction = f32_neg (f32_of_word (pl_centre_increment p - pl_min_increment p));
          max_correction = f32_of_word (pl_max_increment p - pl_centre_increment p);
          saturated_high = f32_lt max_correction candidate;
          saturated_low = f32_lt candidate min_correction;
          p1 = (if \<not> (saturated_high \<and> f32_lt f32_0 integral_increment
                       \<or> saturated_low \<and> f32_lt integral_increment f32_0)
                then p\<lparr>pl_integral_correction := candidate_integral\<rparr> else p);
          correction = f32_add (f32_mul (pl_proportional_gain p1) (pl_phase_error_deg p1))
                         (pl_integral_correction p1)
      in case f32_clamp correction min_correction max_correction of
           None \<Rightarrow> None
         | Some unquantised \<Rightarrow>
             Some (p1\<lparr>pl_unquantised_correction := unquantised,
                      pl_commanded_increment :=
                        add_signed_correction (pl_centre_increment p1) unquantised
                          (pl_min_increment p1) (pl_max_increment p1)\<rparr>,
                   saturated_high \<or> saturated_low))"

definition pll_update_acquisition :: "f32 \<Rightarrow> Pll \<Rightarrow> Pll" where
  "pll_update_acquisition dt_s p =
     (let finish = (\<lambda>q. if f32_le (pl_acquire_timeout_s q) (pl_acquire_elapsed_s q)
                        then pll_acquisition_failed q else q)
      in if pl_observation_valid p
            \<and> f32_le (f32_abs (pl_phase_error_deg p)) (pl_lock_phase_tolerance_deg p)
         then
           let p1 = (if f32_eq (pl_lock_elapsed_s p) f32_0
                     then p\<lparr>pl_lock_correction_min := pl_unquantised_correction p,
                            pl_lock_correction_max := pl_unquantised_correction p\<rparr>
                     else p\<lparr>pl_lock_correction_min :=
                              f32_min (pl_lock_correction_min p) (pl_unquantised_correction p),
                            pl_lock_correction_max :=
                              f32_max (pl_lock_correction_max p) (pl_unquantised_correction p)\<rparr>)
           in if f32_le (f32_sub (pl_lock_correction_max p1) (pl_lock_correction_min p1))
                   (pl_lock_frequency_tolerance p1)
              then
                let p2 = p1\<lparr>pl_lock_elapsed_s := f32_add (pl_lock_elapsed_s p1) dt_s\<rparr>
                in if f32_le (pl_lock_dwell_s p2) (pl_lock_elapsed_s p2)
                   then pll_enter_locked p2 else finish p2
              else finish (pll_restart_lock_dwell p1)
         else finish (pll_restart_lock_dwell p))"

definition pll_update_lock :: "f32 \<Rightarrow> Pll \<Rightarrow> Pll" where
  "pll_update_lock dt_s p =
     (let outside_lock = (\<not> pl_observation_valid p
            \<or> f32_lt (pl_unlock_phase_tolerance_deg p) (f32_abs (pl_phase_error_deg p)));
          p1 = p\<lparr>pl_unlock_elapsed_s :=
                   (if outside_lock then f32_add (pl_unlock_elapsed_s p) dt_s else f32_0),
                 pl_saturation_elapsed_s :=
                   (if pl_saturated p then f32_add (pl_saturation_elapsed_s p) dt_s else f32_0)\<rparr>
      in if (outside_lock \<and> f32_le (pl_unlock_dwell_s p1) (pl_unlock_elapsed_s p1))
            \<or> (pl_saturated p1 \<and> f32_le (pl_saturation_dwell_s p1) (pl_saturation_elapsed_s p1))
         then p1\<lparr>pl_state := PllLockLost\<rparr> else p1)"

text \<open>The observation branch: what a qualified observation changes before the state machine runs.\<close>

definition pll_observe :: "Demodulated \<Rightarrow> u32 \<Rightarrow> f32 \<Rightarrow> Pll \<Rightarrow> Pll option" where
  "pll_observe value current_increment dt_s p =
     (let frequency_hz = f32_div (f32_mul (f32_of_word current_increment)
                            (f32_div f32_1 (f32_lit 4294967296 1))) dt_s
      in case wrap_degrees_full (f32_add (de_phase_deg value)
                (f32_mul (f32_mul (f32_lit 360 1) frequency_hz) (pl_delay_s p))) of
           None \<Rightarrow> None
         | Some measured \<Rightarrow>
             let p1 = p\<lparr>pl_measured_phase_deg := measured,
                        pl_phase_error_deg := wrap_degrees (f32_sub measured (pl_target_phase_deg p)),
                        pl_excitation_amplitude := sqrtf_rt (de_excitation_amplitude_sq value),
                        pl_response_amplitude := sqrtf_rt (de_response_amplitude_sq value),
                        pl_observation_valid := True\<rparr>
             in case pll_apply_correction dt_s p1 of
                  None \<Rightarrow> None
                | Some (p2, saturated) \<Rightarrow> Some (p2\<lparr>pl_saturated := saturated\<rparr>))"

definition pll_qualified :: "Pll \<Rightarrow> Demodulated option \<Rightarrow> Demodulated option" where
  "pll_qualified p observation =
     (case observation of
        None \<Rightarrow> None
      | Some value \<Rightarrow>
          if is_finite (de_phase_deg value)
             \<and> f32_le (pl_min_excitation_amplitude_sq p) (de_excitation_amplitude_sq value)
             \<and> f32_le (pl_min_response_amplitude_sq p) (de_response_amplitude_sq value)
          then Some value else None)"

text \<open>The other branch, and the dispatch on the state.\<close>

definition pll_unobserved :: "Pll \<Rightarrow> Pll" where
  "pll_unobserved p = p\<lparr>pl_measured_phase_deg := f32_nan, pl_phase_error_deg := f32_nan,
     pl_excitation_amplitude := f32_nan, pl_response_amplitude := f32_nan, pl_saturated := False\<rparr>"

definition pll_advance :: "f32 \<Rightarrow> Pll \<Rightarrow> Pll" where
  "pll_advance dt_s p =
     (case pl_state p of
        PllAcquiring \<Rightarrow> pll_update_acquisition dt_s p
      | PllLocked \<Rightarrow> pll_update_lock dt_s p
      | _ \<Rightarrow> p)"

definition pll_update_observation :: "Demodulated option \<Rightarrow> u32 \<Rightarrow> f32 \<Rightarrow> Pll \<Rightarrow> (Pll \<times> u32) option" where
  "pll_update_observation observation current_increment dt_s p0 =
     (let p = p0\<lparr>pl_observation_valid := False,
                 pl_warmup_elapsed_s := f32_add (pl_warmup_elapsed_s p0) dt_s\<rparr>;
          warmup_s = f32_mul PLL_WARMUP_TIME_CONSTANTS
                       (f32_max (pl_dc_time_constant_s p) (pl_demod_time_constant_s p))
      in if f32_lt (pl_warmup_elapsed_s p) warmup_s then Some (p, pl_commanded_increment p)
         else
           let p1 = p\<lparr>pl_acquire_elapsed_s := f32_add (pl_acquire_elapsed_s p) dt_s\<rparr>
           in case (case pll_qualified p1 observation of
                      Some value \<Rightarrow> pll_observe value current_increment dt_s p1
                    | None \<Rightarrow> Some (pll_unobserved p1)) of
                None \<Rightarrow> None
              | Some p2 \<Rightarrow>
                  let p3 = pll_advance dt_s p2 in Some (p3, pl_commanded_increment p3))"

definition pll_update ::
  "HarmonicFrame \<Rightarrow> f32 \<Rightarrow> f32 \<Rightarrow> u32 \<Rightarrow> f32 \<Rightarrow> Pll \<Rightarrow> (Pll \<times> u32) option" where
  "pll_update frame excitation response current_increment dt_s p =
     (if hf_cos frame = [] then None
      else if pl_state p = PllFixed \<or> pl_state p = PllLockLost \<or> \<not> valid_dt dt_s
      then Some (p, pl_commanded_increment p)
      else
        let (d, demodulated) =
              demod_update frame excitation response dt_s (pl_dc_time_constant_s p)
                (pl_demod_time_constant_s p) (pl_demodulator p)
        in pll_update_observation demodulated current_increment dt_s (p\<lparr>pl_demodulator := d\<rparr>))"

definition pll_set_enabled :: "bool \<Rightarrow> Pll \<Rightarrow> Pll" where
  "pll_set_enabled enabled p =
     (if \<not> enabled \<and> pl_state p \<noteq> PllLockLost then pll_reset p
      else if pl_state p = PllFixed then (pll_reset_loop True p)\<lparr>pl_state := PllAcquiring\<rparr>
      else p)"

definition pll_reacquire :: "Pll \<Rightarrow> Pll" where
  "pll_reacquire p =
     (if pl_state p = PllFixed \<or> pl_state p = PllLocked
      then
        let integral = signed_difference (pl_commanded_increment p) (pl_centre_increment p);
            p1 = p\<lparr>pl_integral_correction := integral, pl_unquantised_correction := integral\<rparr>
        in (pll_clear_qualification p1)\<lparr>pl_state := PllAcquiring\<rparr>
      else p)"

subsection \<open>Parameter setters\<close>

definition pll_set_centre_increment :: "u32 \<Rightarrow> Pll \<Rightarrow> Pll \<times> bool" where
  "pll_set_centre_increment x p =
     (if \<not> (pl_min_increment p \<le> x \<and> x \<le> pl_max_increment p) then (p, False)
      else
        let p1 = p\<lparr>pl_centre_increment := x\<rparr>
        in (if pl_state p1 = PllFixed
            then p1\<lparr>pl_commanded_increment := x, pl_integral_correction := f32_0,
                    pl_unquantised_correction := f32_0\<rparr>
            else p1, True))"

definition pll_set_target_phase :: "f32 \<Rightarrow> Pll \<Rightarrow> Pll \<times> bool" where
  "pll_set_target_phase x p =
     (if \<not> valid_phase_degrees x then (p, False)
      else
        let p1 = p\<lparr>pl_target_phase_deg := x\<rparr>
        in (if \<not> f32_eq (pl_target_phase_deg p) x then pll_reacquire p1 else p1, True))"

definition pll_set_min_increment :: "u32 \<Rightarrow> Pll \<Rightarrow> Pll \<times> bool" where
  "pll_set_min_increment x p = (if x > pl_centre_increment p then (p, False) else (p\<lparr>pl_min_increment := x, pl_commanded_increment := max (pl_commanded_increment p) x\<rparr>, True))"

definition pll_set_max_increment :: "u32 \<Rightarrow> Pll \<Rightarrow> Pll \<times> bool" where
  "pll_set_max_increment x p = (if x < pl_centre_increment p then (p, False) else (p\<lparr>pl_max_increment := x, pl_commanded_increment := min (pl_commanded_increment p) x\<rparr>, True))"

definition pll_set_proportional_gain :: "f32 \<Rightarrow> Pll \<Rightarrow> Pll \<times> bool" where
  "pll_set_proportional_gain x p = (if \<not> is_finite x then (p, False) else (p\<lparr>pl_proportional_gain := x\<rparr>, True))"

definition pll_set_integral_gain :: "f32 \<Rightarrow> Pll \<Rightarrow> Pll \<times> bool" where
  "pll_set_integral_gain x p = (if \<not> is_finite x then (p, False) else (p\<lparr>pl_integral_gain := x\<rparr>, True))"

definition pll_set_delay :: "f32 \<Rightarrow> Pll \<Rightarrow> Pll \<times> bool" where
  "pll_set_delay x p = (if \<not> is_finite x then (p, False) else (p\<lparr>pl_delay_s := x\<rparr>, True))"

definition pll_set_dc_time_constant :: "f32 \<Rightarrow> Pll \<Rightarrow> Pll \<times> bool" where
  "pll_set_dc_time_constant x p = (if \<not> positive_finite x then (p, False) else (p\<lparr>pl_dc_time_constant_s := x\<rparr>, True))"

definition pll_set_demod_time_constant :: "f32 \<Rightarrow> Pll \<Rightarrow> Pll \<times> bool" where
  "pll_set_demod_time_constant x p = (if \<not> non_negative_finite x then (p, False) else (p\<lparr>pl_demod_time_constant_s := x\<rparr>, True))"

definition pll_set_min_excitation_amplitude :: "f32 \<Rightarrow> Pll \<Rightarrow> Pll \<times> bool" where
  "pll_set_min_excitation_amplitude x p = (if \<not> non_negative_finite x then (p, False) else (p\<lparr>pl_min_excitation_amplitude_sq := square x\<rparr>, True))"

definition pll_set_min_response_amplitude :: "f32 \<Rightarrow> Pll \<Rightarrow> Pll \<times> bool" where
  "pll_set_min_response_amplitude x p = (if \<not> non_negative_finite x then (p, False) else (p\<lparr>pl_min_response_amplitude_sq := square x\<rparr>, True))"

definition pll_set_lock_phase_tolerance :: "f32 \<Rightarrow> Pll \<Rightarrow> Pll \<times> bool" where
  "pll_set_lock_phase_tolerance x p = (if \<not> non_negative_finite x \<or> f32_lt (pl_unlock_phase_tolerance_deg p) x then (p, False) else (p\<lparr>pl_lock_phase_tolerance_deg := x\<rparr>, True))"

definition pll_set_unlock_phase_tolerance :: "f32 \<Rightarrow> Pll \<Rightarrow> Pll \<times> bool" where
  "pll_set_unlock_phase_tolerance x p = (if \<not> non_negative_finite x \<or> f32_lt x (pl_lock_phase_tolerance_deg p) then (p, False) else (p\<lparr>pl_unlock_phase_tolerance_deg := x\<rparr>, True))"

definition pll_set_lock_frequency_tolerance :: "f32 \<Rightarrow> Pll \<Rightarrow> Pll \<times> bool" where
  "pll_set_lock_frequency_tolerance x p = (if \<not> non_negative_finite x then (p, False) else (p\<lparr>pl_lock_frequency_tolerance := x\<rparr>, True))"

definition pll_set_lock_dwell :: "f32 \<Rightarrow> Pll \<Rightarrow> Pll \<times> bool" where
  "pll_set_lock_dwell x p = (if \<not> non_negative_finite x then (p, False) else (p\<lparr>pl_lock_dwell_s := x\<rparr>, True))"

definition pll_set_unlock_dwell :: "f32 \<Rightarrow> Pll \<Rightarrow> Pll \<times> bool" where
  "pll_set_unlock_dwell x p = (if \<not> non_negative_finite x then (p, False) else (p\<lparr>pl_unlock_dwell_s := x\<rparr>, True))"

definition pll_set_acquire_timeout :: "f32 \<Rightarrow> Pll \<Rightarrow> Pll \<times> bool" where
  "pll_set_acquire_timeout x p = (if \<not> non_negative_finite x then (p, False) else (p\<lparr>pl_acquire_timeout_s := x\<rparr>, True))"

definition pll_set_saturation_dwell :: "f32 \<Rightarrow> Pll \<Rightarrow> Pll \<times> bool" where
  "pll_set_saturation_dwell x p = (if \<not> non_negative_finite x then (p, False) else (p\<lparr>pl_saturation_dwell_s := x\<rparr>, True))"

subsection \<open>No panic and no unbounded loop\<close>

fun halvings_end :: "nat \<Rightarrow> f32 \<Rightarrow> bool" where
  "halvings_end 0 modulus = False"
| "halvings_end (Suc fuel) modulus \<longleftrightarrow>
     \<not> f32_le (f32_lit 360 1) modulus \<or> halvings_end fuel (f32_mul modulus (f32_lit 1 2))"

lemma wrap_loop_total: "halvings_end fuel modulus \<Longrightarrow> \<exists>d. wrap_loop fuel degrees modulus = Some d"
  by (induction fuel arbitrary: degrees modulus) (auto simp: Let_def)

lemma units_of_half:
  assumes "2 ^ Suc M \<le> c"
  shows "units_of M c = 2 * units_of M (c - 2 ^ M)"
proof -
  have p: "(0 :: int) < 2 ^ M" by simp
  have c: "2 * 2 ^ M \<le> c" using assms by simp
  have m: "(c - 2 ^ M) mod 2 ^ M = c mod 2 ^ M" by (simp add: mod_diff_right_eq)
  have "((c - 2 ^ M) + 2 ^ M) div 2 ^ M = (c - 2 ^ M) div 2 ^ M + 1" by (rule div_add_self2) simp
  then have d: "(c - 2 ^ M) div 2 ^ M = c div 2 ^ M - 1" by simp
  have "2 \<le> c div 2 ^ M" using zdiv_mono1 [OF c p] by simp
  then have e: "nat (c div 2 ^ M - 1) = Suc (nat (c div 2 ^ M - 1 - 1))" by linarith
  have "\<not> c < 2 ^ M" "\<not> c - 2 ^ M < 2 ^ M" using c p by linarith+
  then show ?thesis by (simp add: units_of_def m d e)
qed

lemma f32_half_facts: "\<not> is_nan (f32_lit 1 2)" "\<not> is_infinite (f32_lit 1 2)" "\<not> f32_sign (f32_lit 1 2)"
  "f32_units (f32_lit 1 2) = 2 ^ 148"
  by code_simp+

lemma f32_half:
  assumes "is_finite x" "\<not> f32_sign x" "2 ^ 24 \<le> f32_code x"
  shows "\<not> f32_sign (f32_mul x (f32_lit 1 2))" "is_finite (f32_mul x (f32_lit 1 2))"
    "f32_code (f32_mul x (f32_lit 1 2)) = f32_code x - 2 ^ 23"
proof -
  let ?c = "f32_code x"
  have c: "0 \<le> ?c" "?c < f32_top" using assms(1) by (simp_all add: is_finite_def)
  have u: "\<bar>f32_units x\<bar> = 2 * units_of 23 (?c - 2 ^ 23)"
    using f32_units_sgn(3) [of x] units_of_half [of 23 ?c] assms(3) by simp
  have "code_of 23 (\<bar>f32_units x\<bar> * \<bar>f32_units (f32_lit 1 2)\<bar>) (2 ^ 149)
      = code_of 23 (units_of 23 (?c - 2 ^ 23)) 1"
    using assms(3) by (intro antisym code_of_mono) (simp_all add: u f32_half_facts units_of_nonneg)
  also have "\<dots> = ?c - 2 ^ 23" using assms(3) by (intro code_of_units_of) simp
  finally have m: "f32_mul x (f32_lit 1 2) = f32_make False (?c - 2 ^ 23)"
    using finite_not [OF assms(1)] assms(2) f32_half_facts by (simp add: f32_mul_def)
  show "\<not> f32_sign (f32_mul x (f32_lit 1 2))" "is_finite (f32_mul x (f32_lit 1 2))"
    "f32_code (f32_mul x (f32_lit 1 2)) = ?c - 2 ^ 23"
    unfolding m using assms(3) c by (simp_all add: is_finite_def)
qed

lemma f32_360: "\<not> is_nan (f32_lit 360 1)" "\<not> f32_sign (f32_lit 360 1)" "f32_code (f32_lit 360 1) = 0x43B40000"
  by code_simp+

lemma halvings_end_bound:
  assumes "is_finite m" "\<not> f32_sign m" "f32_code m < 0x43B40000 + int k * 2 ^ 23"
  shows "halvings_end (Suc k) m"
  using assms
proof (induction k arbitrary: m)
  case 0
  then show ?case using f32_360 by (simp add: f32_le_def f32_key_def)
next
  case (Suc k)
  show ?case
  proof (cases "f32_le (f32_lit 360 1) m")
    case True
    then have "2 ^ 24 \<le> f32_code m" using f32_360 Suc.prems(2) by (simp add: f32_le_def f32_key_def)
    from f32_half [OF Suc.prems(1,2) this] show ?thesis
      using Suc.IH [of "f32_mul m (f32_lit 1 2)"] Suc.prems(3) by simp
  next
    case False
    then show ?thesis by simp
  qed
qed

lemma halvings_end_start: "halvings_end WRAP_FUEL (f32_mul (f32_lit 360 1) (f32_lit (10 ^ 30) 1))"
proof -
  have f: "is_finite (f32_mul (f32_lit 360 1) (f32_lit (10 ^ 30) 1))"
    "\<not> f32_sign (f32_mul (f32_lit 360 1) (f32_lit (10 ^ 30) 1))"
    "f32_code (f32_mul (f32_lit 360 1) (f32_lit (10 ^ 30) 1)) < 0x43B40000 + 101 * 2 ^ 23"
    by code_simp+
  have "halvings_end (Suc 101) (f32_mul (f32_lit 360 1) (f32_lit (10 ^ 30) 1))"
    using f by (intro halvings_end_bound) simp_all
  then show ?thesis by (simp only: WRAP_FUEL_def numeral_eq_Suc pred_numeral_simps) simp
qed

lemma wrap_degrees_full_total: "\<exists>d. wrap_degrees_full degrees = Some d"
  using wrap_loop_total [OF halvings_end_start, of degrees]
  by (auto simp: wrap_degrees_full_def Let_def split: option.splits)

lemma f32_of_word_facts: "\<not> is_nan (f32_of_word w)" "0 \<le> f32_key (f32_of_word w)" "\<not> f32_sign (f32_of_word w)"
proof -
  have nn: "0 \<le> code_of 23 (\<bar>uint w\<bar> * 2 ^ 149) 1" by (rule code_of_nonneg) simp_all
  then show "\<not> is_nan (f32_of_word w)" "0 \<le> f32_key (f32_of_word w)" "\<not> f32_sign (f32_of_word w)"
    by (simp_all add: f32_of_word_def f32_of_int_def f32_lit_def f32_key_make)
qed

lemma f32_code_neg [simp]: "f32_code (f32_neg x) = f32_code x"
proof -
  have "uint (to_bits x XOR 0x80000000) mod 2 ^ 31 = uint (to_bits x) mod 2 ^ 31"
    unfolding take_bit_eq_mod [symmetric] by (simp add: unsigned_xor_eq take_bit_xor)
  then show ?thesis by (simp add: f32_code_def f32_neg_def)
qed

lemma f32_sign_neg [simp]: "f32_sign (f32_neg x) \<longleftrightarrow> \<not> f32_sign x"
proof -
  have "bit (0x80000000 :: u32) 31" by simp
  then show ?thesis unfolding f32_sign_def f32_neg_def f32.sel bit_xor_iff by simp
qed

lemma f32_key_neg: "f32_key (f32_neg x) = - f32_key x"
  by (simp add: f32_key_def)

lemma is_nan_neg [simp]: "is_nan (f32_neg x) = is_nan x"
  by (simp add: is_nan_def)

lemma correction_limits_ordered: "f32_le (f32_neg (f32_of_word a)) (f32_of_word b)"
  using f32_of_word_facts [of a] f32_of_word_facts [of b] by (simp add: f32_le_def f32_key_neg)

lemma pll_apply_correction_total:
  "\<exists>p' sat. pll_apply_correction dt_s p = Some (p', sat)"
  by (simp add: pll_apply_correction_def Let_def f32_clamp_def correction_limits_ordered)

lemma pll_observe_total: "\<exists>p'. pll_observe value inc dt_s p = Some p'"
proof -
  obtain d where d: "wrap_degrees_full (f32_add (de_phase_deg value) (f32_mul (f32_mul (f32_lit 360 1)
      (f32_div (f32_mul (f32_of_word inc) (f32_div f32_1 (f32_lit 4294967296 1))) dt_s)) (pl_delay_s p))) = Some d"
    using wrap_degrees_full_total by blast
  show ?thesis unfolding pll_observe_def Let_def d
    using pll_apply_correction_total by (force split: option.splits prod.splits)
qed

lemma pll_update_observation_total: "\<exists>p' y. pll_update_observation obs inc dt_s p = Some (p', y)"
proof -
  have n: "(pll_observe v inc dt_s q = None) = False" for v q
    using pll_observe_total by (metis option.distinct(1))
  show ?thesis by (simp add: pll_update_observation_def Let_def n split: option.split)
qed

lemma pll_update_total:
  assumes "hf_cos frame \<noteq> []"
  shows "\<exists>p' y. pll_update frame e r inc dt_s p = Some (p', y)"
  using assms pll_update_observation_total by (simp add: pll_update_def split_beta)

subsection \<open>The commanded increment stays inside its bounds\<close>

definition pll_inv :: "Pll \<Rightarrow> bool" where
  "pll_inv p \<longleftrightarrow> pl_min_increment p \<le> pl_centre_increment p \<and> pl_centre_increment p \<le> pl_max_increment p
     \<and> pl_min_increment p \<le> pl_commanded_increment p \<and> pl_commanded_increment p \<le> pl_max_increment p"

lemma saturating_add_ge: "c \<le> saturating_add c k"
  by (auto simp: saturating_add_def not_less)

lemma saturating_sub_le: "saturating_sub c k \<le> c"
  by (auto simp: saturating_sub_def not_less word_sub_le)

lemma add_signed_correction_bounds:
  assumes "lo \<le> c" "c \<le> hi"
  shows "lo \<le> add_signed_correction c x lo hi" "add_signed_correction c x lo hi \<le> hi"
  using assms saturating_add_ge [of c] saturating_sub_le [of c]
  by (auto simp: add_signed_correction_def min_def max_def intro: order_trans)

lemma pll_new_inv: "pll_new config = Some p \<Longrightarrow> pll_inv p \<and> pl_state p = PllFixed"
  by (auto simp: pll_new_def pll_inv_def pll_config_is_valid_def split: if_splits)

lemma pll_reset_loop_inv: "pll_inv p \<Longrightarrow> pll_inv (pll_reset_loop b p)"
  by (simp add: pll_inv_def pll_reset_loop_def pll_clear_qualification_def Let_def)

lemmas pll_bounds_simps = pll_inv_def pll_clear_qualification_def pll_enter_locked_def
  pll_restart_lock_dwell_def pll_acquisition_failed_def pll_reset_def pll_reset_loop_def Let_def

inductive pll_setter :: "(Pll \<Rightarrow> Pll \<times> bool) \<Rightarrow> bool" where
  "pll_setter (pll_set_centre_increment x)"
| "pll_setter (pll_set_min_increment x)"
| "pll_setter (pll_set_max_increment x)"
| "pll_setter (pll_set_proportional_gain x)"
| "pll_setter (pll_set_integral_gain x)"
| "pll_setter (pll_set_target_phase x)"
| "pll_setter (pll_set_delay x)"
| "pll_setter (pll_set_dc_time_constant x)"
| "pll_setter (pll_set_demod_time_constant x)"
| "pll_setter (pll_set_min_excitation_amplitude x)"
| "pll_setter (pll_set_min_response_amplitude x)"
| "pll_setter (pll_set_lock_phase_tolerance x)"
| "pll_setter (pll_set_unlock_phase_tolerance x)"
| "pll_setter (pll_set_lock_frequency_tolerance x)"
| "pll_setter (pll_set_lock_dwell x)"
| "pll_setter (pll_set_unlock_dwell x)"
| "pll_setter (pll_set_acquire_timeout x)"
| "pll_setter (pll_set_saturation_dwell x)"

lemmas pll_setter_defs = pll_set_centre_increment_def pll_set_min_increment_def pll_set_max_increment_def
  pll_set_proportional_gain_def pll_set_integral_gain_def pll_set_target_phase_def
  pll_set_delay_def pll_set_dc_time_constant_def pll_set_demod_time_constant_def
  pll_set_min_excitation_amplitude_def pll_set_min_response_amplitude_def
  pll_set_lock_phase_tolerance_def pll_set_unlock_phase_tolerance_def
  pll_set_lock_frequency_tolerance_def pll_set_lock_dwell_def pll_set_unlock_dwell_def
  pll_set_acquire_timeout_def pll_set_saturation_dwell_def

text \<open>
  What one public operation of the loop may do: an update with any frame, samples and increment,
  enabling or disabling, reacquisition, any parameter setter, and \<open>reset\<close>.
\<close>

inductive pll_op :: "Pll \<Rightarrow> Pll \<Rightarrow> bool" where
  op_update: "pll_update frame e r inc dt_s p = Some (p', y) \<Longrightarrow> pll_op p p'"
| op_enable: "pll_op p (pll_set_enabled b p)"
| op_reacquire: "pll_op p (pll_reacquire p)"
| op_set: "pll_setter f \<Longrightarrow> pll_op p (fst (f p))"

inductive pll_reachable :: "PllConfig \<Rightarrow> Pll \<Rightarrow> bool" for config where
  reach_new: "pll_new config = Some p \<Longrightarrow> pll_reachable config p"
| reach_op: "pll_reachable config p \<Longrightarrow> pll_op p p' \<Longrightarrow> pll_reachable config p'"
| reach_reset: "pll_reachable config p \<Longrightarrow> pll_reachable config (pll_reset p)"

lemma pll_apply_correction_frame:
  assumes "pll_apply_correction dt_s p = Some (p', sat)" "pll_inv p"
  shows "pll_inv p' \<and> pl_state p' = pl_state p"
proof -
  note b = add_signed_correction_bounds [of "pl_min_increment p" "pl_centre_increment p" "pl_max_increment p"]
  show ?thesis
    using assms b by (auto simp: pll_apply_correction_def Let_def pll_inv_def split: option.splits)
qed

lemma pll_observe_frame:
  assumes "pll_observe d inc dt_s p = Some p'" "pll_inv p"
  shows "pll_inv p' \<and> pl_state p' = pl_state p"
proof -
  obtain p1 p2 sat where "pll_apply_correction dt_s p1 = Some (p2, sat)" "p' = p2\<lparr>pl_saturated := sat\<rparr>"
    "pll_inv p1" "pl_state p1 = pl_state p"
    using assms by (auto simp: pll_observe_def Let_def pll_inv_def split: option.splits prod.splits)
  then show ?thesis using pll_apply_correction_frame by (force simp: pll_inv_def)
qed

lemma pll_update_acquisition_frame:
  assumes "pll_inv p" "pl_state p = PllAcquiring"
  shows "pll_inv (pll_update_acquisition dt_s p)"
    "pl_state (pll_update_acquisition dt_s p) \<noteq> PllLockLost"
  using assms by (simp_all add: pll_update_acquisition_def pll_bounds_simps)

lemma pll_update_lock_inv: "pll_inv p \<Longrightarrow> pll_inv (pll_update_lock dt_s p)"
  by (simp add: pll_update_lock_def pll_inv_def Let_def)

lemma pll_advance_frame:
  assumes "pll_inv p"
  shows "pll_inv (pll_advance dt_s p)
    \<and> (pl_state (pll_advance dt_s p) = PllLockLost \<longrightarrow> pl_state p = PllLockLost \<or> pl_state p = PllLocked)"
  using assms pll_update_acquisition_frame [OF assms, of dt_s] pll_update_lock_inv [OF assms, of dt_s]
  by (cases "pl_state p") (simp_all add: pll_advance_def)

lemma pll_update_observation_cases:
  assumes "pll_update_observation obs inc dt_s p = Some (p', y)" "pll_inv p"
  obtains "pll_inv p'" "pl_state p' = pl_state p" "y = pl_commanded_increment p'"
  | p2 where "pll_inv p2" "pl_state p2 = pl_state p" "p' = pll_advance dt_s p2" "y = pl_commanded_increment p'"
proof -
  let ?p = "p\<lparr>pl_observation_valid := False, pl_warmup_elapsed_s := f32_add (pl_warmup_elapsed_s p) dt_s\<rparr>"
  let ?p1 = "?p\<lparr>pl_acquire_elapsed_s := f32_add (pl_acquire_elapsed_s p) dt_s\<rparr>"
  have i: "pll_inv ?p" "pll_inv ?p1" "pll_inv (pll_unobserved ?p1)"
    using assms(2) by (simp_all add: pll_inv_def pll_unobserved_def)
  consider "p' = ?p" "y = pl_commanded_increment p'"
    | "p' = pll_advance dt_s (pll_unobserved ?p1)" "y = pl_commanded_increment p'"
    | v p2 where "pll_observe v inc dt_s ?p1 = Some p2" "p' = pll_advance dt_s p2" "y = pl_commanded_increment p'"
    using assms(1)
    by (auto simp: pll_update_observation_def Let_def split: if_splits option.splits)
  then show ?thesis
  proof cases
    case 1
    then show ?thesis using that(1) i by simp
  next
    case 2
    then show ?thesis using that(2) [OF i(3)] by (simp add: pll_unobserved_def)
  next
    case (3 v p2)
    then show ?thesis using that(2) [of p2] pll_observe_frame [OF 3(1) i(2)] by simp
  qed
qed

lemma pll_update_observation_frame:
  assumes "pll_update_observation obs inc dt_s p = Some (p', y)" "pll_inv p"
  shows "pll_inv p' \<and> y = pl_commanded_increment p'
    \<and> (pl_state p' = PllLockLost \<longrightarrow> pl_state p = PllLockLost \<or> pl_state p = PllLocked)"
  using pll_update_observation_cases [OF assms] pll_advance_frame by metis

lemma pll_update_frame:
  assumes "pll_update fr e r inc dt_s p = Some (p', y)" "pll_inv p"
  shows "pll_inv p' \<and> y = pl_commanded_increment p'
    \<and> (pl_state p' = PllLockLost \<longrightarrow> pl_state p = PllLockLost \<or> pl_state p = PllLocked)
    \<and> (pl_state p = PllLockLost \<longrightarrow> p' = p)"
  using assms pll_update_observation_frame [of _ inc dt_s "p\<lparr>pl_demodulator := d\<rparr>" p' y for d]
  by (auto simp: pll_update_def pll_inv_def split: if_splits prod.splits)

lemma pll_set_frame:
  assumes "pll_setter f" "pll_inv p"
  shows "pll_inv (fst (f p))" "pl_state (fst (f p)) = PllLockLost \<longleftrightarrow> pl_state p = PllLockLost"
  using assms
  by (cases; auto simp: pll_setter_defs pll_inv_def pll_reacquire_def pll_clear_qualification_def Let_def
      max_def min_def)+

lemma pll_op_frame:
  assumes "pll_op p p'" "pll_inv p"
  shows "pll_inv p' \<and> (pl_state p = PllLockLost \<longrightarrow> pl_state p' = PllLockLost)
    \<and> (pl_state p' = PllLockLost \<longrightarrow> pl_state p = PllLockLost \<or> pl_state p = PllLocked)"
  using assms(1)
proof cases
  case (op_update frame e r inc dt_s y)
  then show ?thesis using pll_update_frame [OF op_update assms(2)] by auto
next
  case (op_set f)
  then show ?thesis using pll_set_frame [OF op_set(2) assms(2)] by auto
qed (use assms(2) in \<open>auto simp: pll_set_enabled_def pll_reacquire_def pll_bounds_simps\<close>)

lemma pll_reachable_inv: "pll_reachable config p \<Longrightarrow> pll_inv p"
  by (induction rule: pll_reachable.induct)
    (auto simp: pll_new_inv dest: pll_op_frame, auto simp: pll_bounds_simps)

subsection \<open>Properties of the loop\<close>

text \<open>
  C9: whatever sequence of updates, enables, reacquisitions, resets and parameter writes a loop has
  been through since \<open>Pll::new\<close>, the next update with a frame of at least one harmonic neither
  panics nor fails to terminate, for any samples (NaN included), and the increment it commands is
  within the configured bounds, which still contain the centre: so the subtractions that compute the
  correction range cannot wrap.
\<close>

theorem pll_update_bounded:
  assumes "pll_reachable config p" "hf_cos frame \<noteq> []"
  shows "\<exists>p' y. pll_update frame e r inc dt_s p = Some (p', y)
    \<and> pl_min_increment p' \<le> y \<and> y \<le> pl_max_increment p' \<and> y = pl_commanded_increment p'
    \<and> pl_min_increment p' \<le> pl_centre_increment p' \<and> pl_centre_increment p' \<le> pl_max_increment p'"
proof -
  obtain p' y where u: "pll_update frame e r inc dt_s p = Some (p', y)"
    using pll_update_total [OF assms(2)] by blast
  have "pll_inv p'" "y = pl_commanded_increment p'"
    using pll_update_frame [OF u pll_reachable_inv [OF assms(1)]] by auto
  with u show ?thesis by (auto simp: pll_inv_def)
qed

lemma default_config_valid: "pll_config_is_valid pll_config_default"
proof -
  have "positive_finite (f32_lit 1 10)" "non_negative_finite (f32_lit 1 10)" "is_finite f32_0"
    "valid_phase_degrees f32_0" "non_negative_finite f32_0" "non_negative_finite (f32_lit 5 1)"
    "non_negative_finite (f32_lit 10 1)" "f32_le (f32_lit 5 1) (f32_lit 10 1)"
    "non_negative_finite (from_bits 0x7F7FFFFF)"
    by code_simp+
  then show ?thesis by (simp add: pll_config_is_valid_def pll_config_default_def)
qed

lemma default_pll: "\<exists>p. pll_new pll_config_default = Some p \<and> pll_reachable pll_config_default p
    \<and> pl_state p = PllFixed"
  using default_config_valid pll_reachable.reach_new [of pll_config_default]
  by (simp add: pll_new_def)

theorem pll_update_bounded_witness:
  "\<exists>p p' y. pll_new pll_config_default = Some p
    \<and> pll_update (frame_zero 1) f32_nan f32_1 7 (f32_lit 1 1000) p = Some (p', y)
    \<and> pl_min_increment p' \<le> y"
proof -
  obtain p where p: "pll_new pll_config_default = Some p" "pll_reachable pll_config_default p"
    using default_pll by blast
  have "hf_cos (frame_zero 1) \<noteq> []" by (simp add: frame_zero_def)
  from pll_update_bounded [OF p(2) this] p(1) show ?thesis by blast
qed

text \<open>
  C32: loss of lock is latched. It is entered only from the locked state (a failed acquisition never
  faults), and no sequence of operations other than \<open>reset\<close> leaves it: not updates, not disabling
  and enabling, not reacquisition, not parameter writes.
\<close>

theorem pll_lock_loss_latched:
  assumes "pll_reachable config p" "pll_op\<^sup>*\<^sup>* p p'"
  shows "(pl_state p = PllLockLost \<longrightarrow> pl_state p' = PllLockLost)
    \<and> (\<forall>p''. pll_op p' p'' \<longrightarrow> pl_state p'' = PllLockLost \<longrightarrow>
          pl_state p' = PllLockLost \<or> pl_state p' = PllLocked)
    \<and> pl_state (pll_reset p') = PllFixed"
proof -
  have "pll_inv p' \<and> (pl_state p = PllLockLost \<longrightarrow> pl_state p' = PllLockLost)"
    using assms(2)
  proof induction
    case base
    then show ?case using pll_reachable_inv [OF assms(1)] by simp
  next
    case (step y z)
    then show ?case using pll_op_frame by blast
  qed
  then show ?thesis using pll_op_frame by (auto simp: pll_reset_def)
qed

theorem pll_lock_loss_latched_witness:
  "\<exists>p. pll_reachable pll_config_default p \<and> pll_op\<^sup>*\<^sup>* p (pll_set_enabled True p)
    \<and> pl_state (pll_set_enabled True p) = PllAcquiring \<and> pl_state (pll_reset (pll_set_enabled True p)) = PllFixed"
proof -
  obtain p where p: "pll_reachable pll_config_default p" "pl_state p = PllFixed"
    using default_pll by blast
  have r: "pll_op\<^sup>*\<^sup>* p (pll_set_enabled True p)" by (rule r_into_rtranclp) (rule op_enable)
  have "pl_state (pll_set_enabled True p) = PllAcquiring" using p(2) by (simp add: pll_set_enabled_def)
  with pll_lock_loss_latched [OF p(1) r] p(1) r show ?thesis by blast
qed

text \<open>
  A parameter write that the loop rejects changes nothing at all, and an accepted one preserves
  the order of the two phase tolerances that hysteresis relies on.
\<close>

theorem pll_setters_atomic:
  assumes "pll_setter f"
  shows "(\<not> snd (f p) \<longrightarrow> fst (f p) = p)
    \<and> (f32_le (pl_lock_phase_tolerance_deg p) (pl_unlock_phase_tolerance_deg p) \<longrightarrow>
       f32_le (pl_lock_phase_tolerance_deg (fst (f p))) (pl_unlock_phase_tolerance_deg (fst (f p))))"
  using assms
  by cases (auto simp: pll_setter_defs pll_reacquire_def pll_clear_qualification_def Let_def
      non_negative_finite_def f32_le_def f32_lt_def)

theorem pll_setters_atomic_witness:
  "\<exists>p. pll_new pll_config_default = Some p \<and> \<not> snd (pll_set_lock_dwell f32_nan p)
    \<and> fst (pll_set_lock_dwell f32_nan p) = p"
proof -
  obtain p where p: "pll_new pll_config_default = Some p" using default_pll by blast
  have "\<not> non_negative_finite f32_nan" by code_simp
  then have "\<not> snd (pll_set_lock_dwell f32_nan p)" by (simp add: pll_set_lock_dwell_def)
  with pll_setters_atomic [OF pll_setter.intros(15), of f32_nan p] p show ?thesis by blast
qed

end
