(* ===== verification/Double_Buffer.thy ===== *)
theory Double_Buffer
  imports Prelude
begin

text \<open>
  The owner-checked cross-core double buffer of \<open>helic-core/src/table_buffer.rs\<close>. First the
  operations of the two endpoints as they run on their own (\<open>Staging\<close> on core 0, \<open>Active\<close> on core
  1), then the interleaving of the two cores, one atomic access per step. \<open>UnsafeCell\<close> banks are a
  two-element list and the address that \<open>identity\<close> returns is the field \<open>db_identity\<close>. The steps
  are interleaved sequentially consistently; the Acquire/Release orderings of the code are what
  makes that the right picture of the two cores.
\<close>

definition NO_PENDING :: u8 where "NO_PENDING = 0"

datatype BufferError = BufferBusy

record CommitToken =
  ct_owner :: nat
  ct_bank :: u8

record 'a DoubleBuffer =
  db_banks :: "'a list"
  db_active :: u8
  db_pending :: u8
  db_identity :: nat

definition from_banks :: "nat \<Rightarrow> 'a \<Rightarrow> 'a \<Rightarrow> 'a DoubleBuffer" where
  "from_banks addr first second =
     \<lparr>db_banks = [first, second], db_active = 0, db_pending = NO_PENDING, db_identity = addr\<rparr>"

text \<open>\<open>Active\<close> holds its cached bank; \<open>Staging\<close> holds nothing but the reference.\<close>

record Active =
  ac_current :: u8

definition split_active :: Active where "split_active = \<lparr>ac_current = 0\<rparr>"

definition staging_buffer :: "'a DoubleBuffer \<Rightarrow> BufferError + nat" where
  "staging_buffer buf =
     (if db_pending buf \<noteq> NO_PENDING then Inl BufferBusy
      else Inr (unat (db_active buf XOR 1)))"

text \<open>A write through the borrow that \<open>staging_buffer\<close> returned.\<close>

definition write_bank :: "nat \<Rightarrow> ('a \<Rightarrow> 'a) \<Rightarrow> 'a DoubleBuffer \<Rightarrow> 'a DoubleBuffer" where
  "write_bank bank f buf = buf\<lparr>db_banks := (db_banks buf)[bank := f (db_banks buf ! bank)]\<rparr>"

definition commit :: "'a DoubleBuffer \<Rightarrow> BufferError + ('a DoubleBuffer \<times> CommitToken)" where
  "commit buf =
     (if db_pending buf \<noteq> NO_PENDING then Inl BufferBusy
      else
        let bank = db_active buf XOR 1
        in Inr (buf\<lparr>db_pending := bank + 1\<rparr>, \<lparr>ct_owner = db_identity buf, ct_bank = bank\<rparr>))"

definition cancel :: "CommitToken \<Rightarrow> 'a DoubleBuffer \<Rightarrow> 'a DoubleBuffer" where
  "cancel token buf =
     (if ct_owner token = db_identity buf then buf\<lparr>db_pending := NO_PENDING\<rparr> else buf)"

definition active_get :: "'a DoubleBuffer \<Rightarrow> Active \<Rightarrow> 'a" where
  "active_get buf a = db_banks buf ! unat (ac_current a)"

definition activate :: "CommitToken \<Rightarrow> 'a DoubleBuffer \<times> Active \<Rightarrow> 'a DoubleBuffer \<times> Active" where
  "activate token s =
     (let (buf, a) = s
      in if ct_owner token \<noteq> db_identity buf then s
         else
           let pending = db_pending buf
           in if pending = NO_PENDING \<or> pending - 1 \<noteq> ct_bank token then s
              else (buf\<lparr>db_active := pending - 1, db_pending := NO_PENDING\<rparr>,
                    a\<lparr>ac_current := pending - 1\<rparr>))"

subsection \<open>The endpoints one after the other\<close>

definition is_bank :: "u8 \<Rightarrow> bool" where "is_bank b \<longleftrightarrow> b = 0 \<or> b = 1"

definition buffer_inv :: "'a DoubleBuffer \<Rightarrow> Active \<Rightarrow> bool" where
  "buffer_inv buf a \<longleftrightarrow> length (db_banks buf) = 2 \<and> is_bank (db_active buf)
     \<and> ac_current a = db_active buf
     \<and> (db_pending buf = NO_PENDING \<or> db_pending buf = (db_active buf XOR 1) + 1)"

lemma is_bank_flip: "is_bank b \<Longrightarrow> is_bank (b XOR 1) \<and> b XOR 1 \<noteq> b \<and> (b XOR 1) + 1 \<noteq> 0
    \<and> unat (b XOR 1) < 2 \<and> unat b < 2 \<and> (b XOR 1) XOR 1 = b \<and> b + 1 \<noteq> 0 \<and> unat (b XOR 1) \<noteq> unat b"
  by (auto simp: is_bank_def)

lemma from_banks_inv: "buffer_inv (from_banks addr x y) split_active"
  by (simp add: buffer_inv_def from_banks_def split_active_def is_bank_def)

lemma staging_buffer_not_active:
  assumes "buffer_inv buf a" "staging_buffer buf = Inr bank"
  shows "bank < 2" "bank \<noteq> unat (ac_current a)"
  using assms is_bank_flip [of "db_active buf"]
  by (auto simp: staging_buffer_def buffer_inv_def split: if_splits)

lemma write_bank_inv: "buffer_inv buf a \<Longrightarrow> buffer_inv (write_bank bank f buf) a"
  by (simp add: buffer_inv_def write_bank_def)

lemma commit_inv: "buffer_inv buf a \<Longrightarrow> commit buf = Inr (buf', t) \<Longrightarrow> buffer_inv buf' a"
  by (auto simp: buffer_inv_def commit_def Let_def split: if_splits)

lemma cancel_inv: "buffer_inv buf a \<Longrightarrow> buffer_inv (cancel t buf) a"
  by (simp add: buffer_inv_def cancel_def)

lemma activate_inv:
  "buffer_inv buf a \<Longrightarrow> activate t (buf, a) = (buf', a') \<Longrightarrow> buffer_inv buf' a'"
  using is_bank_flip [of "db_active buf"]
  by (auto simp: buffer_inv_def activate_def Let_def split: if_splits)

lemma stage_commit_activate:
  assumes "buffer_inv buf a" "staging_buffer buf = Inr bank"
    and "commit (write_bank bank f buf) = Inr (buf', t)" "activate t (buf', a) = (buf'', a'')"
  shows "active_get buf'' a'' = f (db_banks buf ! bank)" "db_pending buf'' = NO_PENDING"
  using assms is_bank_flip [of "db_active buf"]
  by (auto simp: staging_buffer_def commit_def activate_def active_get_def buffer_inv_def Let_def
      write_bank_def NO_PENDING_def split: if_splits)

subsection \<open>The two cores interleaved\<close>

text \<open>
  Program counters name the point between two accesses. Core 0: after \<open>buffer\<close> found nothing
  pending, while it writes the bank it borrowed, and the same two points of \<open>commit\<close>. Core 1: the
  points of \<open>activate\<close> after the load of \<open>pending\<close>, after \<open>current\<close> changed, and after the store of
  \<open>active\<close>. A token is moved: it is held by core 0, in the command queue, or in the hands of
  \<open>activate\<close>, or it has been dropped. \<open>sys_committed\<close> records what the bank held when \<open>commit\<close>
  published it; no step reads it.
\<close>

datatype pc0 = Idle0 | BufferChecked | Writing u8 | CommitChecked | CommitLoaded u8

datatype pc1 = Idle1 | PendingLoaded CommitToken u8 | CurrentSet CommitToken u8
  | ActiveStored CommitToken

record 'a sys =
  sys_buf :: "'a DoubleBuffer"
  sys_act :: Active
  sys_pc0 :: pc0
  sys_pc1 :: pc1
  sys_held :: "CommitToken list"
  sys_queue :: "CommitToken list"
  sys_committed :: 'a

definition sys_init :: "nat \<Rightarrow> 'a \<Rightarrow> 'a \<Rightarrow> 'a sys" where
  "sys_init addr x y = \<lparr>sys_buf = from_banks addr x y, sys_act = split_active, sys_pc0 = Idle0,
     sys_pc1 = Idle1, sys_held = [], sys_queue = [], sys_committed = x\<rparr>"

inductive core0_step :: "'a sys \<Rightarrow> 'a sys \<Rightarrow> bool" where
  buffer_check: "sys_pc0 s = Idle0 \<Longrightarrow> db_pending (sys_buf s) = NO_PENDING \<Longrightarrow>
    core0_step s (s\<lparr>sys_pc0 := BufferChecked\<rparr>)"
| buffer_select: "sys_pc0 s = BufferChecked \<Longrightarrow>
    core0_step s (s\<lparr>sys_pc0 := Writing (db_active (sys_buf s) XOR 1)\<rparr>)"
| write_through: "sys_pc0 s = Writing b \<Longrightarrow>
    core0_step s (s\<lparr>sys_buf := write_bank (unat b) f (sys_buf s)\<rparr>)"
| end_borrow: "sys_pc0 s = Writing b \<Longrightarrow> core0_step s (s\<lparr>sys_pc0 := Idle0\<rparr>)"
| commit_check: "sys_pc0 s = Idle0 \<Longrightarrow> db_pending (sys_buf s) = NO_PENDING \<Longrightarrow>
    core0_step s (s\<lparr>sys_pc0 := CommitChecked\<rparr>)"
| commit_load: "sys_pc0 s = CommitChecked \<Longrightarrow>
    core0_step s (s\<lparr>sys_pc0 := CommitLoaded (db_active (sys_buf s) XOR 1)\<rparr>)"
| commit_store: "sys_pc0 s = CommitLoaded b \<Longrightarrow>
    core0_step s (s\<lparr>sys_pc0 := Idle0, sys_buf := (sys_buf s)\<lparr>db_pending := b + 1\<rparr>,
      sys_held := \<lparr>ct_owner = db_identity (sys_buf s), ct_bank = b\<rparr> # sys_held s,
      sys_committed := db_banks (sys_buf s) ! unat b\<rparr>)"
| cancel_token: "sys_pc0 s = Idle0 \<Longrightarrow> sys_held s = xs @ t # ys \<Longrightarrow>
    core0_step s (s\<lparr>sys_buf := cancel t (sys_buf s), sys_held := xs @ ys\<rparr>)"
| send: "sys_held s = xs @ t # ys \<Longrightarrow>
    core0_step s (s\<lparr>sys_held := xs @ ys, sys_queue := sys_queue s @ [t]\<rparr>)"
| foreign: "ct_owner t \<noteq> db_identity (sys_buf s) \<Longrightarrow>
    core0_step s (s\<lparr>sys_held := t # sys_held s\<rparr>)"
| drop0: "sys_held s = xs @ t # ys \<Longrightarrow> core0_step s (s\<lparr>sys_held := xs @ ys\<rparr>)"

inductive core1_step :: "'a sys \<Rightarrow> 'a sys \<Rightarrow> bool" where
  reject_foreign: "sys_pc1 s = Idle1 \<Longrightarrow> sys_queue s = t # q \<Longrightarrow>
    ct_owner t \<noteq> db_identity (sys_buf s) \<Longrightarrow> core1_step s (s\<lparr>sys_queue := q\<rparr>)"
| load_pending: "sys_pc1 s = Idle1 \<Longrightarrow> sys_queue s = t # q \<Longrightarrow>
    ct_owner t = db_identity (sys_buf s) \<Longrightarrow>
    core1_step s (s\<lparr>sys_queue := q, sys_pc1 := PendingLoaded t (db_pending (sys_buf s))\<rparr>)"
| reject_stale: "sys_pc1 s = PendingLoaded t p \<Longrightarrow> p = NO_PENDING \<or> p - 1 \<noteq> ct_bank t \<Longrightarrow>
    core1_step s (s\<lparr>sys_pc1 := Idle1\<rparr>)"
| set_current: "sys_pc1 s = PendingLoaded t p \<Longrightarrow> p \<noteq> NO_PENDING \<Longrightarrow> p - 1 = ct_bank t \<Longrightarrow>
    core1_step s (s\<lparr>sys_act := (sys_act s)\<lparr>ac_current := p - 1\<rparr>, sys_pc1 := CurrentSet t (p - 1)\<rparr>)"
| store_active: "sys_pc1 s = CurrentSet t b \<Longrightarrow>
    core1_step s (s\<lparr>sys_buf := (sys_buf s)\<lparr>db_active := b\<rparr>, sys_pc1 := ActiveStored t\<rparr>)"
| store_idle: "sys_pc1 s = ActiveStored t \<Longrightarrow>
    core1_step s (s\<lparr>sys_buf := (sys_buf s)\<lparr>db_pending := NO_PENDING\<rparr>, sys_pc1 := Idle1\<rparr>)"
| drop1: "sys_pc1 s = Idle1 \<Longrightarrow> sys_queue s = t # q \<Longrightarrow> core1_step s (s\<lparr>sys_queue := q\<rparr>)"

definition sys_step :: "'a sys \<Rightarrow> 'a sys \<Rightarrow> bool" where
  "sys_step s s' \<longleftrightarrow> core0_step s s' \<or> core1_step s s'"

inductive reachable :: "nat \<Rightarrow> 'a \<Rightarrow> 'a \<Rightarrow> 'a sys \<Rightarrow> bool" for addr x y where
  init: "reachable addr x y (sys_init addr x y)"
| step: "reachable addr x y s \<Longrightarrow> sys_step s s' \<Longrightarrow> reachable addr x y s'"

inductive_cases core0_stepE: "core0_step s s'"
inductive_cases core1_stepE: "core1_step s s'"

text \<open>The tokens of this buffer that are still alive, wherever they are.\<close>

fun pc1_tokens :: "pc1 \<Rightarrow> CommitToken list" where
  "pc1_tokens Idle1 = []"
| "pc1_tokens (PendingLoaded t p) = [t]"
| "pc1_tokens (CurrentSet t b) = [t]"
| "pc1_tokens (ActiveStored t) = [t]"

definition own_tokens :: "'a sys \<Rightarrow> CommitToken list" where
  "own_tokens s = filter (\<lambda>t. ct_owner t = db_identity (sys_buf s))
     (sys_held s @ sys_queue s @ pc1_tokens (sys_pc1 s))"

fun pc0_ok :: "pc0 \<Rightarrow> u8 \<Rightarrow> u8 \<Rightarrow> bool" where
  "pc0_ok Idle0 active pending = True"
| "pc0_ok BufferChecked active pending = (pending = NO_PENDING)"
| "pc0_ok (Writing b) active pending = (pending = NO_PENDING \<and> b = active XOR 1)"
| "pc0_ok CommitChecked active pending = (pending = NO_PENDING)"
| "pc0_ok (CommitLoaded b) active pending = (pending = NO_PENDING \<and> b = active XOR 1)"

text \<open>What core 1 knows at each point: \<open>active\<close> and \<open>current\<close> agree except inside \<open>activate\<close>.\<close>

fun pc1_ok :: "pc1 \<Rightarrow> nat \<Rightarrow> u8 \<Rightarrow> u8 \<Rightarrow> u8 \<Rightarrow> bool" where
  "pc1_ok Idle1 addr current active pending \<longleftrightarrow>
     current = active \<and> (pending = NO_PENDING \<or> pending = (active XOR 1) + 1)"
| "pc1_ok (PendingLoaded t p) addr current active pending \<longleftrightarrow>
     ct_owner t = addr \<and> current = active \<and> pending = (active XOR 1) + 1 \<and> p = pending"
| "pc1_ok (CurrentSet t b) addr current active pending \<longleftrightarrow>
     ct_owner t = addr \<and> b = current \<and> current = active XOR 1 \<and> pending = current + 1"
| "pc1_ok (ActiveStored t) addr current active pending \<longleftrightarrow>
     ct_owner t = addr \<and> current = active \<and> pending = current + 1"

definition sys_inv :: "'a sys \<Rightarrow> bool" where
  "sys_inv s \<longleftrightarrow> (let b = sys_buf s in
     length (db_banks b) = 2 \<and> is_bank (db_active b)
     \<and> pc0_ok (sys_pc0 s) (db_active b) (db_pending b)
     \<and> pc1_ok (sys_pc1 s) (db_identity b) (ac_current (sys_act s)) (db_active b) (db_pending b)
     \<and> length (own_tokens s) \<le> (if db_pending b = NO_PENDING then 0 else 1)
     \<and> (\<forall>t \<in> set (own_tokens s). ct_bank t + 1 = db_pending b)
     \<and> (db_pending b \<noteq> NO_PENDING \<longrightarrow> sys_committed s = db_banks b ! unat (db_pending b - 1)))"

lemma sys_init_inv: "sys_inv (sys_init addr x y)"
  by (simp add: sys_inv_def sys_init_def from_banks_def split_active_def own_tokens_def is_bank_def
      NO_PENDING_def)

lemmas sys_inv_simps = sys_inv_def Let_def own_tokens_def is_bank_def NO_PENDING_def

lemma core0_step_inv:
  assumes "core0_step s s'" "sys_inv s"
  shows "sys_inv s'"
  using assms
proof (cases rule: core0_step.cases)
  case (write_through b f)
  have "unat b \<noteq> unat (db_pending (sys_buf s) - 1) \<or> db_pending (sys_buf s) = NO_PENDING"
    using assms(2) write_through by (auto simp: sys_inv_def Let_def)
  then show ?thesis using assms(2) write_through by (auto simp: sys_inv_simps write_bank_def)
next
  case (cancel_token xs t ys)
  have t: "length (own_tokens s) \<le> 1" using assms(2) by (auto simp: sys_inv_def Let_def split: if_splits)
  show ?thesis
  proof (cases "ct_owner t = db_identity (sys_buf s)")
    case True
    then have "own_tokens s' = []" "sys_pc1 s = Idle1 \<or> sys_pc1 s \<noteq> Idle1 \<and> False"
      using t cancel_token assms(2)
      by (auto simp: own_tokens_def cancel_def sys_inv_def Let_def
          elim!: pc1_ok.elims(2))
    then show ?thesis using True cancel_token assms(2)
      by (auto simp: sys_inv_def Let_def cancel_def)
  next
    case False
    then show ?thesis using cancel_token assms(2) by (auto simp: sys_inv_simps cancel_def)
  qed
next
  case (commit_store b)
  then have "sys_pc1 s = Idle1" "own_tokens s = []" "b = db_active (sys_buf s) XOR 1"
    using assms(2) is_bank_flip [of "db_active (sys_buf s)"]
    by (auto simp: sys_inv_def Let_def NO_PENDING_def elim!: pc1_ok.elims(2))
  then show ?thesis using commit_store assms(2) by (auto simp: sys_inv_simps)
qed (auto simp: sys_inv_simps split: if_splits)

lemma core1_step_inv:
  assumes "core1_step s s'" "sys_inv s"
  shows "sys_inv s'"
  using assms
proof (cases rule: core1_step.cases)
  case (load_pending t q)
  then have "db_pending (sys_buf s) \<noteq> NO_PENDING"
    using assms(2) by (auto simp: sys_inv_def Let_def own_tokens_def split: if_splits)
  then show ?thesis using load_pending assms(2) by (auto simp: sys_inv_simps)
next
  case (store_active t b)
  then have "sys_pc0 s = Idle0"
    using assms(2) is_bank_flip [of "db_active (sys_buf s)"]
    by (auto simp: sys_inv_def Let_def NO_PENDING_def elim!: pc0_ok.elims(2))
  then show ?thesis using store_active assms(2) by (auto simp: sys_inv_simps)
next
  case (store_idle t)
  then have "sys_pc0 s = Idle0"
    using assms(2) is_bank_flip [of "db_active (sys_buf s)"]
    by (auto simp: sys_inv_def Let_def NO_PENDING_def is_bank_def elim!: pc0_ok.elims(2))
  then show ?thesis using store_idle assms(2)
    by (auto simp: sys_inv_simps filter_empty_conv split: if_splits)
next
  case (reject_stale t p)
  then show ?thesis using assms(2) is_bank_flip [of "db_active (sys_buf s)"]
    by (auto simp: sys_inv_def Let_def own_tokens_def NO_PENDING_def)
next
  case (set_current t p)
  then have "p - 1 = db_active (sys_buf s) XOR 1"
    using assms(2) by (auto simp: sys_inv_def Let_def)
  with set_current(1,2) show ?thesis using assms(2) by (auto simp: sys_inv_def Let_def own_tokens_def)
next
  case (reject_foreign t q)
  then show ?thesis using assms(2) by (simp add: sys_inv_def Let_def own_tokens_def)
next
  case (drop1 t q)
  then show ?thesis using assms(2)
    by (cases "ct_owner t = db_identity (sys_buf s)")
      (simp_all add: sys_inv_def Let_def own_tokens_def split: if_splits)
qed

lemma reachable_inv: "reachable addr x y s \<Longrightarrow> sys_inv s"
  by (induction rule: reachable.induct)
    (auto simp: sys_init_inv sys_step_def dest: core0_step_inv core1_step_inv)

lemma reach0: "reachable addr x y s \<Longrightarrow> core0_step s s' \<Longrightarrow> reachable addr x y s'"
  by (auto intro: reachable.step simp: sys_step_def)

lemma reach1: "reachable addr x y s \<Longrightarrow> core1_step s s' \<Longrightarrow> reachable addr x y s'"
  by (auto intro: reachable.step simp: sys_step_def)

text \<open>A concrete run, used as the inhabitant of the properties below.\<close>

definition demo_writing :: "nat \<Rightarrow> nat sys" where
  "demo_writing v = \<lparr>sys_buf = \<lparr>db_banks = [10, v], db_active = 0, db_pending = NO_PENDING,
     db_identity = 7\<rparr>, sys_act = \<lparr>ac_current = 0\<rparr>, sys_pc0 = Writing 1, sys_pc1 = Idle1,
     sys_held = [], sys_queue = [], sys_committed = 10\<rparr>"

lemma demo_writing_simps: "sys_pc0 (demo_writing v) = Writing 1" "db_banks (sys_buf (demo_writing v)) = [10, v]"
  by (simp_all add: demo_writing_def)

lemma demo_writing_reachable: "reachable 7 10 20 (demo_writing 20)"
proof -
  let ?s0 = "sys_init 7 (10 :: nat) 20"
  have "core0_step ?s0 (?s0\<lparr>sys_pc0 := BufferChecked\<rparr>)"
    by (rule buffer_check) (simp_all add: sys_init_def from_banks_def)
  then have r: "reachable 7 10 20 (?s0\<lparr>sys_pc0 := BufferChecked\<rparr>)"
    by (rule reach0 [OF reachable.init])
  have "core0_step (?s0\<lparr>sys_pc0 := BufferChecked\<rparr>) (demo_writing 20)"
    using buffer_select [of "?s0\<lparr>sys_pc0 := BufferChecked\<rparr>"]
    by (simp add: sys_init_def from_banks_def demo_writing_def split_active_def)
  with r show ?thesis by (rule reach0)
qed

lemma demo_write: "core0_step (demo_writing 20) (demo_writing 25)"
  using write_through [of "demo_writing 20" 1 "\<lambda>v. v + 5"] by (simp add: demo_writing_def write_bank_def)

definition demo_activating :: "nat sys" where
  "demo_activating = \<lparr>sys_buf = \<lparr>db_banks = [10, 25], db_active = 1, db_pending = 2,
     db_identity = 7\<rparr>, sys_act = \<lparr>ac_current = 1\<rparr>, sys_pc0 = Idle0,
     sys_pc1 = ActiveStored \<lparr>ct_owner = 7, ct_bank = 1\<rparr>,
     sys_held = [], sys_queue = [], sys_committed = 25\<rparr>"

lemma demo_activating_reachable: "reachable 7 10 20 demo_activating"
proof -
  let ?t = "\<lparr>ct_owner = 7, ct_bank = 1\<rparr>"
  let ?s1 = "(demo_writing 25)\<lparr>sys_pc0 := Idle0\<rparr>"
  let ?s4 = "?s1\<lparr>sys_buf := (sys_buf ?s1)\<lparr>db_pending := 2\<rparr>, sys_held := [?t], sys_committed := 25\<rparr>"
  let ?s5 = "?s4\<lparr>sys_held := [], sys_queue := [?t]\<rparr>"
  let ?s6 = "?s4\<lparr>sys_held := [], sys_pc1 := PendingLoaded ?t 2\<rparr>"
  let ?s7 = "?s6\<lparr>sys_act := \<lparr>ac_current = 1\<rparr>, sys_pc1 := CurrentSet ?t 1\<rparr>"
  note d = demo_writing_def NO_PENDING_def
  have "reachable 7 10 20 (demo_writing 25)" by (rule reach0 [OF demo_writing_reachable demo_write])
  then have "reachable 7 10 20 ?s1" by (rule reach0) (rule end_borrow, simp add: d)
  then have "reachable 7 10 20 (?s1\<lparr>sys_pc0 := CommitChecked\<rparr>)"
    by (rule reach0) (rule commit_check, simp_all add: d)
  then have "reachable 7 10 20 (?s1\<lparr>sys_pc0 := CommitLoaded 1\<rparr>)"
    by (rule reach0) (use commit_load [of "?s1\<lparr>sys_pc0 := CommitChecked\<rparr>"] in \<open>simp add: d\<close>)
  then have "reachable 7 10 20 ?s4"
    by (rule reach0) (use commit_store [of "?s1\<lparr>sys_pc0 := CommitLoaded 1\<rparr>" 1] in \<open>simp add: d\<close>)
  then have "reachable 7 10 20 ?s5"
    by (rule reach0) (use send [of ?s4 "[]" ?t "[]"] in \<open>simp add: d\<close>)
  then have "reachable 7 10 20 ?s6"
    by (rule reach1) (use load_pending [of ?s5 ?t "[]"] in \<open>simp add: d\<close>)
  then have "reachable 7 10 20 ?s7"
    by (rule reach1) (use set_current [of ?s6 ?t 2] in \<open>simp add: d\<close>)
  then show ?thesis
    by (rule reach1) (use store_active [of ?s7 ?t 1] in \<open>simp add: d demo_activating_def\<close>)
qed

subsection \<open>Properties of the double buffer\<close>

text \<open>
  C4: no interleaving of the two cores lets core 0 write the bank that core 1 reads: whenever core 0
  holds a writable borrow, its bank is inside the buffer, is not the one the active endpoint reads,
  and no commit is pending; hence no step of core 0 at all changes what core 1 sees.
\<close>

theorem double_buffer_race_free:
  assumes "reachable addr x y s"
  shows "(sys_pc0 s = Writing b \<longrightarrow> unat b < 2 \<and> b \<noteq> ac_current (sys_act s)
      \<and> db_pending (sys_buf s) = NO_PENDING)
    \<and> (core0_step s s' \<longrightarrow> active_get (sys_buf s') (sys_act s') = active_get (sys_buf s) (sys_act s))"
proof
  have inv: "sys_inv s" by (rule reachable_inv [OF assms])
  then have b: "is_bank (db_active (sys_buf s))" by (simp add: sys_inv_def Let_def)
  show w: "sys_pc0 s = Writing b \<longrightarrow> unat b < 2 \<and> b \<noteq> ac_current (sys_act s)
      \<and> db_pending (sys_buf s) = NO_PENDING" for b
    using inv is_bank_flip [OF b]
    by (auto simp: sys_inv_def Let_def NO_PENDING_def elim!: pc1_ok.elims(2))
  show "core0_step s s' \<longrightarrow> active_get (sys_buf s') (sys_act s') = active_get (sys_buf s) (sys_act s)"
    using w
    by (auto elim!: core0_stepE simp: active_get_def write_bank_def cancel_def word_unat_eq_iff)
qed

theorem double_buffer_race_free_witness:
  "\<exists>s s'. reachable 7 (10 :: nat) 20 s \<and> sys_pc0 s = Writing 1 \<and> core0_step s s'
    \<and> db_banks (sys_buf s') = [10, 25] \<and> active_get (sys_buf s') (sys_act s') = 10"
proof -
  have r: "reachable 7 10 20 (demo_writing 20)" by (rule demo_writing_reachable)
  have st: "core0_step (demo_writing 20) (demo_writing 25)" by (rule demo_write)
  have "active_get (sys_buf (demo_writing 25)) (sys_act (demo_writing 25))
      = active_get (sys_buf (demo_writing 20)) (sys_act (demo_writing 20))"
    using double_buffer_race_free [OF r, of 1 "demo_writing 25"] st by blast
  then have "active_get (sys_buf (demo_writing 25)) (sys_act (demo_writing 25)) = 10"
    by (simp add: demo_writing_def active_get_def)
  with r st show ?thesis by (metis demo_writing_simps)
qed

text \<open>
  C31: when \<open>activate\<close> completes (its last store), the active endpoint reads exactly the value the
  bank held when \<open>commit\<close> published it, nothing is pending any more, and no token of this buffer is
  left that could activate it again.
\<close>

theorem activation_shows_committed:
  assumes "reachable addr x y s" "sys_pc1 s = ActiveStored t" "core1_step s s'"
  shows "active_get (sys_buf s') (sys_act s') = sys_committed s \<and> db_pending (sys_buf s') = NO_PENDING
    \<and> own_tokens s' = []"
  using assms(3)
proof (cases rule: core1_step.cases)
  case (store_idle t')
  have inv: "sys_inv s" by (rule reachable_inv [OF assms(1)])
  then have "db_pending (sys_buf s) \<noteq> NO_PENDING" "db_pending (sys_buf s) - 1 = ac_current (sys_act s)"
    "length (own_tokens s) \<le> 1"
    using assms(2) is_bank_flip [of "db_active (sys_buf s)"]
    by (auto simp: sys_inv_def Let_def NO_PENDING_def split: if_splits)
  then show ?thesis using inv store_idle
    by (auto simp: sys_inv_def Let_def active_get_def own_tokens_def)
qed (use assms(2) in auto)

theorem activation_shows_committed_witness:
  "\<exists>s'. core1_step demo_activating s' \<and> active_get (sys_buf s') (sys_act s') = 25 \<and> own_tokens s' = []"
proof -
  let ?t = "\<lparr>ct_owner = 7, ct_bank = 1\<rparr>"
  have pc: "sys_pc1 demo_activating = ActiveStored ?t" "sys_committed demo_activating = 25"
    by (simp_all add: demo_activating_def)
  have "core1_step demo_activating (demo_activating\<lparr>sys_buf := (sys_buf demo_activating)
      \<lparr>db_pending := NO_PENDING\<rparr>, sys_pc1 := Idle1\<rparr>)"
    by (rule store_idle [OF pc(1)])
  with activation_shows_committed [OF demo_activating_reachable pc(1) this] pc(2)
  show ?thesis by metis
qed

end
