(* ===== verification/Rt_Shared.thy ===== *)
theory Rt_Shared
  imports Double_Buffer Float64
begin

text \<open>
  What the two firmware cores share: the sample-rate presets (\<open>helic-rt/src/sample_rate.rs\<close>), the
  atomics (\<open>shared.rs\<close>), the command and record types (\<open>channels.rs\<close>) and the stall detector of
  \<open>helic-core/src/safety.rs\<close>. An \<open>AtomicU32\<close> is a field; \<open>fetch_add\<close> wraps. A \<open>heapless\<close> single
  producer, single consumer queue is a list with a capacity.
\<close>

subsection \<open>Sample rates\<close>

datatype SampleRate = Hz1000 | Hz2000 | Hz4000 | Hz8000

fun sr_hz :: "SampleRate \<Rightarrow> f32" where
  "sr_hz Hz1000 = f32_lit 1000 1"
| "sr_hz Hz2000 = f32_lit 2000 1"
| "sr_hz Hz4000 = f32_lit 4000 1"
| "sr_hz Hz8000 = f32_lit 8000 1"

definition sr_dt :: "SampleRate \<Rightarrow> f32" where
  "sr_dt r = f32_div f32_1 (sr_hz r)"

fun sr_period_us :: "SampleRate \<Rightarrow> u64" where
  "sr_period_us Hz1000 = 1000"
| "sr_period_us Hz2000 = 500"
| "sr_period_us Hz4000 = 250"
| "sr_period_us Hz8000 = 125"

fun sr_pwm_params :: "SampleRate \<Rightarrow> u8 \<times> u16" where
  "sr_pwm_params Hz1000 = (4, 37500 - 1)"
| "sr_pwm_params Hz2000 = (2, 37500 - 1)"
| "sr_pwm_params Hz4000 = (2, 18750 - 1)"
| "sr_pwm_params Hz8000 = (2, 9375 - 1)"

subsection \<open>Stall detector (helic-core/src/safety.rs)\<close>

record StaleCounter =
  sc_last :: u32
  sc_ticks_since_change :: u32
  sc_limit :: u32

definition stale_new :: "u32 \<Rightarrow> StaleCounter" where
  "stale_new limit = \<lparr>sc_last = 0, sc_ticks_since_change = 0, sc_limit = limit\<rparr>"

definition stale_observe :: "u32 \<Rightarrow> StaleCounter \<Rightarrow> StaleCounter \<times> bool" where
  "stale_observe current c =
     (let c' = (if current \<noteq> sc_last c
                then c\<lparr>sc_last := current, sc_ticks_since_change := 0\<rparr>
                else c\<lparr>sc_ticks_since_change := saturating_add (sc_ticks_since_change c) 1\<rparr>)
      in (c', sc_ticks_since_change c' > sc_limit c'))"

subsection \<open>Atomics (shared.rs)\<close>

record Live =
  lv_ticks :: u32
  lv_loop_time_last_us :: u32
  lv_active_table_len :: u32

definition live_new :: Live where
  "live_new = \<lparr>lv_ticks = 0, lv_loop_time_last_us = 0, lv_active_table_len = 0\<rparr>"

record Diagnostics =
  dg_loop_time_max_us :: u32
  dg_clock_jitter_us :: u32
  dg_overruns :: u32
  dg_tick_timeouts :: u32
  dg_records_dropped :: u32
  dg_command_backlog_max :: u32
  dg_wake_phase_min_us :: u32
  dg_wake_phase_max_us :: u32
  dg_t_measure_max_us :: u32
  dg_t_actuate_max_us :: u32
  dg_t_rest_max_us :: u32
  dg_safety_clamp_ticks :: u32
  dg_safety_quiet_ticks :: u32

definition diagnostics_new :: Diagnostics where
  "diagnostics_new = \<lparr>dg_loop_time_max_us = 0, dg_clock_jitter_us = 0, dg_overruns = 0,
     dg_tick_timeouts = 0, dg_records_dropped = 0, dg_command_backlog_max = 0,
     dg_wake_phase_min_us = - 1, dg_wake_phase_max_us = 0, dg_t_measure_max_us = 0,
     dg_t_actuate_max_us = 0, dg_t_rest_max_us = 0, dg_safety_clamp_ticks = 0,
     dg_safety_quiet_ticks = 0\<rparr>"

definition diagnostics_reset :: "Diagnostics \<Rightarrow> Diagnostics" where
  "diagnostics_reset d = d\<lparr>dg_loop_time_max_us := 0, dg_clock_jitter_us := 0, dg_overruns := 0,
     dg_tick_timeouts := 0, dg_records_dropped := 0, dg_command_backlog_max := 0,
     dg_wake_phase_min_us := - 1, dg_wake_phase_max_us := 0, dg_t_measure_max_us := 0,
     dg_t_actuate_max_us := 0, dg_t_rest_max_us := 0, dg_safety_clamp_ticks := 0,
     dg_safety_quiet_ticks := 0\<rparr>"

record SafetyInputs =
  si_armed :: bool
  si_tripped :: bool

record Safety =
  sf_armed :: u32
  sf_tripped :: u32

definition safety_new :: Safety where
  "safety_new = \<lparr>sf_armed = 0, sf_tripped = 0\<rparr>"

definition load_inputs :: "Safety \<Rightarrow> SafetyInputs" where
  "load_inputs s = \<lparr>si_armed = (sf_armed s \<noteq> 0), si_tripped = (sf_tripped s \<noteq> 0)\<rparr>"

definition latch_trip :: "Safety \<Rightarrow> Safety" where
  "latch_trip s = s\<lparr>sf_tripped := 1\<rparr>"

definition arm :: "Safety \<Rightarrow> Safety" where
  "arm s = s\<lparr>sf_tripped := 0, sf_armed := 1\<rparr>"

definition disarm :: "Safety \<Rightarrow> Safety" where
  "disarm s = s\<lparr>sf_armed := 0\<rparr>"

definition of_flag :: "bool \<Rightarrow> u32" where
  "of_flag b = (if b then 1 else 0)"

definition safety_flags :: "Safety \<Rightarrow> Diagnostics \<Rightarrow> u32" where
  "safety_flags s d =
     (let inputs = load_inputs s;
          clamped = (dg_safety_clamp_ticks d \<noteq> 0);
          quieted = (dg_safety_quiet_ticks d \<noteq> 0)
      in of_flag (si_armed inputs) OR push_bit 1 (of_flag (si_tripped inputs))
           OR push_bit 2 (of_flag clamped) OR push_bit 3 (of_flag quieted))"

definition REBOOT_IDLE :: u32 where "REBOOT_IDLE = 0"
definition REBOOT_REQUESTED :: u32 where "REBOOT_REQUESTED = 1"
definition REBOOT_QUIESCED :: u32 where "REBOOT_QUIESCED = 2"

record RebootShared =
  rb_state :: u32

definition reboot_new :: RebootShared where "reboot_new = \<lparr>rb_state = REBOOT_IDLE\<rparr>"

definition reboot_request :: "RebootShared \<Rightarrow> RebootShared" where
  "reboot_request r = (if rb_state r = REBOOT_IDLE then r\<lparr>rb_state := REBOOT_REQUESTED\<rparr> else r)"

definition reboot_is_requested :: "RebootShared \<Rightarrow> bool" where
  "reboot_is_requested r \<longleftrightarrow> rb_state r \<ge> REBOOT_REQUESTED"

definition reboot_mark_quiesced :: "RebootShared \<Rightarrow> RebootShared" where
  "reboot_mark_quiesced r = r\<lparr>rb_state := REBOOT_QUIESCED\<rparr>"

definition reboot_is_quiesced :: "RebootShared \<Rightarrow> bool" where
  "reboot_is_quiesced r \<longleftrightarrow> rb_state r = REBOOT_QUIESCED"

record RtShared =
  sh_live :: Live
  sh_diagnostics :: Diagnostics
  sh_safety :: Safety
  sh_reboot :: RebootShared

definition shared_new :: RtShared where
  "shared_new = \<lparr>sh_live = live_new, sh_diagnostics = diagnostics_new, sh_safety = safety_new,
     sh_reboot = reboot_new\<rparr>"

subsection \<open>Commands and records (channels.rs)\<close>

definition MAX_FORCE_VALUES :: nat where "MAX_FORCE_VALUES = 132"
definition DOMAIN_RIG :: u8 where "DOMAIN_RIG = 0"
definition DOMAIN_GENERATOR :: u8 where "DOMAIN_GENERATOR = 1"
definition DOMAIN_TABLE :: u8 where "DOMAIN_TABLE = 2"
definition DOMAIN_CONTROLLER :: u8 where "DOMAIN_CONTROLLER = 3"

definition GEN_SET_INCREMENT :: u16 where "GEN_SET_INCREMENT = 0"
definition GEN_SET_TARGET :: u16 where "GEN_SET_TARGET = 1"
definition GEN_SET_FORCING :: u16 where "GEN_SET_FORCING = 2"
definition TBL_ACTIVATE :: u16 where "TBL_ACTIVATE = 0"
definition TBL_SET_INCREMENT :: u16 where "TBL_SET_INCREMENT = 1"
definition TBL_SET_GAIN :: u16 where "TBL_SET_GAIN = 2"
definition TBL_SET_INTERPOLATION :: u16 where "TBL_SET_INTERPOLATION = 3"
definition TBL_SET_MODE :: u16 where "TBL_SET_MODE = 4"
definition TBL_SET_MULTIPLIER :: u16 where "TBL_SET_MULTIPLIER = 5"
definition TBL_SET_PHASE :: u16 where "TBL_SET_PHASE = 6"
definition TBL_TRIGGER :: u16 where "TBL_TRIGGER = 7"

datatype Payload = PUnit | PF32 f32 | PU32 u32 | PBuffer CommitToken

record RtCommand =
  rc_domain :: u8
  rc_id :: u16
  rc_payload :: Payload

definition COMMAND_QUEUE_LEN :: nat where "COMMAND_QUEUE_LEN = 32"
definition COMMANDS_PER_TICK :: nat where "COMMANDS_PER_TICK = 2"
definition RECORD_QUEUE_LEN :: nat where "RECORD_QUEUE_LEN = 256"

record Record =
  re_index :: u32
  re_n :: u8
  re_values :: "f32 list"

text \<open>
  \<open>heapless::spsc::Queue<T, N>\<close> holds at most \<open>N - 1\<close> elements: \<open>enqueue\<close> returns the element when
  full, \<open>dequeue\<close> takes the oldest.
\<close>

definition enqueue :: "nat \<Rightarrow> 'a \<Rightarrow> 'a list \<Rightarrow> 'a list \<times> bool" where
  "enqueue n x q = (if length q < n - 1 then (q @ [x], True) else (q, False))"

fun dequeue :: "'a list \<Rightarrow> 'a list \<times> 'a option" where
  "dequeue [] = ([], None)"
| "dequeue (x # q) = (q, Some x)"

subsection \<open>Stall detection is exact\<close>

fun stale_run :: "u32 list \<Rightarrow> StaleCounter \<Rightarrow> StaleCounter \<times> bool list" where
  "stale_run [] c = (c, [])"
| "stale_run (x # xs) c =
     (let (c1, s) = stale_observe x c; (c2, ss) = stale_run xs c1 in (c2, s # ss))"

lemma saturating_add_1: "unat (saturating_add c (1 :: u32)) = min (unat c + 1) (2 ^ 32 - 1)"
proof -
  have b: "unat c < 2 ^ 32" using unsigned_less [of c] by simp
  show ?thesis
  proof (cases "unat c + 1 < 2 ^ 32")
    case True
    then have "unat (c + 1) = unat c + 1" by (simp add: unat_word_ariths)
    with True show ?thesis by (simp add: saturating_add_def word_less_nat_alt)
  next
    case False
    with b have c: "unat c = 2 ^ 32 - 1" by linarith
    then have "c = - 1" by (simp add: word_unat_eq_iff unat_u32_minus_1)
    then show ?thesis by (simp add: saturating_add_def unat_u32_minus_1 word_less_nat_alt)
  qed
qed

lemma stale_same:
  "stale_run (replicate n (sc_last c)) c = (c', ss) \<Longrightarrow>
   sc_last c' = sc_last c \<and> sc_limit c' = sc_limit c
   \<and> unat (sc_ticks_since_change c') = min (unat (sc_ticks_since_change c) + n) (2 ^ 32 - 1)
   \<and> (\<forall>i < n. ss ! i \<longleftrightarrow>
       unat (sc_limit c) < min (unat (sc_ticks_since_change c) + Suc i) (2 ^ 32 - 1))"
proof (induction n arbitrary: c c' ss)
  case 0
  then show ?case using unat_u32_bound [of "sc_ticks_since_change c"] by (auto simp: min_def)
next
  case (Suc n)
  let ?c = "c\<lparr>sc_ticks_since_change := saturating_add (sc_ticks_since_change c) 1\<rparr>"
  obtain ss' where r: "stale_run (replicate n (sc_last ?c)) ?c = (c', ss')"
    and s: "ss = (sc_limit c < saturating_add (sc_ticks_since_change c) 1) # ss'"
    using Suc.prems by (auto simp: stale_observe_def Let_def split: prod.splits)
  have t: "unat (sc_ticks_since_change ?c) = min (unat (sc_ticks_since_change c) + 1) (2 ^ 32 - 1)"
    by (simp add: saturating_add_1)
  have h: "sc_limit c < saturating_add (sc_ticks_since_change c) 1 \<longleftrightarrow>
      unat (sc_limit c) < min (unat (sc_ticks_since_change c) + 1) (2 ^ 32 - 1)"
    by (simp add: word_less_nat_alt saturating_add_1)
  show ?case using Suc.IH [OF r] t h s by (auto simp: nth_Cons' less_Suc_eq_0_disj min_def)
qed

text \<open>
  A counter that repeats its last value is reported stale from exactly the tick after \<open>limit\<close>
  unchanged ticks, and stays reported (the tick count saturates instead of wrapping), while any
  changed value is reported fresh at once; this holds for every limit below \<open>u32::MAX\<close>.
\<close>

theorem stale_counter_exact:
  assumes "sc_limit c < - 1" "current \<noteq> sc_last c"
  shows "(case stale_observe current c of (c1, fresh) \<Rightarrow>
      \<not> fresh \<and> sc_last c1 = current
      \<and> (\<forall>n i. i < n \<longrightarrow> (snd (stale_run (replicate n current) c1) ! i \<longleftrightarrow> unat (sc_limit c) < Suc i)))"
proof -
  let ?c = "c\<lparr>sc_last := current, sc_ticks_since_change := 0\<rparr>"
  have o: "stale_observe current c = (?c, False)"
    using assms(2) by (simp add: stale_observe_def)
  have lim: "unat (sc_limit c) < 2 ^ 32 - 1"
    using assms(1) by (simp add: word_less_nat_alt unat_u32_minus_1)
  have "snd (stale_run (replicate n current) ?c) ! i \<longleftrightarrow> unat (sc_limit c) < Suc i" if "i < n" for n i
  proof -
    obtain c' ss where r: "stale_run (replicate n (sc_last ?c)) ?c = (c', ss)"
      by (cases "stale_run (replicate n (sc_last ?c)) ?c")
    show ?thesis using stale_same [OF r] r that lim by (auto simp: min_def)
  qed
  then show ?thesis by (simp add: o)
qed

theorem stale_counter_exact_witness:
  "case stale_observe 5 (stale_new 2) of (c1, fresh) \<Rightarrow>
    \<not> fresh \<and> \<not> snd (stale_run (replicate 4 5) c1) ! 1 \<and> snd (stale_run (replicate 4 5) c1) ! 2"
  using stale_counter_exact [of "stale_new 2" 5] by (auto simp: stale_new_def)

end
