(* ===== verification/Rt_Safety.thy ===== *)
theory Rt_Safety
  imports Rt_Shared
begin

text \<open>
  The rig contract (\<open>trait Rig\<close> of \<open>helic-rt/src/rig.rs\<close>) as a record of its constants and methods
  over a rig state, the pure safety decision (\<open>helic-rt/src/safety.rs\<close>), and the interleaving of
  core 0, which arms and disarms, with core 1, which loads the state, decides and latches trips.
\<close>

definition MAX_STREAM_SOURCES :: nat where "MAX_STREAM_SOURCES = 24"
definition MAX_ACTUATORS :: nat where "MAX_ACTUATORS = 4"

record 'r Rig =
  R_INPUTS :: "(bytes \<times> bytes) list"
  R_ACTUATORS :: "(bytes \<times> bytes) list"
  R_SAFETY_GATED :: bool
  r_init :: "'r \<Rightarrow> 'r"
  r_measure :: "f32 list \<Rightarrow> 'r \<Rightarrow> 'r \<times> f32 list"
  r_actuate :: "f32 list \<Rightarrow> 'r \<Rightarrow> 'r"
  r_prepare_reboot :: "u8 \<Rightarrow> 'r \<Rightarrow> 'r \<times> bool"
  r_clamp_output :: "'r \<Rightarrow> nat \<Rightarrow> f32 \<Rightarrow> f32"
  r_safe_output :: "'r \<Rightarrow> nat \<Rightarrow> f32"
  r_output_fault :: "f32 list \<Rightarrow> 'r \<Rightarrow> 'r \<times> bool"
  r_tick_start :: "'r \<Rightarrow> 'r"
  r_tick_end :: "'r \<Rightarrow> 'r"
  r_tick_phase_us :: "'r \<Rightarrow> u32 option"
  r_param_names :: "bytes list"
  r_param_defaults :: "f32 list"
  r_normalise_param :: "u16 \<Rightarrow> f32 \<Rightarrow> f32 option"
  r_set_param :: "u16 \<Rightarrow> f32 \<Rightarrow> 'r \<Rightarrow> 'r"

text \<open>The default methods of the trait.\<close>

definition default_clamp_output :: "'r \<Rightarrow> nat \<Rightarrow> f32 \<Rightarrow> f32" where
  "default_clamp_output rig actuator output = output"

definition default_safe_output :: "'r \<Rightarrow> nat \<Rightarrow> f32" where
  "default_safe_output rig actuator = f32_0"

definition default_output_fault :: "f32 list \<Rightarrow> 'r \<Rightarrow> 'r \<times> bool" where
  "default_output_fault inputs rig = (rig, False)"

definition default_normalise_param :: "bytes list \<Rightarrow> u16 \<Rightarrow> f32 \<Rightarrow> f32 option" where
  "default_normalise_param names ident value =
     (if get_at names (unat ident) \<noteq> None \<and> is_finite value then Some value else None)"

record SafetyOutcome =
  so_newly_tripped :: bool
  so_quieted :: bool
  so_clamped :: bool

definition outcome_default :: SafetyOutcome where
  "outcome_default = \<lparr>so_newly_tripped = False, so_quieted = False, so_clamped = False\<rparr>"

text \<open>The armed branch: every actuator's command through its clamp, in order.\<close>

fun clamp_outputs :: "'r Rig \<Rightarrow> 'r \<Rightarrow> nat \<Rightarrow> f32 list \<Rightarrow> f32 list \<times> bool" where
  "clamp_outputs R rig actuator [] = ([], False)"
| "clamp_outputs R rig actuator (commanded # rest) =
     (let applied = r_clamp_output R rig actuator commanded;
          (applied_rest, clamped) = clamp_outputs R rig (Suc actuator) rest
      in (applied # applied_rest, \<not> f32_eq applied commanded \<or> clamped))"

definition safety_decide ::
  "'r Rig \<Rightarrow> 'r \<Rightarrow> SafetyInputs \<Rightarrow> bool \<Rightarrow> f32 list \<Rightarrow> SafetyOutcome \<times> f32 list" where
  "safety_decide R rig inputs fault commanded =
     (if \<not> R_SAFETY_GATED R then (outcome_default, commanded)
      else
        let newly_tripped = (fault \<or> (\<exists>value \<in> set commanded. \<not> is_finite value))
        in if newly_tripped \<or> si_tripped inputs \<or> \<not> si_armed inputs
           then (\<lparr>so_newly_tripped = newly_tripped, so_quieted = True, so_clamped = False\<rparr>,
                 map (r_safe_output R rig) [0..<length commanded])
           else
             let (applied, clamped) = clamp_outputs R rig 0 commanded
             in (\<lparr>so_newly_tripped = False, so_quieted = False, so_clamped = clamped\<rparr>, applied))"

text \<open>
  \<open>VectorRig\<close>, the gated two-actuator rig of the crate's own tests. Its \<open>clamp\<close> limits are ordered,
  so \<open>f32::clamp\<close> does not panic.
\<close>

definition vector_clamp_output :: "'r \<Rightarrow> nat \<Rightarrow> f32 \<Rightarrow> f32" where
  "vector_clamp_output rig actuator output =
     (let limit = f32_add (f32_of_int (int actuator)) f32_1
      in case f32_clamp output (f32_neg limit) limit of None \<Rightarrow> f32_nan | Some y \<Rightarrow> y)"

definition vector_safe_output :: "'r \<Rightarrow> nat \<Rightarrow> f32" where
  "vector_safe_output rig actuator = f32_add (f32_lit 10 1) (f32_of_int (int actuator))"

definition vector_rig :: "unit Rig" where
  "vector_rig = \<lparr>R_INPUTS = [], R_ACTUATORS = [(as_bytes ''left'', as_bytes ''V''), (as_bytes ''right'', as_bytes ''V'')],
     R_SAFETY_GATED = True, r_init = id, r_measure = (\<lambda>values r. (r, values)),
     r_actuate = (\<lambda>outputs r. r), r_prepare_reboot = (\<lambda>step r. (r, True)),
     r_clamp_output = vector_clamp_output, r_safe_output = vector_safe_output,
     r_output_fault = default_output_fault, r_tick_start = id, r_tick_end = id,
     r_tick_phase_us = (\<lambda>r. None), r_param_names = [], r_param_defaults = [],
     r_normalise_param = default_normalise_param [], r_set_param = (\<lambda>id v r. r)\<rparr>"

subsection \<open>What the decision guarantees\<close>

lemma length_clamp_outputs [simp]: "length (fst (clamp_outputs R rig a xs)) = length xs"
  by (induction xs arbitrary: a) (auto simp: split_beta Let_def)

lemma nth_clamp_outputs:
  "i < length xs \<Longrightarrow> fst (clamp_outputs R rig a xs) ! i = r_clamp_output R rig (a + i) (xs ! i)"
  by (induction xs arbitrary: a i) (auto simp: split_beta Let_def nth_Cons')

lemma snd_clamp_outputs:
  "snd (clamp_outputs R rig a xs) \<longleftrightarrow>
   (\<exists>i < length xs. \<not> f32_eq (r_clamp_output R rig (a + i) (xs ! i)) (xs ! i))"
proof (induction xs arbitrary: a)
  case Nil
  then show ?case by simp
next
  case (Cons x xs)
  then show ?case
    by (auto simp: split_beta Let_def nth_Cons' less_Suc_eq_0_disj)
qed

definition must_quiet :: "SafetyInputs \<Rightarrow> bool \<Rightarrow> f32 list \<Rightarrow> bool" where
  "must_quiet inputs fault commanded \<longleftrightarrow>
     fault \<or> \<not> list_all is_finite commanded \<or> si_tripped inputs \<or> \<not> si_armed inputs"

lemma safety_decide_quiet:
  assumes "R_SAFETY_GATED R" "must_quiet inputs fault commanded"
  shows "snd (safety_decide R rig inputs fault commanded) = map (r_safe_output R rig) [0..<length commanded]"
    "so_quieted (fst (safety_decide R rig inputs fault commanded))"
  using assms by (auto simp: safety_decide_def must_quiet_def Let_def list_all_iff)

lemma safety_decide_live:
  assumes "R_SAFETY_GATED R" "\<not> must_quiet inputs fault commanded"
  shows "safety_decide R rig inputs fault commanded =
    (\<lparr>so_newly_tripped = False, so_quieted = False, so_clamped = snd (clamp_outputs R rig 0 commanded)\<rparr>,
     fst (clamp_outputs R rig 0 commanded))"
  using assms by (auto simp: safety_decide_def must_quiet_def Let_def list_all_iff split_beta)

lemma safety_decide_trip:
  "R_SAFETY_GATED R \<Longrightarrow> so_newly_tripped (fst (safety_decide R rig inputs fault commanded)) \<longleftrightarrow>
     fault \<or> \<not> list_all is_finite commanded"
  by (auto simp: safety_decide_def Let_def list_all_iff split_beta)

lemma length_safety_decide [simp]:
  "length (snd (safety_decide R rig inputs fault commanded)) = length commanded"
  by (simp add: safety_decide_def Let_def split_beta)

subsection \<open>A gated rig is only ever driven with values its hooks promise\<close>

text \<open>
  What a gated rig promises of its hooks (\<open>Rig::SAFETY_GATED\<close>): per actuator, a set of values that
  is acceptable for the fitted output stage, into which a finite command is clamped and in which the
  safe output lies.
\<close>

locale gated_rig =
  fixes R :: "'r Rig" and ok :: "nat \<Rightarrow> f32 \<Rightarrow> bool"
  assumes gated: "R_SAFETY_GATED R"
    and clamp_ok: "actuator < MAX_ACTUATORS \<Longrightarrow> is_finite x \<Longrightarrow> ok actuator (r_clamp_output R rig actuator x)"
    and safe_ok: "actuator < MAX_ACTUATORS \<Longrightarrow> ok actuator (r_safe_output R rig actuator)"
begin

lemma applied_ok:
  assumes "length commanded \<le> MAX_ACTUATORS" "a < length commanded"
  shows "ok a (snd (safety_decide R rig inputs fault commanded) ! a)"
proof (cases "must_quiet inputs fault commanded")
  case True
  then show ?thesis using safety_decide_quiet(1) [OF gated True] assms safe_ok by simp
next
  case False
  then have "is_finite (commanded ! a)" using assms by (auto simp: must_quiet_def list_all_length)
  then show ?thesis using safety_decide_live [OF gated False] clamp_ok assms
    by (simp add: nth_clamp_outputs)
qed

end

lemma f32_clamp_finite:
  assumes "is_finite x" "is_finite lo" "is_finite hi" "f32_clamp x lo hi = Some y"
  shows "is_finite y"
  using assms by (auto simp: f32_clamp_def split: if_splits)

lemma is_finite_f32_neg: "is_finite (f32_neg x) = is_finite x"
proof -
  have "uint (to_bits x XOR 0x80000000) mod 2 ^ 31 = uint (to_bits x) mod 2 ^ 31"
    unfolding take_bit_eq_mod [symmetric] by (simp add: unsigned_xor_eq take_bit_xor)
  then show ?thesis by (simp add: is_finite_def f32_code_def f32_neg_def)
qed

lemma less_MAX_ACTUATORS: "a < MAX_ACTUATORS \<longleftrightarrow> a = 0 \<or> a = 1 \<or> a = 2 \<or> a = 3"
  by (auto simp: MAX_ACTUATORS_def)

definition vector_limit :: "nat \<Rightarrow> f32" where
  "vector_limit actuator = f32_add (f32_of_int (int actuator)) f32_1"

lemma vector_limits:
  assumes "a < MAX_ACTUATORS"
  shows "is_finite (vector_limit a)" "f32_le (f32_neg (vector_limit a)) (vector_limit a)"
    "is_finite (vector_safe_output rig a)"
proof -
  have "is_finite (vector_limit 0)" "is_finite (vector_limit 1)" "is_finite (vector_limit 2)"
    "is_finite (vector_limit 3)" by code_simp+
  then show "is_finite (vector_limit a)" using assms by (auto simp: less_MAX_ACTUATORS)
  have "f32_le (f32_neg (vector_limit 0)) (vector_limit 0)"
    "f32_le (f32_neg (vector_limit 1)) (vector_limit 1)"
    "f32_le (f32_neg (vector_limit 2)) (vector_limit 2)"
    "f32_le (f32_neg (vector_limit 3)) (vector_limit 3)" by code_simp+
  then show "f32_le (f32_neg (vector_limit a)) (vector_limit a)"
    using assms by (auto simp: less_MAX_ACTUATORS)
  have "is_finite (f32_add (f32_lit 10 1) (f32_of_int (int 0)))"
    "is_finite (f32_add (f32_lit 10 1) (f32_of_int (int 1)))"
    "is_finite (f32_add (f32_lit 10 1) (f32_of_int (int 2)))"
    "is_finite (f32_add (f32_lit 10 1) (f32_of_int (int 3)))" by code_simp+
  then show "is_finite (vector_safe_output rig a)"
    using assms by (auto simp: less_MAX_ACTUATORS vector_safe_output_def)
qed

lemma vector_clamp_finite:
  assumes "a < MAX_ACTUATORS" "is_finite x"
  shows "is_finite (vector_clamp_output rig a x)"
  using f32_clamp_finite [OF assms(2), of "f32_neg (vector_limit a)" "vector_limit a"]
    vector_limits [OF assms(1)]
  by (auto simp: vector_clamp_output_def Let_def vector_limit_def is_finite_f32_neg f32_clamp_def
      split: option.splits)

interpretation vector_gate: gated_rig vector_rig "\<lambda>_. is_finite"
  by unfold_locales (simp_all add: vector_rig_def vector_clamp_finite vector_limits)

text \<open>The trait's own default hooks satisfy the contract on any rig that opts into the gate.\<close>

interpretation default_gate: gated_rig "R\<lparr>R_SAFETY_GATED := True,
    r_clamp_output := default_clamp_output, r_safe_output := default_safe_output\<rparr>" "\<lambda>_. is_finite" for R :: "'r Rig"
  by unfold_locales (simp_all add: default_clamp_output_def default_safe_output_def is_finite_def f32_code_def)

subsection \<open>Core 0 and core 1 interleaved\<close>

text \<open>
  One store or load per step. Core 0 runs \<open>arm\<close> as its two stores, and \<open>disarm\<close> as one; core 1
  loads \<open>armed\<close> and \<open>tripped\<close>, decides with whatever fault and command that tick has, stores the
  latch when the decision asks for it, and then drives the applied vector.
\<close>

datatype arm_pc = ArmIdle | ArmCleared

datatype tick_pc = TickIdle | ArmedLoaded bool | InputsLoaded SafetyInputs
  | MustLatch "f32 list" | Ready "f32 list"

record cores =
  co_safety :: Safety
  co_pc0 :: arm_pc
  co_pc1 :: tick_pc

datatype safety_event = Arm_Clear | Arm_Set | Disarm | Load_Armed | Load_Tripped
  | Decide bool "f32 list" | Latch | Actuate "f32 list"

inductive safety_step :: "'r Rig \<Rightarrow> 'r \<Rightarrow> cores \<Rightarrow> safety_event \<Rightarrow> cores \<Rightarrow> bool" for R rig where
  arm_clear: "co_pc0 s = ArmIdle \<Longrightarrow> safety_step R rig s Arm_Clear
    (s\<lparr>co_safety := (co_safety s)\<lparr>sf_tripped := 0\<rparr>, co_pc0 := ArmCleared\<rparr>)"
| arm_set: "co_pc0 s = ArmCleared \<Longrightarrow> safety_step R rig s Arm_Set
    (s\<lparr>co_safety := (co_safety s)\<lparr>sf_armed := 1\<rparr>, co_pc0 := ArmIdle\<rparr>)"
| disarm: "co_pc0 s = ArmIdle \<Longrightarrow> safety_step R rig s Disarm
    (s\<lparr>co_safety := disarm (co_safety s)\<rparr>)"
| load_armed: "co_pc1 s = TickIdle \<Longrightarrow> safety_step R rig s Load_Armed
    (s\<lparr>co_pc1 := ArmedLoaded (si_armed (load_inputs (co_safety s)))\<rparr>)"
| load_tripped: "co_pc1 s = ArmedLoaded a \<Longrightarrow> safety_step R rig s Load_Tripped
    (s\<lparr>co_pc1 := InputsLoaded \<lparr>si_armed = a, si_tripped = si_tripped (load_inputs (co_safety s))\<rparr>\<rparr>)"
| decide: "co_pc1 s = InputsLoaded i \<Longrightarrow>
    safety_decide R rig i fault commanded = (outcome, applied) \<Longrightarrow>
    safety_step R rig s (Decide fault commanded)
      (s\<lparr>co_pc1 := (if so_newly_tripped outcome then MustLatch applied else Ready applied)\<rparr>)"
| latch: "co_pc1 s = MustLatch applied \<Longrightarrow> safety_step R rig s Latch
    (s\<lparr>co_safety := latch_trip (co_safety s), co_pc1 := Ready applied\<rparr>)"
| actuate: "co_pc1 s = Ready applied \<Longrightarrow> safety_step R rig s (Actuate applied) (s\<lparr>co_pc1 := TickIdle\<rparr>)"

inductive safety_run :: "'r Rig \<Rightarrow> 'r \<Rightarrow> cores \<Rightarrow> safety_event list \<Rightarrow> cores \<Rightarrow> bool" for R rig where
  run_nil: "safety_run R rig s [] s"
| run_cons: "safety_step R rig s e s' \<Longrightarrow> safety_run R rig s' es s'' \<Longrightarrow> safety_run R rig s (e # es) s''"

inductive_cases safety_runE: "safety_run R rig s (e # es) s'"

definition is_safe_vector :: "'r Rig \<Rightarrow> 'r \<Rightarrow> f32 list \<Rightarrow> bool" where
  "is_safe_vector R rig applied \<longleftrightarrow> applied = map (r_safe_output R rig) [0..<length applied]"

definition only_safe :: "'r Rig \<Rightarrow> 'r \<Rightarrow> safety_event list \<Rightarrow> bool" where
  "only_safe R rig es \<longleftrightarrow> (\<forall>applied. Actuate applied \<in> set es \<longrightarrow> is_safe_vector R rig applied)"

lemma decide_quiet_vector:
  assumes "R_SAFETY_GATED R" "must_quiet i fault commanded"
    and "safety_decide R rig i fault commanded = (outcome, applied)"
  shows "is_safe_vector R rig applied"
  using safety_decide_quiet(1) [OF assms(1,2), of rig] assms(3) by (simp add: is_safe_vector_def)

text \<open>The tick in progress will drive the safe vector, given what it has loaded.\<close>

fun tick_quiet :: "'r Rig \<Rightarrow> 'r \<Rightarrow> tick_pc \<Rightarrow> bool" where
  "tick_quiet R rig TickIdle = True"
| "tick_quiet R rig (ArmedLoaded a) = True"
| "tick_quiet R rig (InputsLoaded i) = (si_tripped i \<or> \<not> si_armed i)"
| "tick_quiet R rig (MustLatch applied) = is_safe_vector R rig applied"
| "tick_quiet R rig (Ready applied) = is_safe_vector R rig applied"

definition latched_inv :: "'r Rig \<Rightarrow> 'r \<Rightarrow> cores \<Rightarrow> bool" where
  "latched_inv R rig s \<longleftrightarrow> tick_quiet R rig (co_pc1 s) \<and>
     (sf_tripped (co_safety s) \<noteq> 0 \<or> (\<exists>applied. co_pc1 s = MustLatch applied))"

definition disarmed_inv :: "'r Rig \<Rightarrow> 'r \<Rightarrow> cores \<Rightarrow> bool" where
  "disarmed_inv R rig s \<longleftrightarrow> tick_quiet R rig (co_pc1 s) \<and> sf_armed (co_safety s) = 0
     \<and> (\<forall>a. co_pc1 s = ArmedLoaded a \<longrightarrow> \<not> a)"

lemma latched_step:
  assumes "safety_step R rig s e s'" "latched_inv R rig s" "e \<noteq> Arm_Clear" "R_SAFETY_GATED R"
  shows "latched_inv R rig s' \<and> (\<forall>applied. e = Actuate applied \<longrightarrow> is_safe_vector R rig applied)"
  using assms(1)
proof cases
  case (decide i fault commanded outcome applied)
  then have "must_quiet i fault commanded" using assms(2) by (auto simp: latched_inv_def must_quiet_def)
  then have "is_safe_vector R rig applied" by (rule decide_quiet_vector [OF assms(4) _ decide(4)])
  then show ?thesis using decide assms(2) by (auto simp: latched_inv_def)
qed (use assms(2,3) in \<open>auto simp: latched_inv_def disarm_def load_inputs_def latch_trip_def\<close>)

lemma latched_run:
  assumes "safety_run R rig s es s'" "latched_inv R rig s" "Arm_Clear \<notin> set es" "R_SAFETY_GATED R"
  shows "latched_inv R rig s' \<and> only_safe R rig es"
  using assms
proof (induction rule: safety_run.induct)
  case (run_nil s)
  then show ?case by (simp add: only_safe_def)
next
  case (run_cons s e s' es s'')
  then have "latched_inv R rig s' \<and> (\<forall>applied. e = Actuate applied \<longrightarrow> is_safe_vector R rig applied)"
    using latched_step [OF run_cons.hyps(1)] by auto
  with run_cons show ?case by (auto simp: only_safe_def)
qed

lemma disarmed_step:
  assumes "safety_step R rig s e s'" "disarmed_inv R rig s" "e \<noteq> Arm_Set" "R_SAFETY_GATED R"
  shows "disarmed_inv R rig s' \<and> (\<forall>applied. e = Actuate applied \<longrightarrow> is_safe_vector R rig applied)"
  using assms(1)
proof cases
  case (decide i fault commanded outcome applied)
  then have "must_quiet i fault commanded" using assms(2) by (auto simp: disarmed_inv_def must_quiet_def)
  then have "is_safe_vector R rig applied" by (rule decide_quiet_vector [OF assms(4) _ decide(4)])
  then show ?thesis using decide assms(2) by (auto simp: disarmed_inv_def)
qed (use assms(2,3) in \<open>auto simp: disarmed_inv_def disarm_def load_inputs_def latch_trip_def\<close>)

lemma disarmed_run:
  assumes "safety_run R rig s es s'" "disarmed_inv R rig s" "Arm_Set \<notin> set es" "R_SAFETY_GATED R"
  shows "disarmed_inv R rig s' \<and> only_safe R rig es"
  using assms
proof (induction rule: safety_run.induct)
  case (run_nil s)
  then show ?case by (simp add: only_safe_def)
next
  case (run_cons s e s' es s'')
  then have "disarmed_inv R rig s' \<and> (\<forall>applied. e = Actuate applied \<longrightarrow> is_safe_vector R rig applied)"
    using disarmed_step [OF run_cons.hyps(1)] by auto
  with run_cons show ?case by (auto simp: only_safe_def)
qed

subsection \<open>Properties of the output stage\<close>

text \<open>
  C1: a fault (from the rig or the programme) or a non-finite command makes the tick that sees it
  drive the safe vector, and from then on every tick of every interleaving with core 0 drives the
  safe vector and the trip stays latched (once its store is done), even after the fault has gone,
  until core 0 begins to arm again.
\<close>

theorem fault_quiets_until_rearmed:
  assumes "R_SAFETY_GATED R" "co_pc1 s = InputsLoaded i"
    and "fault \<or> \<not> list_all is_finite commanded"
    and "safety_run R rig s (Decide fault commanded # es) s'" "Arm_Clear \<notin> set es"
  shows "only_safe R rig es \<and>
    (sf_tripped (co_safety s') \<noteq> 0 \<or> (\<exists>applied. co_pc1 s' = MustLatch applied))"
proof -
  obtain s1 where st: "safety_step R rig s (Decide fault commanded) s1" and run: "safety_run R rig s1 es s'"
    using assms(4) by (rule safety_runE)
  from st have "latched_inv R rig s1"
  proof cases
    case (decide j outcome applied)
    then have d: "safety_decide R rig j fault commanded = (outcome, applied)" by simp
    have "is_safe_vector R rig applied"
      using assms(3) by (intro decide_quiet_vector [OF assms(1) _ d]) (auto simp: must_quiet_def)
    moreover have "so_newly_tripped outcome"
      using safety_decide_trip [OF assms(1), of rig j fault commanded] d assms(3) by simp
    ultimately show ?thesis using decide by (simp add: latched_inv_def)
  qed
  from latched_run [OF run this assms(5,1)] show ?thesis by (simp add: latched_inv_def)
qed

definition demo_vector :: "f32 list" where
  "demo_vector = [vector_safe_output () 0, vector_safe_output () 1]"

lemma demo_decide:
  "safety_decide vector_rig () \<lparr>si_armed = True, si_tripped = False\<rparr> False [f32_nan, f32_1]
    = (\<lparr>so_newly_tripped = True, so_quieted = True, so_clamped = False\<rparr>, demo_vector)"
proof -
  have "\<not> is_finite f32_nan" by code_simp
  then show ?thesis by (simp add: safety_decide_def vector_rig_def demo_vector_def)
qed

lemma safety_demo:
  "safety_run vector_rig () \<lparr>co_safety = \<lparr>sf_armed = 1, sf_tripped = 0\<rparr>, co_pc0 = ArmIdle,
      co_pc1 = InputsLoaded \<lparr>si_armed = True, si_tripped = False\<rparr>\<rparr>
    [Decide False [f32_nan, f32_1], Latch, Actuate demo_vector]
    \<lparr>co_safety = \<lparr>sf_armed = 1, sf_tripped = 1\<rparr>, co_pc0 = ArmIdle, co_pc1 = TickIdle\<rparr>"
  (is "safety_run _ _ ?s _ _")
proof -
  let ?m = "?s\<lparr>co_pc1 := MustLatch demo_vector\<rparr>"
  let ?r = "?s\<lparr>co_safety := latch_trip (co_safety ?s), co_pc1 := Ready demo_vector\<rparr>"
  have "safety_step vector_rig () ?s (Decide False [f32_nan, f32_1]) ?m"
    using decide [OF _ demo_decide, of ?s] by simp
  moreover have "safety_step vector_rig () ?m Latch ?r"
    using latch [of ?m demo_vector vector_rig "()"] by simp
  moreover have "safety_step vector_rig () ?r (Actuate demo_vector)
      \<lparr>co_safety = \<lparr>sf_armed = 1, sf_tripped = 1\<rparr>, co_pc0 = ArmIdle, co_pc1 = TickIdle\<rparr>"
    using actuate [of ?r demo_vector vector_rig "()"] by (simp add: latch_trip_def)
  ultimately show ?thesis by (blast intro: run_cons run_nil)
qed

theorem fault_quiets_until_rearmed_witness: "only_safe vector_rig () [Latch, Actuate demo_vector]"
proof -
  have "\<not> list_all is_finite [f32_nan, f32_1]" by code_simp
  then show ?thesis using fault_quiets_until_rearmed [OF _ _ _ safety_demo] by (simp add: vector_rig_def)
qed



text \<open>
  C33: if a gated rig's hooks keep a finite command and the safe output acceptable (for any notion of
  acceptable value per actuator), then every value the output stage applies is acceptable, whatever
  is commanded: non-finite commands, faults, trips and disarming included.
\<close>

theorem gated_outputs_acceptable:
  assumes "R_SAFETY_GATED R"
    and "\<And>actuator x rig. actuator < MAX_ACTUATORS \<Longrightarrow> is_finite x \<Longrightarrow> ok actuator (r_clamp_output R rig actuator x)"
    and "\<And>actuator rig. actuator < MAX_ACTUATORS \<Longrightarrow> ok actuator (r_safe_output R rig actuator)"
    and "length commanded \<le> MAX_ACTUATORS" "a < length commanded"
  shows "ok a (snd (safety_decide R rig inputs fault commanded) ! a)"
  by (rule gated_rig.applied_ok [OF gated_rig.intro]) (use assms in auto)

theorem gated_outputs_acceptable_witness:
  "is_finite (snd (safety_decide vector_rig () \<lparr>si_armed = True, si_tripped = False\<rparr> False
      [f32_nan, f32_lit 3 1]) ! 1)"
  by (rule gated_outputs_acceptable)
    (simp_all add: vector_rig_def vector_clamp_finite vector_limits MAX_ACTUATORS_def less_MAX_ACTUATORS [symmetric])

end
