(* ===== verification/Wave_Table.thy ===== *)
theory Wave_Table
  imports Signal
begin

text \<open>
  Waveform tables and their playback (\<open>helic-core/src/table.rs\<close>). A \<open>WaveTable<N>\<close> is its value
  array (a list of length \<open>N\<close>) and its length. Reads of the array use list indexing; the lemmas
  show that every index computed by \<open>evaluate_with\<close> is inside the array.
\<close>

definition MAX_TABLE_LEN :: nat where "MAX_TABLE_LEN = 4096"

record WaveTable =
  wt_values :: "f32 list"
  wt_len :: u16

text \<open>\<open>empty\<close> asserts its capacity: \<open>None\<close> is that failed assertion.\<close>

definition table_empty :: "nat \<Rightarrow> WaveTable option" where
  "table_empty N =
     (if 2 \<le> N \<and> N \<le> 65535 then Some \<lparr>wt_values = replicate N f32_0, wt_len = 0\<rparr> else None)"

definition table_from_slice :: "nat \<Rightarrow> f32 list \<Rightarrow> WaveTable option" where
  "table_from_slice N values =
     (if \<not> (2 \<le> length values \<and> length values \<le> N) then None
      else Option.bind (table_empty N)
             (\<lambda>t. Some (t\<lparr>wt_values := copy_at (wt_values t) 0 values,
                          wt_len := of_nat (length values)\<rparr>)))"

definition table_len :: "WaveTable \<Rightarrow> nat" where
  "table_len t = unat (wt_len t)"

definition table_is_empty :: "WaveTable \<Rightarrow> bool" where
  "table_is_empty t \<longleftrightarrow> wt_len t = 0"

definition table_values :: "WaveTable \<Rightarrow> f32 list" where
  "table_values t = subslice (wt_values t) 0 (table_len t)"

definition table_prefix :: "WaveTable \<Rightarrow> nat \<Rightarrow> f32 list option" where
  "table_prefix t len = (if len \<le> length (wt_values t) then Some (take len (wt_values t)) else None)"

text \<open>
  \<open>offset.checked_add\<close> fails only above the address width, which \<open>end > N\<close> also rejects: the sum of
  two naturals needs no case of its own.
\<close>

definition table_write_block :: "nat \<Rightarrow> f32 list \<Rightarrow> WaveTable \<Rightarrow> WaveTable \<times> bool" where
  "table_write_block offset values t =
     (if offset + length values > length (wt_values t) then (t, False)
      else (t\<lparr>wt_values := copy_at (wt_values t) offset values\<rparr>, True))"

definition table_set_len :: "nat \<Rightarrow> WaveTable \<Rightarrow> WaveTable \<times> bool" where
  "table_set_len len t =
     (if \<not> (2 \<le> len \<and> len \<le> length (wt_values t)) then (t, False)
      else (t\<lparr>wt_len := of_nat len\<rparr>, True))"

datatype TableInterpolation = ZeroOrderHold | Linear

definition table_interpolation_from_u32 :: "u32 \<Rightarrow> TableInterpolation option" where
  "table_interpolation_from_u32 value =
     (if value = 0 then Some ZeroOrderHold else if value = 1 then Some Linear else None)"

datatype TableMode = ModeOff | ModeLoop | ModeOneShot | ModeLockedLoop | ModeLockedOneShot

definition table_mode_from_u32 :: "u32 \<Rightarrow> TableMode option" where
  "table_mode_from_u32 value =
     (if value = 0 then Some ModeOff
      else if value = 1 then Some ModeLoop
      else if value = 2 then Some ModeOneShot
      else if value = 3 then Some ModeLockedLoop
      else if value = 4 then Some ModeLockedOneShot
      else None)"

definition table_position :: "WaveTable \<Rightarrow> u32 \<Rightarrow> u64" where
  "table_position t theta = ucast theta * of_nat (table_len t)"

definition table_index :: "WaveTable \<Rightarrow> u32 \<Rightarrow> nat" where
  "table_index t theta = unat (drop_bit 32 (table_position t theta))"

definition table_next :: "WaveTable \<Rightarrow> u32 \<Rightarrow> nat" where
  "table_next t theta =
     (if table_index t theta + 1 = table_len t then 0 else table_index t theta + 1)"

definition table_evaluate_with :: "WaveTable \<Rightarrow> u32 \<Rightarrow> TableInterpolation \<Rightarrow> f32" where
  "table_evaluate_with t theta interpolation =
     (let position = table_position t theta; index = table_index t theta
      in case interpolation of
           Linear \<Rightarrow>
             (let fraction = f32_mul (f32_of_word (ucast position :: u32))
                               (f32_div f32_1 (f32_lit 4294967296 1));
                  a = wt_values t ! index
              in f32_add a (f32_mul (f32_sub (wt_values t ! table_next t theta) a) fraction))
         | ZeroOrderHold \<Rightarrow> wt_values t ! index)"

definition table_evaluate :: "WaveTable \<Rightarrow> u32 \<Rightarrow> f32" where
  "table_evaluate t theta = table_evaluate_with t theta Linear"

subsection \<open>Playback\<close>

datatype OneShotState = OsIdle | OsArmed | OsRunning

record TablePlayer =
  tp_phase :: PhaseAccumulator
  tp_mode :: TableMode
  tp_interpolation :: TableInterpolation
  tp_gain :: f32
  tp_multiplier :: u32
  tp_phase_offset :: u32
  tp_one_shot :: OneShotState
  tp_previous_master :: u32
  tp_locked_progress :: u64

definition player_new :: TablePlayer where
  "player_new = \<lparr>tp_phase = phase_new, tp_mode = ModeOff, tp_interpolation = Linear,
     tp_gain = f32_1, tp_multiplier = 1, tp_phase_offset = 0, tp_one_shot = OsIdle,
     tp_previous_master = 0, tp_locked_progress = 0\<rparr>"

definition player_set_increment :: "u32 \<Rightarrow> TablePlayer \<Rightarrow> TablePlayer" where
  "player_set_increment increment p = p\<lparr>tp_phase := phase_set_increment increment (tp_phase p)\<rparr>"

definition player_set_gain :: "f32 \<Rightarrow> TablePlayer \<Rightarrow> TablePlayer" where
  "player_set_gain gain p = p\<lparr>tp_gain := gain\<rparr>"

definition player_set_mode :: "TableMode \<Rightarrow> TablePlayer \<Rightarrow> TablePlayer" where
  "player_set_mode mode p = p\<lparr>tp_mode := mode, tp_one_shot := OsIdle\<rparr>"

definition player_set_interpolation :: "TableInterpolation \<Rightarrow> TablePlayer \<Rightarrow> TablePlayer" where
  "player_set_interpolation interpolation p = p\<lparr>tp_interpolation := interpolation\<rparr>"

definition player_set_multiplier :: "u32 \<Rightarrow> TablePlayer \<Rightarrow> TablePlayer" where
  "player_set_multiplier multiplier p = p\<lparr>tp_multiplier := max multiplier 1\<rparr>"

definition player_set_phase_offset :: "u32 \<Rightarrow> TablePlayer \<Rightarrow> TablePlayer" where
  "player_set_phase_offset phase_offset p = p\<lparr>tp_phase_offset := phase_offset\<rparr>"

definition player_trigger :: "TablePlayer \<Rightarrow> TablePlayer" where
  "player_trigger p =
     (case tp_mode p of
        ModeOneShot \<Rightarrow> p\<lparr>tp_phase := phase_reset (tp_phase p), tp_one_shot := OsRunning\<rparr>
      | ModeLockedOneShot \<Rightarrow> p\<lparr>tp_one_shot := OsArmed\<rparr>
      | _ \<Rightarrow> p)"

text \<open>The phase at which a sample is read, or \<open>None\<close> where \<open>step\<close> returns 0 early.\<close>

definition player_theta :: "TablePlayer \<Rightarrow> u32 \<Rightarrow> bool \<Rightarrow> TablePlayer \<times> u32 option" where
  "player_theta p master_phase master_start =
     (case tp_mode p of
        ModeOff \<Rightarrow> (p, None)
      | ModeLoop \<Rightarrow>
          (let (acc, theta, _) = phase_step (tp_phase p) in (p\<lparr>tp_phase := acc\<rparr>, Some theta))
      | ModeOneShot \<Rightarrow>
          (if tp_one_shot p \<noteq> OsRunning then (p, None)
           else
             let (acc, theta, wrapped) = phase_step (tp_phase p); p1 = p\<lparr>tp_phase := acc\<rparr>
             in if wrapped then (p1\<lparr>tp_one_shot := OsIdle\<rparr>, None) else (p1, Some theta))
      | ModeLockedLoop \<Rightarrow> (p, Some (master_phase * tp_multiplier p + tp_phase_offset p))
      | ModeLockedOneShot \<Rightarrow>
          (if tp_one_shot p = OsArmed then
             (if \<not> master_start then (p, None)
              else (p\<lparr>tp_one_shot := OsRunning, tp_previous_master := master_phase,
                      tp_locked_progress := 0\<rparr>,
                    Some (master_phase * tp_multiplier p + tp_phase_offset p)))
           else if tp_one_shot p = OsRunning then
             (let delta = master_phase - tp_previous_master p;
                  progress = saturating_add (tp_locked_progress p)
                               (ucast delta * ucast (tp_multiplier p));
                  p1 = p\<lparr>tp_previous_master := master_phase, tp_locked_progress := progress\<rparr>
              in if progress \<ge> push_bit 32 1 then (p1\<lparr>tp_one_shot := OsIdle\<rparr>, None)
                 else (p1, Some (master_phase * tp_multiplier p + tp_phase_offset p)))
           else (p, None)))"

definition player_step :: "WaveTable \<Rightarrow> u32 \<Rightarrow> bool \<Rightarrow> TablePlayer \<Rightarrow> TablePlayer \<times> f32" where
  "player_step table master_phase master_start p =
     (if table_len table < 2 then (p, f32_0)
      else
        case player_theta p master_phase master_start of
          (p', None) \<Rightarrow> (p', f32_0)
        | (p', Some theta) \<Rightarrow>
            (p', f32_mul (tp_gain p') (table_evaluate_with table theta (tp_interpolation p'))))"

subsection \<open>Tables stay well formed and reads stay inside them\<close>

definition table_inv :: "nat \<Rightarrow> WaveTable \<Rightarrow> bool" where
  "table_inv N t \<longleftrightarrow> 2 \<le> N \<and> N \<le> 65535 \<and> length (wt_values t) = N
     \<and> (table_len t = 0 \<or> (2 \<le> table_len t \<and> table_len t \<le> N))"

lemma table_empty_inv: "table_empty N = Some t \<Longrightarrow> table_inv N t"
  by (auto simp: table_empty_def table_inv_def table_len_def split: if_splits)

lemma table_from_slice_inv: "table_from_slice N vs = Some t \<Longrightarrow> table_inv N t"
  by (auto simp: table_from_slice_def table_empty_def table_inv_def table_len_def Option.bind_eq_Some_conv
      split: if_splits)

lemma table_write_block_inv: "table_inv N t \<Longrightarrow> table_inv N (fst (table_write_block off vs t))"
  by (simp add: table_inv_def table_write_block_def table_len_def)

lemma table_set_len_inv: "table_inv N t \<Longrightarrow> table_inv N (fst (table_set_len n t))"
  by (auto simp: table_inv_def table_set_len_def table_len_def)

lemma table_index_div:
  "table_index t theta = (unat theta * table_len t) div 2 ^ 32"
proof -
  have th: "unat theta < 2 ^ 32" using unsigned_less [of theta] by simp
  have ln: "table_len t < 2 ^ 16" unfolding table_len_def using unsigned_less [of "wt_len t"] by simp
  have "unat theta * table_len t \<le> (2 ^ 32 - 1) * (2 ^ 16 - 1)"
    using th ln by (intro mult_le_mono) auto
  then have "unat (ucast theta * of_nat (table_len t) :: u64) = unat theta * table_len t"
    using th ln by (simp add: unat_word_ariths unat_of_nat unat_ucast_up take_bit_nat_eq_self)
  then show ?thesis
    by (simp add: table_index_def table_position_def drop_bit_eq_div unat_div)
qed

lemma table_index_bound:
  assumes "0 < table_len t"
  shows "table_index t theta < table_len t"
proof -
  have "unat theta < 2 ^ 32" using unsigned_less [of theta] by simp
  then have "unat theta * table_len t < table_len t * 2 ^ 32"
    using assms by (simp add: mult.commute)
  then show ?thesis by (simp add: table_index_div less_mult_imp_div_less)
qed

text \<open>
  For a table that holds a waveform (two to \<open>N\<close> values), every phase selects an index and a
  successor index inside the stored values, the index being the exact scaled phase
  \<open>theta * len / 2^32\<close> rounded down; in hold mode the sample returned is that stored value, so the
  table reads can neither panic nor see values beyond its length.
\<close>

theorem table_reads_in_bounds:
  assumes "table_inv N t" "2 \<le> table_len t"
  shows "table_index t theta < table_len t \<and> table_next t theta < table_len t
    \<and> table_len t \<le> length (wt_values t)
    \<and> table_index t theta = (unat theta * table_len t) div 2 ^ 32
    \<and> table_evaluate_with t theta ZeroOrderHold \<in> set (table_values t)"
proof -
  have i: "table_index t theta < table_len t" using assms by (intro table_index_bound) simp
  have l: "table_len t \<le> length (wt_values t)" using assms by (auto simp: table_inv_def)
  have "table_values t ! table_index t theta = wt_values t ! table_index t theta"
    "table_index t theta < length (table_values t)"
    using i l by (simp_all add: table_values_def)
  then have "table_evaluate_with t theta ZeroOrderHold \<in> set (table_values t)"
    unfolding table_evaluate_with_def Let_def by (metis TableInterpolation.simps(3) nth_mem)
  then show ?thesis using i l assms(2) table_index_div by (auto simp: table_next_def)
qed

definition sample_table :: WaveTable where
  "sample_table = \<lparr>wt_values = [f32_0, f32_1, f32_0, f32_0], wt_len = 3\<rparr>"

lemma sample_table_inv: "table_inv 4 sample_table" "table_len sample_table = 3"
  by (simp_all add: table_inv_def sample_table_def table_len_def)

theorem table_reads_in_bounds_witness:
  "table_index sample_table 0x80000000 < 3 \<and> table_index sample_table 0x80000000 = 1"
  using table_reads_in_bounds [of 4 sample_table "0x80000000"] sample_table_inv by simp

subsection \<open>A one-shot plays its table exactly once\<close>

fun player_run :: "WaveTable \<Rightarrow> (u32 \<times> bool) list \<Rightarrow> TablePlayer \<Rightarrow> TablePlayer \<times> f32 list" where
  "player_run table [] p = (p, [])"
| "player_run table ((master_phase, master_start) # ms) p =
     (let (p1, y) = player_step table master_phase master_start p; (p2, ys) = player_run table ms p1
      in (p2, y # ys))"

lemma player_run_idle:
  assumes "tp_mode p = ModeOneShot" "tp_one_shot p \<noteq> OsRunning"
  shows "player_run table ms p = (p, replicate (length ms) f32_0)"
  using assms
  by (induction ms) (auto simp: player_step_def player_theta_def)

definition shot_sample :: "WaveTable \<Rightarrow> TablePlayer \<Rightarrow> nat \<Rightarrow> f32" where
  "shot_sample table p position =
     (if position < 2 ^ 32
      then f32_mul (tp_gain p) (table_evaluate_with table (of_nat position) (tp_interpolation p))
      else f32_0)"

lemma phase_step_running:
  assumes "phase_step acc = (acc', theta, wrapped)"
  shows "wrapped \<longleftrightarrow> 2 ^ 32 \<le> unat (pa_phase acc) + unat (pa_increment acc)"
    "\<not> wrapped \<Longrightarrow> theta = of_nat (unat (pa_phase acc) + unat (pa_increment acc))"
    "\<not> wrapped \<Longrightarrow> unat (pa_phase acc') = unat (pa_phase acc) + unat (pa_increment acc)"
    "pa_increment acc' = pa_increment acc"
proof -
  have b: "unat (pa_phase acc') < 2 ^ 32" using unsigned_less [of "pa_phase acc'"] by simp
  note w = phase_step_wrap [OF assms]
  show "wrapped \<longleftrightarrow> 2 ^ 32 \<le> unat (pa_phase acc) + unat (pa_increment acc)"
    using w(1) b by (auto split: if_splits)
  show "unat (pa_phase acc') = unat (pa_phase acc) + unat (pa_increment acc)" if "\<not> wrapped"
    using w(1) that by simp
  show "theta = of_nat (unat (pa_phase acc) + unat (pa_increment acc))" if "\<not> wrapped"
    using assms by (auto simp: phase_step_def overflowing_add_def)
  show "pa_increment acc' = pa_increment acc" by (rule w(3))
qed

lemma player_run_running:
  assumes "tp_mode p = ModeOneShot" "tp_one_shot p = OsRunning" "2 \<le> table_len table"
  shows "snd (player_run table ms p) =
      map (\<lambda>i. shot_sample table p
            (unat (pa_phase (tp_phase p)) + Suc i * unat (pa_increment (tp_phase p)))) [0..<length ms]
    \<and> (tp_one_shot (fst (player_run table ms p)) = OsRunning \<longleftrightarrow>
        ms = [] \<or> unat (pa_phase (tp_phase p)) + length ms * unat (pa_increment (tp_phase p)) < 2 ^ 32)"
  using assms
proof (induction ms arbitrary: p)
  case Nil
  then show ?case by simp
next
  case (Cons m ms)
  obtain mp st where m: "m = (mp, st)" by (cases m)
  obtain acc theta wr where st: "phase_step (tp_phase p) = (acc, theta, wr)" by (cases "phase_step (tp_phase p)")
  note r = phase_step_running [OF st]
  let ?q = "unat (pa_phase (tp_phase p))" and ?n = "unat (pa_increment (tp_phase p))"
  have upt: "[0..<length (m # ms)] = 0 # map Suc [0..<length ms]"
    by (simp add: upt_conv_Cons map_Suc_upt del: upt_Suc)
  show ?case
  proof (cases wr)
    case True
    let ?p = "p\<lparr>tp_phase := acc, tp_one_shot := OsIdle\<rparr>"
    have "player_step table mp st p = (?p, f32_0)"
      using Cons.prems st True by (simp add: player_step_def player_theta_def)
    moreover have "shot_sample table p (?q + Suc i * ?n) = f32_0" for i
    proof -
      have "?n \<le> Suc i * ?n" by simp
      then have "2 ^ 32 \<le> ?q + Suc i * ?n" using r(1) True by linarith
      then show ?thesis by (simp add: shot_sample_def)
    qed
    moreover have "\<not> ?q + length (m # ms) * ?n < 2 ^ 32"
    proof -
      have "?n \<le> length (m # ms) * ?n" by simp
      then show ?thesis using r(1) True by linarith
    qed
    ultimately show ?thesis
      using player_run_idle [of ?p table ms] Cons.prems(1) by (simp add: m map_replicate_const)
  next
    case False
    let ?p = "p\<lparr>tp_phase := acc\<rparr>"
    have y: "player_step table mp st p =
        (?p, f32_mul (tp_gain p) (table_evaluate_with table theta (tp_interpolation p)))"
      using Cons.prems st False by (simp add: player_step_def player_theta_def)
    have first: "shot_sample table p (?q + ?n) =
        f32_mul (tp_gain p) (table_evaluate_with table theta (tp_interpolation p))"
      using r(1,2) False by (simp add: shot_sample_def)
    have ss: "shot_sample table ?p = shot_sample table p"
      by (rule ext) (simp add: shot_sample_def)
    show ?thesis
      using Cons.IH [of ?p] Cons.prems y first r(1,3,4) False
      unfolding upt by (simp add: m ss split_beta Let_def comp_def add.assoc) force
  qed
qed

text \<open>
  After \<open>trigger\<close> in one-shot mode the player outputs, for sample \<open>i\<close>, the gain times the
  table at phase \<open>(i + 1) * increment\<close> while that is below one period, and exactly zero from then
  on for ever: the table is played once from its start, whatever state the player was in, and the
  number of samples it runs is determined by the increment.
\<close>

theorem one_shot_plays_once:
  assumes "tp_mode p = ModeOneShot" "2 \<le> table_len table"
  shows "snd (player_run table ms (player_trigger p)) =
      map (\<lambda>i. shot_sample table p (Suc i * unat (pa_increment (tp_phase p)))) [0..<length ms]
    \<and> (tp_one_shot (fst (player_run table ms (player_trigger p))) = OsRunning \<longleftrightarrow>
        length ms * unat (pa_increment (tp_phase p)) < 2 ^ 32)"
proof -
  let ?p = "player_trigger p"
  have t: "tp_mode ?p = ModeOneShot" "tp_one_shot ?p = OsRunning" "pa_phase (tp_phase ?p) = 0"
    "pa_increment (tp_phase ?p) = pa_increment (tp_phase p)" "tp_gain ?p = tp_gain p"
    "tp_interpolation ?p = tp_interpolation p"
    using assms(1) by (simp_all add: player_trigger_def phase_reset_def)
  have "shot_sample table ?p = shot_sample table p" by (rule ext) (simp add: shot_sample_def t)
  with player_run_running [OF t(1,2) assms(2), of ms] t(3,4) show ?thesis by auto
qed

theorem one_shot_plays_once_witness:
  "tp_one_shot (fst (player_run sample_table [(0, False), (0, False)]
      (player_trigger (player_set_increment 0x40000000 (player_set_mode ModeOneShot player_new)))))
    = OsRunning"
proof -
  let ?p = "player_set_increment 0x40000000 (player_set_mode ModeOneShot player_new)"
  have "tp_mode ?p = ModeOneShot" "pa_increment (tp_phase ?p) = 0x40000000"
    by (simp_all add: player_set_increment_def player_set_mode_def phase_set_increment_def)
  then show ?thesis
    using one_shot_plays_once [of ?p sample_table "[(0, False), (0, False)]"] sample_table_inv(2) by simp
qed

end
