(* ===== verification/Proto_Frame.thy ===== *)
theory Proto_Frame
  imports Prelude
begin

text \<open>
  The control-channel framing of \<open>helic-proto\<close>: the constants and enumerations of \<open>lib.rs\<close>, the
  CRC-16/CCITT-FALSE of \<open>crc.rs\<close>, and \<open>encode\<close>/\<open>decode\<close> of \<open>frame.rs\<close>. A buffer written through
  \<open>&mut [u8]\<close> is returned; a byte slice is a list of bytes.
\<close>

subsection \<open>Protocol constants and enumerations (lib.rs)\<close>

definition MAGIC :: u16 where "MAGIC = 0x4C48"
definition VERSION :: u8 where "VERSION = 3"
definition CONTROL_PORT :: u16 where "CONTROL_PORT = 2350"
definition STREAM_PORT :: u16 where "STREAM_PORT = 2351"
definition DISCOVERY_PORT :: u16 where "DISCOVERY_PORT = 2352"
definition MCU_REBOOT_CONFIRMATION :: u32 where "MCU_REBOOT_CONFIRMATION = 0x52454254"

datatype ErrorCode = BadFrame | UnknownType | BadIndex | BadLength | ReadOnly | BadValue | Busy

fun error_code_u8 :: "ErrorCode \<Rightarrow> u8" where
  "error_code_u8 BadFrame = 1"
| "error_code_u8 UnknownType = 2"
| "error_code_u8 BadIndex = 3"
| "error_code_u8 BadLength = 4"
| "error_code_u8 ReadOnly = 5"
| "error_code_u8 BadValue = 6"
| "error_code_u8 Busy = 7"

datatype ParamType = TU8 | TI8 | TU16 | TI16 | TU32 | TI32 | TF32 | TChar

text \<open>The discriminants are the bytes of the characters B, b, H, h, I, i, f, c.\<close>

fun param_type_code :: "ParamType \<Rightarrow> u8" where
  "param_type_code TU8 = 0x42"
| "param_type_code TI8 = 0x62"
| "param_type_code TU16 = 0x48"
| "param_type_code TI16 = 0x68"
| "param_type_code TU32 = 0x49"
| "param_type_code TI32 = 0x69"
| "param_type_code TF32 = 0x66"
| "param_type_code TChar = 0x63"

fun param_type_size :: "ParamType \<Rightarrow> nat" where
  "param_type_size TU8 = 1"
| "param_type_size TI8 = 1"
| "param_type_size TChar = 1"
| "param_type_size TU16 = 2"
| "param_type_size TI16 = 2"
| "param_type_size TU32 = 4"
| "param_type_size TI32 = 4"
| "param_type_size TF32 = 4"

definition param_type_from_code :: "u8 \<Rightarrow> ParamType option" where
  "param_type_from_code code =
     (if code = 0x42 then Some TU8
      else if code = 0x62 then Some TI8
      else if code = 0x48 then Some TU16
      else if code = 0x68 then Some TI16
      else if code = 0x49 then Some TU32
      else if code = 0x69 then Some TI32
      else if code = 0x66 then Some TF32
      else if code = 0x63 then Some TChar
      else None)"

subsection \<open>CRC-16 (crc.rs)\<close>

definition crc_bit :: "u16 \<Rightarrow> u16" where
  "crc_bit crc = (if crc AND 0x8000 \<noteq> 0 then push_bit 1 crc XOR 0x1021 else push_bit 1 crc)"

definition crc_byte :: "u16 \<Rightarrow> u8 \<Rightarrow> u16" where
  "crc_byte crc byte = (crc_bit ^^ 8) (crc XOR push_bit 8 (ucast byte))"

definition crc16 :: "bytes \<Rightarrow> u16" where
  "crc16 data = foldl crc_byte 0xFFFF data"

subsection \<open>Frames (frame.rs)\<close>

definition HEADER_LEN :: nat where "HEADER_LEN = 6"
definition TRAILER_LEN :: nat where "TRAILER_LEN = 2"
definition MAX_PAYLOAD :: nat where "MAX_PAYLOAD = 1024"
definition MAX_FRAME :: nat where "MAX_FRAME = HEADER_LEN + MAX_PAYLOAD + TRAILER_LEN"

datatype MsgType = GetParams | GetSources | GetPar | SetPar | SetBlock | Commit
  | StreamSetup | StreamStart | StreamStop | Status | MsgError

fun msg_type_u8 :: "MsgType \<Rightarrow> u8" where
  "msg_type_u8 GetParams = 1"
| "msg_type_u8 GetSources = 2"
| "msg_type_u8 GetPar = 3"
| "msg_type_u8 SetPar = 4"
| "msg_type_u8 SetBlock = 5"
| "msg_type_u8 Commit = 6"
| "msg_type_u8 StreamSetup = 7"
| "msg_type_u8 StreamStart = 8"
| "msg_type_u8 StreamStop = 9"
| "msg_type_u8 Status = 10"
| "msg_type_u8 MsgError = 0xFF"

definition msg_type_from_u8 :: "u8 \<Rightarrow> MsgType option" where
  "msg_type_from_u8 v =
     (if v = 1 then Some GetParams
      else if v = 2 then Some GetSources
      else if v = 3 then Some GetPar
      else if v = 4 then Some SetPar
      else if v = 5 then Some SetBlock
      else if v = 6 then Some Commit
      else if v = 7 then Some StreamSetup
      else if v = 8 then Some StreamStart
      else if v = 9 then Some StreamStop
      else if v = 10 then Some Status
      else if v = 0xFF then Some MsgError
      else None)"

datatype FrameError = BadMagic | BadCrc | TooLong | Truncated

definition encode :: "bytes \<Rightarrow> u8 \<Rightarrow> u8 \<Rightarrow> bytes \<Rightarrow> FrameError + (bytes \<times> nat)" where
  "encode buf msg_type seq payload =
     (let n = length payload; total = HEADER_LEN + n + TRAILER_LEN
      in if n > MAX_PAYLOAD then Inl TooLong
         else if length buf < total then Inl Truncated
         else
           let b0 = copy_at buf 0 (u16_to_le MAGIC);
               b1 = b0[2 := msg_type];
               b2 = b1[3 := seq];
               b3 = copy_at b2 4 (u16_to_le (of_nat n));
               b4 = copy_at b3 6 payload;
               crc = crc16 (subslice b4 2 (6 + n))
           in Inr (copy_at b4 (6 + n) (u16_to_le crc), total))"

definition decode :: "bytes \<Rightarrow> FrameError + (u8 \<times> u8 \<times> bytes)" where
  "decode buf =
     (if length buf < HEADER_LEN + TRAILER_LEN then Inl Truncated
      else if subslice buf 0 2 \<noteq> u16_to_le MAGIC then Inl BadMagic
      else
        let len = unat (u16_from_le (buf ! 4) (buf ! 5))
        in if len > MAX_PAYLOAD then Inl TooLong
           else if length buf \<noteq> HEADER_LEN + len + TRAILER_LEN then Inl Truncated
           else
             let crc_stored = u16_from_le (buf ! (HEADER_LEN + len)) (buf ! (HEADER_LEN + len + 1))
             in if crc16 (subslice buf 2 (HEADER_LEN + len)) \<noteq> crc_stored then Inl BadCrc
                else Inr (buf ! 2, buf ! 3, subslice buf HEADER_LEN (HEADER_LEN + len)))"

text \<open>The layout of the wire table, as one byte string: what a frame is.\<close>

definition frame_body :: "u8 \<Rightarrow> u8 \<Rightarrow> bytes \<Rightarrow> bytes" where
  "frame_body ty seq payload = ty # seq # u16_to_le (of_nat (length payload)) @ payload"

definition frame_bytes :: "u8 \<Rightarrow> u8 \<Rightarrow> bytes \<Rightarrow> bytes" where
  "frame_bytes ty seq payload =
     u16_to_le MAGIC @ frame_body ty seq payload @ u16_to_le (crc16 (frame_body ty seq payload))"

lemmas frame_consts = HEADER_LEN_def TRAILER_LEN_def MAX_PAYLOAD_def MAX_FRAME_def

subsection \<open>Enumerations round trip\<close>

lemma msg_type_roundtrip [codec_simps]: "msg_type_from_u8 (msg_type_u8 m) = Some m"
  by (cases m) (simp_all add: msg_type_from_u8_def)

lemma msg_type_from_u8_Some: "msg_type_from_u8 v = Some m \<longleftrightarrow> v = msg_type_u8 m"
  by (cases m) (auto simp: msg_type_from_u8_def split: if_splits)

lemma param_type_roundtrip [codec_simps]: "param_type_from_code (param_type_code t) = Some t"
  by (cases t) (simp_all add: param_type_from_code_def)

lemma param_type_size_pos [simp]: "0 < param_type_size t" "param_type_size t \<le> 4"
  by (cases t; simp)+

subsection \<open>The CRC distinguishes any one changed byte\<close>

lemma crc_bit_test: "(crc :: u16) AND 0x8000 \<noteq> 0 \<longleftrightarrow> bit crc 15"
  using and_exp_eq_0_iff_not_bit [of crc 15] by simp

lemma crc_bit_low: "bit (crc_bit c) 0 \<longleftrightarrow> bit c 15"
proof -
  have "bit (push_bit 1 c XOR 0x1021 :: u16) 0" by (simp only: bit_xor_iff bit_push_bit_iff) simp
  moreover have "\<not> bit (push_bit 1 c) 0" by (simp only: bit_push_bit_iff) simp
  ultimately show ?thesis unfolding crc_bit_def crc_bit_test by simp
qed

lemma inj_crc_bit: "inj crc_bit"
proof (rule injI)
  fix a b :: u16
  assume e: "crc_bit a = crc_bit b"
  then have top: "bit a 15 = bit b 15" using crc_bit_low by metis
  with e have p: "push_bit 1 a = (push_bit 1 b :: u16)"
    unfolding crc_bit_def crc_bit_test by (cases "bit b 15") (simp_all add: xor_right_cancel)
  show "a = b"
  proof (rule bit_word_eqI)
    fix n assume n: "n < LENGTH(16)"
    show "bit a n = bit b n"
    proof (cases "n = 15")
      case True
      with top show ?thesis by simp
    next
      case False
      have "bit (push_bit 1 a :: u16) (Suc n) = bit (push_bit 1 b :: u16) (Suc n)"
        by (simp only: p)
      with n False show ?thesis by (simp only: bit_push_bit_iff) simp
    qed
  qed
qed

lemma inj_crc_bit_pow: "inj (crc_bit ^^ n)"
  by (rule inj_fn [OF inj_crc_bit])

lemma crc_byte_state_inject: "crc_byte c b = crc_byte c' b \<longleftrightarrow> c = c'"
proof -
  have "crc_byte c b = crc_byte c' b \<longleftrightarrow> c XOR push_bit 8 (ucast b) = c' XOR push_bit 8 (ucast b)"
    unfolding crc_byte_def by (rule inj_eq [OF inj_crc_bit_pow])
  then show ?thesis by (simp only: xor_right_cancel)
qed

lemma crc_byte_data_inject: "crc_byte c b = crc_byte c b' \<longleftrightarrow> b = b'"
proof -
  have "crc_byte c b = crc_byte c b' \<longleftrightarrow>
      c XOR push_bit 8 (ucast b) = c XOR push_bit 8 (ucast b' :: u16)"
    unfolding crc_byte_def by (rule inj_eq [OF inj_crc_bit_pow])
  also have "\<dots> \<longleftrightarrow> push_bit 8 (ucast b :: u16) = push_bit 8 (ucast b')"
    by (rule xor_left_cancel)
  also have "\<dots> \<longleftrightarrow> b = b'"
  proof
    assume p: "push_bit 8 (ucast b :: u16) = push_bit 8 (ucast b')"
    show "b = b'"
    proof (rule bit_word_eqI)
      fix n assume n: "n < LENGTH(8)"
      have "bit (push_bit 8 (ucast b :: u16)) (n + 8) = bit (push_bit 8 (ucast b' :: u16)) (n + 8)"
        by (simp only: p)
      with n show "bit b n = bit b' n" by (simp only: bit_push_bit_iff bit_unsigned_iff) simp
    qed
  qed simp
  finally show ?thesis .
qed

lemma crc_fold_state_inject: "foldl crc_byte c xs = foldl crc_byte c' xs \<longleftrightarrow> c = c'"
  by (induction xs arbitrary: c c') (auto simp: crc_byte_state_inject)

lemma crc16_one_byte:
  assumes "x \<noteq> y"
  shows "crc16 (xs @ x # ys) \<noteq> crc16 (xs @ y # ys)"
  using assms by (simp add: crc16_def crc_fold_state_inject crc_byte_data_inject)

lemma crc16_list_update:
  assumes "i < length xs" "v \<noteq> xs ! i"
  shows "crc16 (xs[i := v]) \<noteq> crc16 xs"
proof -
  have "xs[i := v] = take i xs @ v # drop (Suc i) xs" using assms(1) by (rule upd_conv_take_nth_drop)
  moreover have "xs = take i xs @ xs ! i # drop (Suc i) xs"
    using assms(1) by (rule id_take_nth_drop)
  ultimately show ?thesis using crc16_one_byte [OF assms(2)] by metis
qed

subsection \<open>Encoding writes exactly the wire layout\<close>

lemma length_frame_bytes [simp]: "length (frame_bytes ty seq pl) = HEADER_LEN + length pl + TRAILER_LEN"
  by (simp add: frame_bytes_def frame_body_def frame_consts)

lemma length_frame_body [simp]: "length (frame_body ty seq pl) = 4 + length pl"
  by (simp add: frame_body_def)

lemma encode_ok:
  assumes "length pl \<le> MAX_PAYLOAD" "HEADER_LEN + length pl + TRAILER_LEN \<le> length buf"
  shows "encode buf ty seq pl =
    Inr (copy_at buf 0 (frame_bytes ty seq pl), HEADER_LEN + length pl + TRAILER_LEN)"
proof -
  let ?m = "u16_to_le MAGIC" and ?l = "u16_to_le (of_nat (length pl))"
  have "copy_at (copy_at ((copy_at buf 0 ?m)[2 := ty, 3 := seq]) 4 ?l) 6 pl
      = copy_at buf 0 (?m @ frame_body ty seq pl)"
    using assms(2)
    by (simp add: update_copy_at_extend copy_at_extend frame_consts frame_body_def)
  moreover have "subslice (copy_at buf 0 (?m @ frame_body ty seq pl)) 2 (6 + length pl)
      = frame_body ty seq pl"
    by (simp add: subslice_copy_at_0 subslice_append_end)
  moreover have "copy_at (copy_at buf 0 (?m @ frame_body ty seq pl)) (6 + length pl)
      (u16_to_le (crc16 (frame_body ty seq pl))) = copy_at buf 0 (frame_bytes ty seq pl)"
    using assms(2) by (simp add: copy_at_extend frame_consts frame_bytes_def)
  ultimately show ?thesis
    using assms by (simp add: encode_def Let_def)
qed

lemma encode_error_iff:
  "encode buf ty seq pl = Inl e \<longleftrightarrow>
     (e = TooLong \<and> MAX_PAYLOAD < length pl) \<or>
     (e = Truncated \<and> length pl \<le> MAX_PAYLOAD \<and> length buf < HEADER_LEN + length pl + TRAILER_LEN)"
  by (auto simp: encode_def Let_def)

subsection \<open>Decoding inverts encoding, and accepts nothing else\<close>

lemma subslice_frame_body: "subslice (frame_bytes ty seq pl) 2 (6 + length pl) = frame_body ty seq pl"
  by (simp add: frame_bytes_def subslice_append)

lemma decode_frame_bytes:
  assumes "length pl \<le> MAX_PAYLOAD"
  shows "decode (frame_bytes ty seq pl) = Inr (ty, seq, pl)"
proof -
  let ?f = "frame_bytes ty seq pl" and ?n = "length pl" and ?crc = "crc16 (frame_body ty seq pl)"
  have nth: "?f ! 2 = ty" "?f ! 3 = seq" "?f ! 4 = ucast (of_nat ?n :: u16)"
    "?f ! 5 = ucast (drop_bit 8 (of_nat ?n :: u16))"
    "?f ! (6 + ?n) = ucast ?crc" "?f ! (7 + ?n) = ucast (drop_bit 8 ?crc)"
    by (simp_all add: frame_bytes_def frame_body_def u16_to_le_def nth_append)
  have body: "subslice ?f 2 (6 + ?n) = frame_body ty seq pl" by (rule subslice_frame_body)
  have pl: "subslice ?f 6 (6 + ?n) = pl"
    by (simp add: frame_bytes_def frame_body_def subslice_def u16_to_le_def)
  have magic: "subslice ?f 0 2 = u16_to_le MAGIC" by (simp add: frame_bytes_def subslice_def)
  have len: "unat (of_nat ?n :: u16) = ?n" using assms by (simp add: frame_consts)
  show ?thesis
    using assms by (simp add: decode_def Let_def frame_consts nth body pl magic len)
qed

lemma decode_sound:
  assumes "decode buf = Inr (ty, seq, pl)"
  shows "buf = frame_bytes ty seq pl" "length pl \<le> MAX_PAYLOAD"
proof -
  define n where "n = unat (u16_from_le (buf ! 4) (buf ! 5))"
  have d: "length buf = 8 + n" "n \<le> 1024" "subslice buf 0 2 = u16_to_le MAGIC"
    "crc16 (subslice buf 2 (6 + n)) = u16_from_le (buf ! (6 + n)) (buf ! (7 + n))"
    "ty = buf ! 2" "seq = buf ! 3" "pl = subslice buf 6 (6 + n)"
    using assms by (auto simp: decode_def Let_def frame_consts n_def split: if_splits)
  then have len: "length pl = n" by simp
  then show "length pl \<le> MAX_PAYLOAD" using d by (simp add: frame_consts)
  have lb: "u16_to_le (of_nat n) = [buf ! 4, buf ! 5]"
    unfolding n_def by simp
  have body: "subslice buf 2 (6 + n) = frame_body ty seq pl"
    using d by (simp add: frame_body_def len lb subslice_Cons eval_nat_numeral)
  have trail: "subslice buf (6 + n) (8 + n) = u16_to_le (crc16 (frame_body ty seq pl))"
  proof -
    have "u16_to_le (crc16 (frame_body ty seq pl)) = [buf ! (6 + n), buf ! (7 + n)]"
      unfolding body [symmetric] d(4) by simp
    then show ?thesis using d(1) by (simp add: subslice_Cons)
  qed
  have "buf = subslice buf 0 2 @ subslice buf 2 (6 + n) @ subslice buf (6 + n) (8 + n)"
    using subslice_split [of 0 2 "8 + n" buf] subslice_split [of 2 "6 + n" "8 + n" buf]
      subslice_all [of buf] d(1) by simp
  then show "buf = frame_bytes ty seq pl" by (simp add: frame_bytes_def d body trail)
qed

lemma frame_bytes_parts:
  "subslice (frame_bytes ty seq pl) 0 2 = u16_to_le MAGIC"
  "subslice (frame_bytes ty seq pl) (6 + length pl) (8 + length pl)
    = u16_to_le (crc16 (frame_body ty seq pl))"
  using subslice_append_end [of "6 + length pl" "u16_to_le MAGIC @ frame_body ty seq pl"
      "8 + length pl" "u16_to_le (crc16 (frame_body ty seq pl))"]
  by (simp_all add: frame_bytes_def subslice_def)

lemma frame_bytes_isolated:
  assumes ch: "(frame_bytes ty seq pl)[i := v] = frame_bytes ty' seq' pl'"
    and i: "i < length (frame_bytes ty seq pl)"
  shows "v = frame_bytes ty seq pl ! i"
proof (rule ccontr)
  let ?f = "frame_bytes ty seq pl" and ?g = "frame_bytes ty' seq' pl'" and ?n = "length pl"
  assume v: "v \<noteq> ?f ! i"
  have n: "length pl' = ?n" using arg_cong [OF ch, of length] by (simp add: frame_consts)
  have i8: "i < 8 + ?n" using i by (simp add: frame_consts)
  have ne: "subslice ?g a b \<noteq> subslice ?f a b" if "a \<le> i" "i < b" "b \<le> 8 + ?n" for a b
  proof -
    have "subslice ?g a b ! (i - a) = v" "subslice ?f a b ! (i - a) = ?f ! i"
      using that i8 n v by (simp_all add: ch [symmetric] frame_consts)
    then show ?thesis using v by metis
  qed
  have same: "subslice ?g a b = subslice ?f a b" if "i < a \<or> b \<le> i" for a b
    using that by (simp add: ch [symmetric] subslice_update_other)
  consider "i < 2" | "2 \<le> i" "i < 6 + ?n" | "6 + ?n \<le> i" by linarith
  then show False
  proof cases
    case 1
    then show ?thesis using ne [of 0 2] frame_bytes_parts(1) by simp
  next
    case 2
    have "frame_body ty' seq' pl' = (frame_body ty seq pl)[i - 2 := v]"
      using 2 subslice_update_in [of 2 i "6 + ?n" ?f v] n
        subslice_frame_body [of ty seq pl] subslice_frame_body [of ty' seq' pl']
      by (simp add: ch frame_consts)
    moreover have "frame_body ty seq pl ! (i - 2) = ?f ! i"
    proof -
      have "Suc (Suc (i - 2)) = i" using 2 by simp
      then show ?thesis
        using 2 nth_subslice [of 2 "6 + ?n" ?f "i - 2"] by (simp add: subslice_frame_body frame_consts)
    qed
    ultimately have "crc16 (frame_body ty' seq' pl') \<noteq> crc16 (frame_body ty seq pl)"
      using 2 v crc16_list_update [of "i - 2" "frame_body ty seq pl" v] by simp
    moreover have "u16_to_le (crc16 (frame_body ty' seq' pl')) = u16_to_le (crc16 (frame_body ty seq pl))"
      using same [of "6 + ?n" "8 + ?n"] 2 n frame_bytes_parts(2) by metis
    ultimately show ?thesis by (simp add: u16_to_le_inject)
  next
    case 3
    then have "frame_body ty' seq' pl' = frame_body ty seq pl"
      using same [of 2 "6 + ?n"] n subslice_frame_body by metis
    then have "subslice ?g (6 + ?n) (8 + ?n) = subslice ?f (6 + ?n) (8 + ?n)"
      using frame_bytes_parts(2) n by metis
    then show ?thesis using ne [of "6 + ?n" "8 + ?n"] 3 i8 by simp
  qed
qed

subsection \<open>Properties of the framing\<close>

text \<open>
  Whatever buffer it is given, if the payload is within \<open>MAX_PAYLOAD\<close> and the buffer holds the
  frame, \<open>encode\<close> succeeds, writes only the first \<open>total\<close> bytes, and the bytes it wrote decode back
  to the same type, sequence number and payload.
\<close>

theorem encode_decode_roundtrip:
  assumes "length pl \<le> MAX_PAYLOAD" "HEADER_LEN + length pl + TRAILER_LEN \<le> length buf"
  shows "\<exists>out total. encode buf ty seq pl = Inr (out, total) \<and> length out = length buf
    \<and> total = HEADER_LEN + length pl + TRAILER_LEN \<and> drop total out = drop total buf
    \<and> decode (take total out) = Inr (ty, seq, pl)"
proof -
  let ?f = "frame_bytes ty seq pl" and ?t = "HEADER_LEN + length pl + TRAILER_LEN"
  have "take ?t (copy_at buf 0 ?f) = ?f" using take_copy_at_0 [of ?f buf] by simp
  moreover have "drop ?t (copy_at buf 0 ?f) = drop ?t buf" by (simp add: copy_at_def)
  moreover have "length (copy_at buf 0 ?f) = length buf" using assms(2) by simp
  ultimately show ?thesis using encode_ok [OF assms] decode_frame_bytes [OF assms(1)] by simp
qed

theorem encode_decode_roundtrip_witness:
  "\<exists>out total. encode (replicate 16 0) 3 7 [1, 0, 2] = Inr (out, total)
    \<and> decode (take total out) = Inr (3, 7, [1, 0, 2])"
  using encode_decode_roundtrip [of "[1, 0, 2]" "replicate 16 0" 3 7] by (auto simp: frame_consts)

text \<open>
  C39: \<open>decode\<close> accepts a buffer exactly when it is the wire layout of the returned type, sequence
  number and payload (magic, header, payload, CRC of everything after the magic) with a payload
  within \<open>MAX_PAYLOAD\<close>; so a decoded message determines its bytes.
\<close>

theorem decode_accepts_iff_frame:
  "decode buf = Inr (ty, seq, pl) \<longleftrightarrow> buf = frame_bytes ty seq pl \<and> length pl \<le> MAX_PAYLOAD"
  using decode_sound decode_frame_bytes by blast

text \<open>
  C40: a frame in which any one byte was changed, whichever byte and whatever its new value, is
  rejected: the CRC (or the magic, or the length check) catches every single-byte corruption.
\<close>

theorem decode_rejects_one_byte_corruption:
  assumes "decode buf = Inr msg" "i < length buf" "v \<noteq> buf ! i"
  shows "\<exists>e. decode (buf[i := v]) = Inl e"
proof (cases "decode (buf[i := v])")
  case (Inr msg')
  obtain ty seq pl ty' seq' pl' where "msg = (ty, seq, pl)" "msg' = (ty', seq', pl')"
    by (metis prod.exhaust)
  then have "buf = frame_bytes ty seq pl" "buf[i := v] = frame_bytes ty' seq' pl'"
    using assms(1) Inr decode_sound by metis+
  then show ?thesis using frame_bytes_isolated assms(2,3) by metis
qed simp

theorem decode_rejects_one_byte_corruption_witness:
  "\<exists>e. decode ((frame_bytes 3 7 [1, 2])[6 := 9]) = Inl e"
  by (rule decode_rejects_one_byte_corruption [OF decode_frame_bytes])
    (simp_all add: frame_consts frame_bytes_def frame_body_def u16_to_le_def)

end
