(* ===== verification/Proto_Payload.thy ===== *)
theory Proto_Payload
  imports Proto_Frame
begin

text \<open>
  The variable-length control payloads of \<open>helic-proto/src/payload.rs\<close>: parameter definitions and
  their pages, source descriptions, block writes and commits. A \<open>&str\<close> is its bytes. The registry
  callback of \<open>encode_param_page\<close> is the function \<open>definition\<close> from an index to its entry.
\<close>

definition MAX_PARAM_NAME_LEN :: nat where "MAX_PARAM_NAME_LEN = 23"
definition MAX_NAME_LEN :: nat where "MAX_NAME_LEN = 15"
definition MAX_UNIT_LEN :: nat where "MAX_UNIT_LEN = 7"
definition PARAM_PAGE_HEADER_LEN :: nat where "PARAM_PAGE_HEADER_LEN = 4"

lemmas payload_consts = MAX_PARAM_NAME_LEN_def MAX_NAME_LEN_def MAX_UNIT_LEN_def
  PARAM_PAGE_HEADER_LEN_def

datatype PayloadError = InvalidText | InvalidIndex | InvalidLength | PayloadTooLong
  | PayloadTruncated

type_synonym param_entry = "bytes \<times> ParamType \<times> u16 \<times> bool"

definition decode_param_page_request :: "bytes \<Rightarrow> PayloadError + u16" where
  "decode_param_page_request payload =
     (if length payload \<noteq> 2 then Inl InvalidLength
      else Inr (u16_from_le (payload ! 0) (payload ! 1)))"

definition encode_param ::
  "bytes \<Rightarrow> bytes \<Rightarrow> ParamType \<Rightarrow> u16 \<Rightarrow> bool \<Rightarrow> PayloadError + (bytes \<times> nat)" where
  "encode_param out name ty count writable =
     (let n = length name + 5
      in if length name > MAX_PARAM_NAME_LEN \<or> \<not> is_ascii name then Inl InvalidText
         else if length out < n then Inl PayloadTooLong
         else
           let o1 = copy_at out 0 name;
               o2 = o1[length name := 0];
               o3 = o2[length name + 1 := param_type_code ty];
               o4 = copy_at o3 (length name + 2) (u16_to_le count);
               o5 = o4[length name + 4 := (if writable then 1 else 0)]
           in Inr (o5, n))"

text \<open>The \<open>while next < total\<close> loop of \<open>encode_param_page\<close>.\<close>

function param_page_loop ::
  "(u16 \<Rightarrow> param_entry option) \<Rightarrow> u16 \<Rightarrow> u16 \<Rightarrow> nat \<Rightarrow> bytes \<Rightarrow> PayloadError + (bytes \<times> u16 \<times> nat)"
where
  "param_page_loop defn tot next offset out =
     (if next < tot then
        (case defn next of
           None \<Rightarrow> Inl InvalidIndex
         | Some (name, ty, count, writable) \<Rightarrow>
             if length name > MAX_PARAM_NAME_LEN \<or> \<not> is_ascii name then Inl InvalidText
             else if length out - offset < length name + 5 then Inr (out, next, offset)
             else
               (case encode_param (drop offset out) name ty count writable of
                  Inl e \<Rightarrow> Inl e
                | Inr (rest, n) \<Rightarrow>
                    param_page_loop defn tot (next + 1) (offset + n) (take offset out @ rest)))
      else Inr (out, next, offset))"
  by pat_completeness auto
termination
  by (relation "measure (\<lambda>(_, tot, next, _, _). unat tot - unat next)")
    (auto simp: unat_Suc_less word_less_nat_alt intro: diff_less_mono2)

definition encode_param_page ::
  "bytes \<Rightarrow> u16 \<Rightarrow> u16 \<Rightarrow> (u16 \<Rightarrow> param_entry option) \<Rightarrow> PayloadError + (bytes \<times> nat)" where
  "encode_param_page out start tot defn =
     (if start > tot then Inl InvalidIndex
      else if length out < PARAM_PAGE_HEADER_LEN then Inl PayloadTooLong
      else
        try_bind (param_page_loop defn tot start PARAM_PAGE_HEADER_LEN
                    (copy_at out 0 (u16_to_le start)))
          (\<lambda>(out', next, offset).
             if next = start \<and> start < tot then Inl PayloadTooLong
             else Inr (copy_at out' 2 (u16_to_le next), offset)))"

definition decode_param_page :: "bytes \<Rightarrow> PayloadError + (u16 \<times> u16 \<times> bytes)" where
  "decode_param_page payload =
     (if length payload < PARAM_PAGE_HEADER_LEN then Inl PayloadTruncated
      else
        let start = u16_from_le (payload ! 0) (payload ! 1);
            next = u16_from_le (payload ! 2) (payload ! 3)
        in if next < start then Inl InvalidIndex
           else Inr (start, next, drop PARAM_PAGE_HEADER_LEN payload))"

definition encode_source :: "bytes \<Rightarrow> bytes \<Rightarrow> bytes \<Rightarrow> PayloadError + (bytes \<times> nat)" where
  "encode_source out name unit =
     (let n = length name + length unit + 2
      in if length name > MAX_NAME_LEN \<or> length unit > MAX_UNIT_LEN
            \<or> \<not> is_ascii name \<or> \<not> is_ascii unit
         then Inl InvalidText
         else if length out < n then Inl PayloadTooLong
         else
           let o1 = copy_at out 0 name;
               o2 = o1[length name := 0];
               unit_start = length name + 1;
               o3 = copy_at o2 unit_start unit;
               o4 = o3[n - 1 := 0]
           in Inr (o4, n))"

definition decode_set_block :: "bytes \<Rightarrow> PayloadError + (u16 \<times> u32 \<times> bytes)" where
  "decode_set_block payload =
     (if length payload < 6 then Inl PayloadTruncated
      else Inr (u16_from_le (payload ! 0) (payload ! 1),
                u32_from_le (payload ! 2) (payload ! 3) (payload ! 4) (payload ! 5),
                drop 6 payload))"

definition decode_commit :: "bytes \<Rightarrow> PayloadError + (u16 \<times> u32)" where
  "decode_commit payload =
     (if length payload \<noteq> 6 then Inl PayloadTruncated
      else Inr (u16_from_le (payload ! 0) (payload ! 1),
                u32_from_le (payload ! 2) (payload ! 3) (payload ! 4) (payload ! 5)))"

subsection \<open>The layouts as byte strings\<close>

fun param_bytes :: "param_entry \<Rightarrow> bytes" where
  "param_bytes (name, ty, count, writable) =
     name @ [0, param_type_code ty] @ u16_to_le count @ [if writable then 1 else 0]"

definition source_bytes :: "bytes \<Rightarrow> bytes \<Rightarrow> bytes" where
  "source_bytes name unit = name @ [0] @ unit @ [0]"

fun valid_entry :: "param_entry \<Rightarrow> bool" where
  "valid_entry (name, ty, count, writable) \<longleftrightarrow> length name \<le> MAX_PARAM_NAME_LEN \<and> is_ascii name"

definition page_entries :: "(u16 \<Rightarrow> param_entry option) \<Rightarrow> nat \<Rightarrow> nat \<Rightarrow> bytes" where
  "page_entries defn a b = concat (map (\<lambda>i. param_bytes (the (defn (of_nat i)))) [a..<b])"

lemma length_param_bytes: "length (param_bytes (name, ty, count, writable)) = length name + 5"
  by simp

lemma encode_param_ok:
  assumes "valid_entry (name, ty, count, writable)" "length name + 5 \<le> length out"
  shows "encode_param out name ty count writable =
    Inr (copy_at out 0 (param_bytes (name, ty, count, writable)), length name + 5)"
  using assms by (simp add: encode_param_def Let_def update_copy_at_extend copy_at_extend)

lemma encode_source_ok:
  assumes "length name \<le> MAX_NAME_LEN" "length unit \<le> MAX_UNIT_LEN" "is_ascii name" "is_ascii unit"
    and "length name + length unit + 2 \<le> length out"
  shows "encode_source out name unit =
    Inr (copy_at out 0 (source_bytes name unit), length name + length unit + 2)"
  using assms
  by (simp add: encode_source_def Let_def update_copy_at_extend copy_at_extend source_bytes_def)

subsection \<open>A page holds the longest run of whole definitions that fits\<close>

declare param_page_loop.simps [simp del]

lemma page_entries_Suc:
  "a < b \<Longrightarrow> page_entries defn a b = param_bytes (the (defn (of_nat a))) @ page_entries defn (Suc a) b"
  by (simp add: page_entries_def upt_conv_Cons)

lemma page_entries_empty [simp]: "page_entries defn a a = []"
  by (simp add: page_entries_def)

definition page_full :: "(u16 \<Rightarrow> param_entry option) \<Rightarrow> u16 \<Rightarrow> nat \<Rightarrow> nat \<Rightarrow> bool" where
  "page_full defn next offset room \<longleftrightarrow> room - offset < length (param_bytes (the (defn next)))"

lemma param_page_loop_spec:
  assumes "offset \<le> length out" "nxt \<le> tot"
    and "\<And>i. nxt \<le> i \<Longrightarrow> i < tot \<Longrightarrow> \<exists>e. defn i = Some e \<and> valid_entry e"
  shows "\<exists>out' nxt' offset'. param_page_loop defn tot nxt offset out = Inr (out', nxt', offset')
    \<and> nxt \<le> nxt' \<and> nxt' \<le> tot \<and> length out' = length out \<and> offset' \<le> length out
    \<and> offset \<le> offset'
    \<and> take offset' out' = take offset out @ page_entries defn (unat nxt) (unat nxt')
    \<and> (nxt' = tot \<or> page_full defn nxt' offset' (length out))"
  using assms
proof (induction defn tot nxt offset out rule: param_page_loop.induct)
  case (1 defn tot nxt offset out)
  show ?case
  proof (cases "nxt < tot")
    case False
    with 1(3) have "nxt = tot" by simp
    with 1(2) False show ?thesis by (simp add: param_page_loop.simps [of defn tot tot])
  next
    case True
    obtain name ty count w where e: "defn nxt = Some (name, ty, count, w)"
      and v: "valid_entry (name, ty, count, w)"
      using 1(4) [of nxt] True by auto
    show ?thesis
    proof (cases "length out - offset < length name + 5")
      case True
      with \<open>nxt < tot\<close> e v 1(2) show ?thesis
        by (simp add: param_page_loop.simps [of defn tot nxt] page_full_def)
    next
      case fits: False
      let ?pb = "param_bytes (name, ty, count, w)"
      let ?rest = "copy_at (drop offset out) 0 ?pb"
      let ?out = "take offset out @ ?rest" and ?off = "offset + (length name + 5)"
      have enc: "encode_param (drop offset out) name ty count w = Inr (?rest, length name + 5)"
        using encode_param_ok [OF v] fits by simp
      have nx: "unat (nxt + 1) = Suc (unat nxt)" by (rule unat_Suc_less [OF True])
      have le: "nxt + 1 \<le> tot" using True nx by (simp add: word_less_nat_alt word_le_nat_alt)
      have len: "length ?out = length out" using fits 1(2) by (simp add: copy_at_def)
      have pos: "nxt \<le> nxt + 1" using nx by (simp add: word_le_nat_alt)
      have "\<exists>out' nxt' offset'. param_page_loop defn tot (nxt + 1) ?off ?out = Inr (out', nxt', offset')
        \<and> nxt + 1 \<le> nxt' \<and> nxt' \<le> tot \<and> length out' = length ?out \<and> offset' \<le> length ?out
        \<and> ?off \<le> offset'
        \<and> take offset' out' = take ?off ?out @ page_entries defn (unat (nxt + 1)) (unat nxt')
        \<and> (nxt' = tot \<or> page_full defn nxt' offset' (length ?out))"
      proof (rule 1(1) [OF True e refl refl refl _ fits enc refl])
        show "\<not> (MAX_PARAM_NAME_LEN < length name \<or> \<not> is_ascii name)" using v by simp
        show "?off \<le> length ?out" unfolding len using fits 1(2) by linarith
        show "nxt + 1 \<le> tot" by (rule le)
        show "\<exists>e. defn i = Some e \<and> valid_entry e" if "nxt + 1 \<le> i" "i < tot" for i
          using 1(4) that pos order_trans by blast
      qed
      then obtain out' nxt' offset' where r:
        "param_page_loop defn tot (nxt + 1) ?off ?out = Inr (out', nxt', offset')"
        "nxt + 1 \<le> nxt'" "nxt' \<le> tot" "length out' = length out" "offset' \<le> length out"
        "?off \<le> offset'"
        "take offset' out' = take ?off ?out @ page_entries defn (Suc (unat nxt)) (unat nxt')"
        "nxt' = tot \<or> page_full defn nxt' offset' (length out)"
        unfolding len nx by blast
      have tk: "take ?off ?out = take offset out @ ?pb"
        using fits 1(2) by (simp add: copy_at_def)
      have "unat nxt < unat nxt'" using r(2) nx by (simp add: word_le_nat_alt)
      then have "take offset' out' = take offset out @ page_entries defn (unat nxt) (unat nxt')"
        unfolding r(7) tk by (simp add: page_entries_Suc e)
      moreover have "param_page_loop defn tot nxt offset out = Inr (out', nxt', offset')"
        using True e v fits enc r(1) by (simp add: param_page_loop.simps [of defn tot nxt])
      moreover have "nxt \<le> nxt'" using pos r(2) by (rule order_trans)
      moreover have "offset \<le> offset'" using r(6) by linarith
      ultimately show ?thesis using r(3-5,8) by blast
    qed
  qed
qed

lemma encode_param_page_spec:
  assumes "start \<le> tot" "PARAM_PAGE_HEADER_LEN + MAX_PARAM_NAME_LEN + 5 \<le> length out"
    and "\<And>i. start \<le> i \<Longrightarrow> i < tot \<Longrightarrow> \<exists>e. defn i = Some e \<and> valid_entry e"
  shows "\<exists>out' nxt len. encode_param_page out start tot defn = Inr (out', len)
    \<and> length out' = length out \<and> len \<le> length out \<and> start \<le> nxt \<and> nxt \<le> tot
    \<and> (start < tot \<longrightarrow> start < nxt)
    \<and> take len out' = u16_to_le start @ u16_to_le nxt @ page_entries defn (unat start) (unat nxt)
    \<and> (nxt = tot \<or> page_full defn nxt len (length out))"
proof -
  let ?o = "copy_at out 0 (u16_to_le start)"
  have room: "32 \<le> length out" using assms(2) by (simp add: payload_consts)
  then have lo: "length ?o = length out" by simp
  obtain out' nxt len where l: "param_page_loop defn tot start 4 ?o = Inr (out', nxt, len)"
    "start \<le> nxt" "nxt \<le> tot" "length out' = length out" "len \<le> length out" "4 \<le> len"
    "take len out' = take 4 ?o @ page_entries defn (unat start) (unat nxt)"
    "nxt = tot \<or> page_full defn nxt len (length out)"
    using param_page_loop_spec [of 4 ?o start tot defn] assms(1,3) room unfolding lo by auto
  have progress: "start < nxt" if less: "start < tot"
  proof (rule ccontr)
    assume "\<not> start < nxt"
    then have "nxt = start" using l(2) by simp
    then have "take len out' = take 4 ?o" using l(7) by simp
    then have "length (take len out') = length (take 4 ?o)" by (rule arg_cong)
    then have "len = 4" using l(4,5) lo room by (simp add: min_def split: if_splits)
    moreover obtain e where "defn start = Some e" "valid_entry e" using assms(3) [of start] less by blast
    moreover have "start \<noteq> tot" using less by simp
    ultimately show False
      using l(8) \<open>nxt = start\<close> room by (cases e) (auto simp: page_full_def payload_consts)
  qed
  let ?out = "copy_at out' 2 (u16_to_le nxt)"
  have "take 2 out' = u16_to_le start"
  proof -
    have "take 2 out' = take 2 (take len out')" using l(6) by (simp add: min_def)
    also have "\<dots> = take 2 ?o" unfolding l(7) using lo room by (simp add: min_def)
    also have "\<dots> = u16_to_le start" using take_copy_at_0 [of "u16_to_le start" out] by simp
    finally show ?thesis .
  qed
  moreover have "drop 4 (take len out') = page_entries defn (unat start) (unat nxt)"
    unfolding l(7) using lo room by simp
  ultimately have "take len ?out =
      u16_to_le start @ u16_to_le nxt @ page_entries defn (unat start) (unat nxt)"
    using l(4,5,6) room by (simp add: copy_at_def drop_take)
  moreover have "encode_param_page out start tot defn = Inr (?out, len)"
    using assms(1) l(1) progress room
    by (fastforce simp: encode_param_page_def payload_consts)
  moreover have "length ?out = length out" using l(4) room by simp
  ultimately show ?thesis using l(2,3,5,8) progress by blast
qed

lemma decode_param_page_encoded:
  assumes "start \<le> nxt"
  shows "decode_param_page (u16_to_le start @ u16_to_le nxt @ defs) = Inr (start, nxt, defs)"
  using assms by (simp add: decode_param_page_def payload_consts u16_to_le_def)

text \<open>
  On a registry whose entries have valid names, and in a buffer that holds the header and one
  longest definition, \<open>encode_param_page\<close> succeeds and fits; the page decodes to the requested start
  and the exclusive next index with exactly the definitions between them, and the page advances
  whenever entries remain, so repeated page requests reach the end of the registry.
\<close>

theorem param_page_roundtrip:
  assumes "start \<le> tot" "PARAM_PAGE_HEADER_LEN + MAX_PARAM_NAME_LEN + 5 \<le> length out"
    and "\<And>i. start \<le> i \<Longrightarrow> i < tot \<Longrightarrow> \<exists>e. defn i = Some e \<and> valid_entry e"
  shows "\<exists>out' nxt len. encode_param_page out start tot defn = Inr (out', len) \<and> len \<le> length out
    \<and> decode_param_page (take len out')
        = Inr (start, nxt, page_entries defn (unat start) (unat nxt))
    \<and> nxt \<le> tot \<and> (start < tot \<longrightarrow> start < nxt)"
proof -
  obtain out' nxt len where e: "encode_param_page out start tot defn = Inr (out', len)"
    "len \<le> length out" "start \<le> nxt" "nxt \<le> tot" "start < tot \<longrightarrow> start < nxt"
    "take len out' = u16_to_le start @ u16_to_le nxt @ page_entries defn (unat start) (unat nxt)"
    using encode_param_page_spec [of start tot out defn] assms by blast
  then show ?thesis using decode_param_page_encoded [OF e(3)] by metis
qed

theorem param_page_roundtrip_witness:
  "\<exists>out' nxt len. encode_param_page (replicate 32 0) 1 3 (\<lambda>i. Some (as_bytes ''gain'', TF32, 1, True))
      = Inr (out', len) \<and> (1 :: u16) < nxt \<and> nxt \<le> 3"
  using param_page_roundtrip [of 1 3 "replicate 32 0" "\<lambda>i. Some (as_bytes ''gain'', TF32, 1, True)"]
  by (simp add: payload_consts as_bytes_def is_ascii_def) blast

end
