(* ===== verification/Rt_Groups.thy ===== *)
theory Rt_Groups
  imports Rt_Safety Wave_Table Proto_Payload
begin

text \<open>
  The parameter groups of \<open>helic-rt/src/params/groups.rs\<close> and the definitions they share
  (\<open>params.rs\<close>). What a group holds by \<open>&'static\<close> reference (the shared atomics, the staging ends of
  the double buffers, the telemetry words) is in the record \<open>world\<close>, which every operation takes and
  returns; what it owns is its own record. \<open>dyn ParamGroup\<close> is the datatype \<open>Group\<close> and its methods
  dispatch on it. \<open>get\<close> returns the bytes written to the first \<open>size\<close> positions of the output.
  \<open>libm::sqrtf\<close>, used by the amplitude bound, is the field \<open>gg_sqrtf\<close>.
\<close>

subsection \<open>Definitions of parameters (params.rs)\<close>

definition coeff_count :: "nat \<Rightarrow> u16" where "coeff_count H = of_nat (1 + 2 * H)"

definition MAX_GROUPS :: nat where "MAX_GROUPS = 8"
definition MAX_CTRL_PARAMS :: nat where "MAX_CTRL_PARAMS = 17"
definition MAX_RIG_PARAMS :: nat where "MAX_RIG_PARAMS = 16"
definition MAX_EXTRA_PARAMS :: nat where "MAX_EXTRA_PARAMS = 16"
definition MAX_HARMONICS :: nat where "MAX_HARMONICS = 16"

datatype ParamKind = PkScalar | PkArray u16 | PkBlob u32

record ParamDef =
  pd_name :: bytes
  pd_ty :: ParamType
  pd_count :: u16
  pd_writable :: bool
  pd_kind :: ParamKind

definition param_read_only :: "bytes \<Rightarrow> ParamType \<Rightarrow> u16 \<Rightarrow> ParamDef" where
  "param_read_only name ty count = \<lparr>pd_name = name, pd_ty = ty, pd_count = count, pd_writable = False,
     pd_kind = (if count = 1 then PkScalar else PkArray count)\<rparr>"

definition param_writable :: "bytes \<Rightarrow> ParamType \<Rightarrow> u16 \<Rightarrow> ParamDef" where
  "param_writable name ty count = \<lparr>pd_name = name, pd_ty = ty, pd_count = count, pd_writable = True,
     pd_kind = (if count = 1 then PkScalar else PkArray count)\<rparr>"

definition param_blob :: "bytes \<Rightarrow> ParamType \<Rightarrow> u16 \<Rightarrow> u32 \<Rightarrow> ParamDef" where
  "param_blob name ty count maximum = \<lparr>pd_name = name, pd_ty = ty, pd_count = count,
     pd_writable = True, pd_kind = PkBlob maximum\<rparr>"

text \<open>An \<open>ExtraParam\<close> refers to its atomic word by its position in the telemetry words.\<close>

record ExtraParam =
  xp_name :: bytes
  xp_ty :: ParamType
  xp_value :: nat
  xp_reset_on_diag :: bool

definition extra_f32 :: "bytes \<Rightarrow> nat \<Rightarrow> ExtraParam" where
  "extra_f32 name value = \<lparr>xp_name = name, xp_ty = TF32, xp_value = value, xp_reset_on_diag = False\<rparr>"

definition extra_u32 :: "bytes \<Rightarrow> nat \<Rightarrow> ExtraParam" where
  "extra_u32 name value = \<lparr>xp_name = name, xp_ty = TU32, xp_value = value, xp_reset_on_diag = False\<rparr>"

definition extra_u32_event :: "bytes \<Rightarrow> nat \<Rightarrow> ExtraParam" where
  "extra_u32_event name value = \<lparr>xp_name = name, xp_ty = TU32, xp_value = value, xp_reset_on_diag = True\<rparr>"

definition extra_def :: "ExtraParam \<Rightarrow> ParamDef" where
  "extra_def x = param_read_only (xp_name x) (xp_ty x) 1"

definition extra_get :: "ExtraParam \<Rightarrow> (nat \<Rightarrow> u32) \<Rightarrow> bytes" where
  "extra_get x words = u32_to_le (words (xp_value x))"

definition extra_reset_diagnostic :: "ExtraParam \<Rightarrow> (nat \<Rightarrow> u32) \<Rightarrow> nat \<Rightarrow> u32" where
  "extra_reset_diagnostic x words = (if xp_reset_on_diag x then words(xp_value x := 0) else words)"

datatype ParamAction = ActNone | ActReboot | ActResetDiagnostics

datatype Staged = StLocal ParamAction | StRt Payload

datatype CommandTarget = ToCore0 | ToRig | ToProgram u8

subsection \<open>What groups refer to\<close>

record world =
  w_shared :: RtShared
  w_target :: "FourierCoeffs DoubleBuffer"
  w_forcing :: "FourierCoeffs DoubleBuffer"
  w_table :: "WaveTable DoubleBuffer"
  w_telemetry :: "nat \<Rightarrow> u32"

subsection \<open>Shared helpers\<close>

definition checked_output :: "ParamDef list \<Rightarrow> u16 \<Rightarrow> nat \<Rightarrow> ErrorCode + nat" where
  "checked_output defs ident out_len =
     (case get_at defs (unat ident) of
        None \<Rightarrow> Inl BadIndex
      | Some def \<Rightarrow>
          let size = param_type_size (pd_ty def) * unat (pd_count def)
          in if out_len < size then Inl BadLength else Inr size)"

definition read_u32 :: "bytes \<Rightarrow> ErrorCode + u32" where
  "read_u32 data =
     (if length data = 4 then Inr (u32_from_le (data ! 0) (data ! 1) (data ! 2) (data ! 3))
      else Inl BadLength)"

definition read_f32 :: "bytes \<Rightarrow> ErrorCode + f32" where
  "read_f32 data =
     (if length data = 4 then Inr (f32_from_le (data ! 0) (data ! 1) (data ! 2) (data ! 3))
      else Inl BadLength)"

definition write_string :: "nat \<Rightarrow> bytes \<Rightarrow> bytes" where
  "write_string n value = map (\<lambda>i. if i < length value then value ! i else 0) [0..<n]"

fun map_buffer_error :: "BufferError \<Rightarrow> ErrorCode" where
  "map_buffer_error BufferBusy = Busy"

definition serialize_coeffs :: "FourierCoeffs \<Rightarrow> bytes \<Rightarrow> bytes" where
  "serialize_coeffs c out =
     (let H = length (fc_a c)
      in foldl (\<lambda>o1 h.
             copy_at (copy_at o1 (4 + 4 * h) (f32_to_le (fc_a c ! h)))
               (4 + 4 * (H + h)) (f32_to_le (fc_b c ! h)))
           (copy_at out 0 (f32_to_le (fc_mean c))) [0..<H])"

definition coeff_value :: "bytes \<Rightarrow> nat \<Rightarrow> f32" where
  "coeff_value data index =
     f32_from_le (data ! (4 * index)) (data ! (4 * index + 1)) (data ! (4 * index + 2))
       (data ! (4 * index + 3))"

definition deserialize_coeffs :: "nat \<Rightarrow> bytes \<Rightarrow> ErrorCode + FourierCoeffs" where
  "deserialize_coeffs H data =
     (if length data \<noteq> (1 + 2 * H) * 4 then Inl BadLength
      else
        let c = \<lparr>fc_mean = coeff_value data 0,
                 fc_a = map (\<lambda>h. coeff_value data (1 + h)) [0..<H],
                 fc_b = map (\<lambda>h. coeff_value data (1 + H + h)) [0..<H]\<rparr>
        in if is_finite (fc_mean c) \<and> list_all is_finite (fc_a c) \<and> list_all is_finite (fc_b c)
           then Inr c else Inl BadValue)"

text \<open>\<open>(lo..hi).contains(&x)\<close> on floats.\<close>

definition f32_in_range :: "f32 \<Rightarrow> f32 \<Rightarrow> f32 \<Rightarrow> bool" where
  "f32_in_range lo hi x \<longleftrightarrow> f32_le lo x \<and> f32_lt x hi"

subsection \<open>Platform group\<close>

definition PLATFORM_PARAMS :: "ParamDef list" where
  "PLATFORM_PARAMS =
     [param_read_only (as_bytes ''firmware'') TChar 16,
      param_read_only (as_bytes ''experiment'') TChar 16,
      param_read_only (as_bytes ''sample_freq'') TF32 1,
      param_read_only (as_bytes ''ticks'') TU32 1,
      param_read_only (as_bytes ''loop_time_last'') TU32 1,
      param_read_only (as_bytes ''loop_time_max'') TU32 1,
      param_read_only (as_bytes ''clock_jitter'') TU32 1,
      param_read_only (as_bytes ''overruns'') TU32 1,
      param_read_only (as_bytes ''tick_timeouts'') TU32 1,
      param_read_only (as_bytes ''records_dropped'') TU32 1,
      param_read_only (as_bytes ''wake_phase_min'') TU32 1,
      param_read_only (as_bytes ''wake_phase_max'') TU32 1,
      param_read_only (as_bytes ''t_measure_max'') TU32 1,
      param_read_only (as_bytes ''t_actuate_max'') TU32 1,
      param_read_only (as_bytes ''t_rest_max'') TU32 1,
      param_writable (as_bytes ''diag_reset'') TU32 1,
      param_read_only (as_bytes ''cmd_backlog_max'') TU32 1,
      param_writable (as_bytes ''arm'') TU32 1,
      param_read_only (as_bytes ''safety'') TU32 1,
      param_writable (as_bytes ''mcu_reboot'') TU32 1,
      param_read_only (as_bytes ''table_len'') TU16 1]"

definition PLATFORM_DIAG_RESET :: u16 where "PLATFORM_DIAG_RESET = 15"
definition PLATFORM_ARM :: u16 where "PLATFORM_ARM = 17"
definition PLATFORM_MCU_REBOOT :: u16 where "PLATFORM_MCU_REBOOT = 19"
definition PLATFORM_TABLE_LEN :: u16 where "PLATFORM_TABLE_LEN = 20"

datatype PlatformPending = PpNone | PpArm bool

record PlatformGroup =
  pg_sample_rate :: SampleRate
  pg_firmware_version :: bytes
  pg_experiment :: bytes
  pg_pending :: PlatformPending

definition platform_new :: "SampleRate \<Rightarrow> bytes \<Rightarrow> bytes \<Rightarrow> PlatformGroup" where
  "platform_new rate firmware experiment = \<lparr>pg_sample_rate = rate, pg_firmware_version = firmware,
     pg_experiment = experiment, pg_pending = PpNone\<rparr>"

definition platform_get :: "world \<Rightarrow> PlatformGroup \<Rightarrow> u16 \<Rightarrow> nat \<Rightarrow> ErrorCode + bytes" where
  "platform_get w g ident out_len =
     try_bind (checked_output PLATFORM_PARAMS ident out_len) (\<lambda>size.
       let sh = w_shared w; lv = sh_live sh; dg = sh_diagnostics sh; sf = sh_safety sh
       in if ident = 0 then Inr (write_string size (pg_firmware_version g))
          else if ident = 1 then Inr (write_string size (pg_experiment g))
          else if ident = 2 then Inr (u32_to_le (to_bits (sr_hz (pg_sample_rate g))))
          else if ident = 3 then Inr (u32_to_le (lv_ticks lv))
          else if ident = 4 then Inr (u32_to_le (lv_loop_time_last_us lv))
          else if ident = 5 then Inr (u32_to_le (dg_loop_time_max_us dg))
          else if ident = 6 then Inr (u32_to_le (dg_clock_jitter_us dg))
          else if ident = 7 then Inr (u32_to_le (dg_overruns dg))
          else if ident = 8 then Inr (u32_to_le (dg_tick_timeouts dg))
          else if ident = 9 then Inr (u32_to_le (dg_records_dropped dg))
          else if ident = 10 then Inr (u32_to_le (dg_wake_phase_min_us dg))
          else if ident = 11 then Inr (u32_to_le (dg_wake_phase_max_us dg))
          else if ident = 12 then Inr (u32_to_le (dg_t_measure_max_us dg))
          else if ident = 13 then Inr (u32_to_le (dg_t_actuate_max_us dg))
          else if ident = 14 then Inr (u32_to_le (dg_t_rest_max_us dg))
          else if ident = PLATFORM_DIAG_RESET \<or> ident = PLATFORM_MCU_REBOOT then Inr (u32_to_le 0)
          else if ident = 16 then Inr (u32_to_le (dg_command_backlog_max dg))
          else if ident = PLATFORM_ARM then Inr (u32_to_le (of_flag (si_armed (load_inputs sf))))
          else if ident = 18 then Inr (u32_to_le (safety_flags sf dg))
          else if ident = PLATFORM_TABLE_LEN then Inr (u16_to_le (ucast (lv_active_table_len lv)))
          else Inl BadIndex)"

definition platform_stage :: "u16 \<Rightarrow> bytes \<Rightarrow> PlatformGroup \<Rightarrow> PlatformGroup \<times> (ErrorCode + Staged)" where
  "platform_stage ident data g =
     (case read_u32 data of
        Inl e \<Rightarrow> (g, Inl e)
      | Inr value \<Rightarrow>
          if ident = PLATFORM_DIAG_RESET
          then (g, Inr (StLocal (if value = 0 then ActNone else ActResetDiagnostics)))
          else if ident = PLATFORM_ARM
          then (g\<lparr>pg_pending := PpArm (value \<noteq> 0)\<rparr>, Inr (StLocal ActNone))
          else if ident = PLATFORM_MCU_REBOOT
          then (g, if value = MCU_REBOOT_CONFIRMATION then Inr (StLocal ActReboot) else Inl BadValue)
          else (g, Inl BadIndex))"

definition platform_accept :: "PlatformGroup \<Rightarrow> world \<Rightarrow> world \<times> PlatformGroup" where
  "platform_accept g w =
     (let g' = g\<lparr>pg_pending := PpNone\<rparr>; sh = w_shared w
      in case pg_pending g of
           PpNone \<Rightarrow> (w, g')
         | PpArm b \<Rightarrow>
             (w\<lparr>w_shared := sh\<lparr>sh_safety :=
                 (if b then arm (sh_safety sh) else disarm (sh_safety sh))\<rparr>\<rparr>, g'))"

definition platform_reject :: "PlatformGroup \<Rightarrow> PlatformGroup" where
  "platform_reject g = g\<lparr>pg_pending := PpNone\<rparr>"

definition platform_reset_diagnostics :: "world \<Rightarrow> world" where
  "platform_reset_diagnostics w =
     w\<lparr>w_shared := (w_shared w)\<lparr>sh_diagnostics := diagnostics_reset (sh_diagnostics (w_shared w))\<rparr>\<rparr>"

subsection \<open>Generator group\<close>

definition generator_params :: "nat \<Rightarrow> ParamDef list" where
  "generator_params H =
     [param_writable (as_bytes ''freq'') TF32 1,
      param_writable (as_bytes ''target_coeffs'') TF32 (of_nat (1 + 2 * H)),
      param_writable (as_bytes ''forcing_coeffs'') TF32 (of_nat (1 + 2 * H))]"

datatype GeneratorPending = GpNone | GpFrequency f32 | GpTarget FourierCoeffs | GpForcing FourierCoeffs

record GeneratorGroup =
  gg_H :: nat
  gg_defs :: "ParamDef list"
  gg_sample_rate :: SampleRate
  gg_frequency :: f32
  gg_target :: FourierCoeffs
  gg_forcing :: FourierCoeffs
  gg_forcing_amplitude_limit :: f32
  gg_pending :: GeneratorPending
  gg_sqrtf :: "f32 \<Rightarrow> f32"

definition generator_group_new :: "(f32 \<Rightarrow> f32) \<Rightarrow> nat \<Rightarrow> SampleRate \<Rightarrow> GeneratorGroup option" where
  "generator_group_new sqrtf H rate =
     (if \<not> H \<le> MAX_HARMONICS then None
      else Some \<lparr>gg_H = H, gg_defs = generator_params H, gg_sample_rate = rate, gg_frequency = f32_0,
                 gg_target = coeffs_zero H, gg_forcing = coeffs_zero H,
                 gg_forcing_amplitude_limit = from_bits 0x7F7FFFFF, gg_pending = GpNone,
                 gg_sqrtf = sqrtf\<rparr>)"

definition set_forcing_amplitude_limit :: "f32 \<Rightarrow> GeneratorGroup \<Rightarrow> GeneratorGroup option" where
  "set_forcing_amplitude_limit limit g =
     (if is_finite limit \<and> f32_le f32_0 limit then Some (g\<lparr>gg_forcing_amplitude_limit := limit\<rparr>) else None)"

definition generator_get :: "GeneratorGroup \<Rightarrow> u16 \<Rightarrow> nat \<Rightarrow> ErrorCode + bytes" where
  "generator_get g ident out_len =
     try_bind (checked_output (gg_defs g) ident out_len) (\<lambda>size.
       if ident = 0 then Inr (f32_to_le (gg_frequency g))
       else if ident = 1 then Inr (serialize_coeffs (gg_target g) (replicate size 0))
       else if ident = 2 then Inr (serialize_coeffs (gg_forcing g) (replicate size 0))
       else Inl BadIndex)"

text \<open>\<open>*buffer.buffer()? = value; buffer.commit()?\<close> on one staging endpoint.\<close>

definition stage_value :: "'a \<Rightarrow> 'a DoubleBuffer \<Rightarrow> 'a DoubleBuffer \<times> (ErrorCode + CommitToken)" where
  "stage_value v buf =
     (case staging_buffer buf of
        Inl e \<Rightarrow> (buf, Inl (map_buffer_error e))
      | Inr bank \<Rightarrow>
          let buf1 = write_bank bank (\<lambda>_. v) buf
          in case commit buf1 of
               Inl e \<Rightarrow> (buf1, Inl (map_buffer_error e))
             | Inr (buf2, token) \<Rightarrow> (buf2, Inr token))"

definition generator_stage ::
  "u16 \<Rightarrow> bytes \<Rightarrow> world \<Rightarrow> GeneratorGroup \<Rightarrow> (world \<times> GeneratorGroup) \<times> (ErrorCode + Staged)" where
  "generator_stage ident data w g =
     (if ident = 0 then
        (case read_f32 data of
           Inl e \<Rightarrow> ((w, g), Inl e)
         | Inr frequency \<Rightarrow>
             if \<not> f32_in_range f32_0 (f32_div (sr_hz (gg_sample_rate g)) (f32_lit 2 1)) frequency
             then ((w, g), Inl BadValue)
             else ((w, g\<lparr>gg_pending := GpFrequency frequency\<rparr>),
                   Inr (StRt (PU32 (increment_for (f64_of_f32 frequency)
                                     (f64_of_f32 (sr_hz (gg_sample_rate g))))))))
      else if ident = 1 then
        (case deserialize_coeffs (gg_H g) data of
           Inl e \<Rightarrow> ((w, g), Inl e)
         | Inr c \<Rightarrow>
             (case stage_value c (w_target w) of
                (buf, Inl e) \<Rightarrow> ((w\<lparr>w_target := buf\<rparr>, g), Inl e)
              | (buf, Inr token) \<Rightarrow>
                  ((w\<lparr>w_target := buf\<rparr>, g\<lparr>gg_pending := GpTarget c\<rparr>), Inr (StRt (PBuffer token)))))
      else if ident = 2 then
        (case deserialize_coeffs (gg_H g) data of
           Inl e \<Rightarrow> ((w, g), Inl e)
         | Inr c \<Rightarrow>
             if f32_lt (gg_forcing_amplitude_limit g) (amplitude_bound (gg_sqrtf g) c)
             then ((w, g), Inl BadValue)
             else
               (case stage_value c (w_forcing w) of
                  (buf, Inl e) \<Rightarrow> ((w\<lparr>w_forcing := buf\<rparr>, g), Inl e)
                | (buf, Inr token) \<Rightarrow>
                    ((w\<lparr>w_forcing := buf\<rparr>, g\<lparr>gg_pending := GpForcing c\<rparr>), Inr (StRt (PBuffer token)))))
      else ((w, g), Inl BadIndex))"

definition generator_accept :: "GeneratorGroup \<Rightarrow> GeneratorGroup" where
  "generator_accept g =
     (let g' = g\<lparr>gg_pending := GpNone\<rparr>
      in case gg_pending g of
           GpNone \<Rightarrow> g'
         | GpFrequency v \<Rightarrow> g'\<lparr>gg_frequency := v\<rparr>
         | GpTarget v \<Rightarrow> g'\<lparr>gg_target := v\<rparr>
         | GpForcing v \<Rightarrow> g'\<lparr>gg_forcing := v\<rparr>)"

definition generator_reject :: "u16 \<Rightarrow> Payload option \<Rightarrow> world \<Rightarrow> GeneratorGroup \<Rightarrow> world \<times> GeneratorGroup" where
  "generator_reject ident returned w g =
     ((case returned of
         Some (PBuffer token) \<Rightarrow>
           (if ident = 1 then w\<lparr>w_target := cancel token (w_target w)\<rparr>
            else if ident = 2 then w\<lparr>w_forcing := cancel token (w_forcing w)\<rparr>
            else w)
       | _ \<Rightarrow> w), g\<lparr>gg_pending := GpNone\<rparr>)"

subsection \<open>Table group\<close>

definition table_params :: "nat \<Rightarrow> ParamDef list" where
  "table_params N =
     [param_blob (as_bytes ''table'') TF32 (of_nat N) (of_nat N),
      param_writable (as_bytes ''table_freq'') TF32 1,
      param_writable (as_bytes ''table_gain'') TF32 1,
      param_writable (as_bytes ''table_interp'') TU32 1,
      param_writable (as_bytes ''table_mode'') TU32 1,
      param_writable (as_bytes ''table_mult'') TU32 1,
      param_writable (as_bytes ''table_phase'') TF32 1,
      param_writable (as_bytes ''table_trigger'') TU32 1]"

datatype TablePending = TpNone | TpFrequency f32 | TpGain f32 | TpInterpolation u32 | TpMode u32
  | TpMultiplier u32 | TpPhase f32

record TableGroup =
  tg_N :: nat
  tg_defs :: "ParamDef list"
  tg_sample_rate :: SampleRate
  tg_frequency :: f32
  tg_gain :: f32
  tg_interpolation :: u32
  tg_mode :: u32
  tg_multiplier :: u32
  tg_phase :: f32
  tg_pending :: TablePending

definition table_group_new :: "nat \<Rightarrow> SampleRate \<Rightarrow> TableGroup" where
  "table_group_new N rate = \<lparr>tg_N = N, tg_defs = table_params N, tg_sample_rate = rate,
     tg_frequency = f32_0, tg_gain = f32_1, tg_interpolation = 1, tg_mode = 0, tg_multiplier = 1,
     tg_phase = f32_0, tg_pending = TpNone\<rparr>"

definition table_group_get :: "TableGroup \<Rightarrow> u16 \<Rightarrow> nat \<Rightarrow> ErrorCode + bytes" where
  "table_group_get g ident out_len =
     try_bind (checked_output (tg_defs g) ident out_len) (\<lambda>size.
       if ident = 0 then Inl BadLength
       else if ident = 1 then Inr (f32_to_le (tg_frequency g))
       else if ident = 2 then Inr (f32_to_le (tg_gain g))
       else if ident = 3 then Inr (u32_to_le (tg_interpolation g))
       else if ident = 4 then Inr (u32_to_le (tg_mode g))
       else if ident = 5 then Inr (u32_to_le (tg_multiplier g))
       else if ident = 6 then Inr (f32_to_le (tg_phase g))
       else if ident = 7 then Inr (u32_to_le 0)
       else Inl BadIndex)"

text \<open>The scalar cases of \<open>stage\<close>: the pending value and what is sent to core 1.\<close>

definition table_stage_scalar :: "TableGroup \<Rightarrow> u16 \<Rightarrow> bytes \<Rightarrow> ErrorCode + (TablePending \<times> Staged)" where
  "table_stage_scalar g ident data =
     (if ident = 0 then Inl BadLength
      else if ident = 1 then
        try_bind (read_f32 data) (\<lambda>frequency.
          if \<not> f32_in_range f32_0 (f32_div (sr_hz (tg_sample_rate g)) (f32_lit 2 1)) frequency
          then Inl BadValue
          else Inr (TpFrequency frequency,
                    StRt (PU32 (increment_for (f64_of_f32 frequency)
                                 (f64_of_f32 (sr_hz (tg_sample_rate g)))))))
      else if ident = 2 then
        try_bind (read_f32 data) (\<lambda>gain.
          if \<not> is_finite gain then Inl BadValue else Inr (TpGain gain, StRt (PF32 gain)))
      else if ident = 3 then
        try_bind (read_u32 data) (\<lambda>interpolation.
          try_bind (ok_or (table_interpolation_from_u32 interpolation) BadValue) (\<lambda>_.
            Inr (TpInterpolation interpolation, StRt (PU32 interpolation))))
      else if ident = 4 then
        try_bind (read_u32 data) (\<lambda>mode.
          try_bind (ok_or (table_mode_from_u32 mode) BadValue) (\<lambda>_.
            Inr (TpMode mode, StRt (PU32 mode))))
      else if ident = 5 then
        try_bind (read_u32 data) (\<lambda>multiplier.
          if multiplier = 0 then Inl BadValue
          else Inr (TpMultiplier multiplier, StRt (PU32 multiplier)))
      else if ident = 6 then
        try_bind (read_f32 data) (\<lambda>phase.
          if \<not> f32_in_range f32_0 f32_1 phase then Inl BadValue
          else Inr (TpPhase phase,
                    StRt (PU32 (f64_to_u32 (f64_mul (f64_of_f32 phase) (f64_lit 4294967296 1))))))
      else if ident = 7 then
        try_bind (read_u32 data) (\<lambda>trigger.
          Inr (tg_pending g, if trigger = 0 then StLocal ActNone else StRt PUnit))
      else Inl BadIndex)"

definition table_stage :: "u16 \<Rightarrow> bytes \<Rightarrow> TableGroup \<Rightarrow> TableGroup \<times> (ErrorCode + Staged)" where
  "table_stage ident data g =
     (case table_stage_scalar g ident data of
        Inl e \<Rightarrow> (g, Inl e)
      | Inr (pending, staged) \<Rightarrow> (g\<lparr>tg_pending := pending\<rparr>, Inr staged))"

definition table_accept :: "TableGroup \<Rightarrow> TableGroup" where
  "table_accept g =
     (let g' = g\<lparr>tg_pending := TpNone\<rparr>
      in case tg_pending g of
           TpNone \<Rightarrow> g'
         | TpFrequency v \<Rightarrow> g'\<lparr>tg_frequency := v\<rparr>
         | TpGain v \<Rightarrow> g'\<lparr>tg_gain := v\<rparr>
         | TpInterpolation v \<Rightarrow> g'\<lparr>tg_interpolation := v\<rparr>
         | TpMode v \<Rightarrow> g'\<lparr>tg_mode := v\<rparr>
         | TpMultiplier v \<Rightarrow> g'\<lparr>tg_multiplier := v\<rparr>
         | TpPhase v \<Rightarrow> g'\<lparr>tg_phase := v\<rparr>)"

definition table_reject :: "u16 \<Rightarrow> Payload option \<Rightarrow> world \<Rightarrow> TableGroup \<Rightarrow> world \<times> TableGroup" where
  "table_reject ident returned w g =
     ((if ident = 0 then
         (case returned of Some (PBuffer token) \<Rightarrow> w\<lparr>w_table := cancel token (w_table w)\<rparr> | _ \<Rightarrow> w)
       else w), g\<lparr>tg_pending := TpNone\<rparr>)"

fun write_words :: "nat \<Rightarrow> f32 list \<Rightarrow> WaveTable \<Rightarrow> WaveTable" where
  "write_words offset [] t = t"
| "write_words offset (v # vs) t = write_words (Suc offset) vs (fst (table_write_block offset [v] t))"

definition words_of :: "bytes \<Rightarrow> f32 list" where
  "words_of data = map (coeff_value data) [0..<length data div 4]"

definition table_set_block :: "u16 \<Rightarrow> u32 \<Rightarrow> bytes \<Rightarrow> world \<Rightarrow> TableGroup \<Rightarrow> world \<times> (ErrorCode + unit)" where
  "table_set_block ident offset data w g =
     (if ident \<noteq> 0 then (w, Inl BadIndex)
      else if length data mod 4 \<noteq> 0 then (w, Inl BadLength)
      else if unat offset + length data div 4 > tg_N g then (w, Inl BadLength)
      else
        case staging_buffer (w_table w) of
          Inl e \<Rightarrow> (w, Inl (map_buffer_error e))
        | Inr bank \<Rightarrow>
            (w\<lparr>w_table := write_bank bank (write_words (unat offset) (words_of data)) (w_table w)\<rparr>, Inr ()))"

definition table_stage_commit :: "u16 \<Rightarrow> u32 \<Rightarrow> world \<Rightarrow> TableGroup \<Rightarrow> world \<times> (ErrorCode + Staged)" where
  "table_stage_commit ident len w g =
     (if ident \<noteq> 0 then (w, Inl BadIndex)
      else if \<not> (2 \<le> unat len \<and> unat len \<le> tg_N g) then (w, Inl BadValue)
      else
        case staging_buffer (w_table w) of
          Inl e \<Rightarrow> (w, Inl (map_buffer_error e))
        | Inr bank \<Rightarrow>
            if \<not> list_all is_finite (the (table_prefix (db_banks (w_table w) ! bank) (unat len)))
            then (w, Inl BadValue)
            else
              let buf1 = write_bank bank (\<lambda>t. fst (table_set_len (unat len) t)) (w_table w)
              in case commit buf1 of
                   Inl e \<Rightarrow> (w\<lparr>w_table := buf1\<rparr>, Inl (map_buffer_error e))
                 | Inr (buf2, token) \<Rightarrow> (w\<lparr>w_table := buf2\<rparr>, Inr (StRt (PBuffer token))))"

subsection \<open>Telemetry, rig and control groups\<close>

record TelemetryGroup =
  te_values :: "ExtraParam list"
  te_defs :: "ParamDef list"

definition telemetry_new :: "ExtraParam list \<Rightarrow> TelemetryGroup option" where
  "telemetry_new values =
     (if length values \<le> MAX_EXTRA_PARAMS then Some \<lparr>te_values = values, te_defs = map extra_def values\<rparr>
      else None)"

definition telemetry_get :: "world \<Rightarrow> TelemetryGroup \<Rightarrow> u16 \<Rightarrow> nat \<Rightarrow> ErrorCode + bytes" where
  "telemetry_get w g ident out_len =
     try_bind (checked_output (te_defs g) ident out_len) (\<lambda>size.
       try_bind (ok_or (get_at (te_values g) (unat ident)) BadIndex) (\<lambda>x.
         Inr (extra_get x (w_telemetry w))))"

definition telemetry_reset_diagnostics :: "TelemetryGroup \<Rightarrow> world \<Rightarrow> world" where
  "telemetry_reset_diagnostics g w =
     w\<lparr>w_telemetry := foldl (\<lambda>words x. extra_reset_diagnostic x words) (w_telemetry w) (te_values g)\<rparr>"

text \<open>
  \<open>RigGroup<R>\<close> and \<open>ScalarControlGroup<C, H>\<close> have the same shape: a shadow of scalar values and one
  pending entry; they differ in their target and in the type whose \<open>normalise\<close> function they call,
  which is a field here.
\<close>

record ScalarGroup =
  sg_defs :: "ParamDef list"
  sg_values :: "f32 list"
  sg_pending :: "(nat \<times> f32) option"
  sg_normalise :: "u16 \<Rightarrow> f32 \<Rightarrow> f32 option"

definition rig_group_new :: "'r Rig \<Rightarrow> ScalarGroup option" where
  "rig_group_new R =
     (let names = r_param_names R; defaults = r_param_defaults R
      in if \<not> length names \<le> MAX_RIG_PARAMS then None
         else if \<not> (defaults = [] \<or> length defaults = length names) then None
         else Some \<lparr>sg_defs = map (\<lambda>name. param_writable name TF32 1) names,
                    sg_values = copy_at (replicate MAX_RIG_PARAMS f32_0) 0 defaults,
                    sg_pending = None, sg_normalise = r_normalise_param R\<rparr>)"

definition control_group_new ::
  "bytes list \<Rightarrow> (u16 \<Rightarrow> f32 option) \<Rightarrow> (u16 \<Rightarrow> f32 \<Rightarrow> nat \<Rightarrow> f32 option) \<Rightarrow> nat \<Rightarrow> ScalarGroup option" where
  "control_group_new names value_of normalise input_count =
     (if \<not> length names \<le> MAX_CTRL_PARAMS then None
      else if \<not> (\<forall>i \<in> set [0..<length names]. value_of (of_nat i) \<noteq> None) then None
      else Some \<lparr>sg_defs = map (\<lambda>name. param_writable name TF32 1) names,
                 sg_values = copy_at (replicate MAX_CTRL_PARAMS f32_0) 0
                               (map (\<lambda>i. the (value_of (of_nat i))) [0..<length names]),
                 sg_pending = None, sg_normalise = (\<lambda>ident v. normalise ident v input_count)\<rparr>)"

definition scalar_get :: "ScalarGroup \<Rightarrow> u16 \<Rightarrow> nat \<Rightarrow> ErrorCode + bytes" where
  "scalar_get g ident out_len =
     try_bind (checked_output (sg_defs g) ident out_len) (\<lambda>size.
       try_bind (ok_or (get_at (sg_values g) (unat ident)) BadIndex) (\<lambda>v. Inr (f32_to_le v)))"

definition scalar_stage :: "u16 \<Rightarrow> bytes \<Rightarrow> ScalarGroup \<Rightarrow> ScalarGroup \<times> (ErrorCode + Staged)" where
  "scalar_stage ident data g =
     (case read_f32 data of
        Inl e \<Rightarrow> (g, Inl e)
      | Inr raw \<Rightarrow>
          (case sg_normalise g ident raw of
             None \<Rightarrow> (g, Inl BadValue)
           | Some value \<Rightarrow> (g\<lparr>sg_pending := Some (unat ident, value)\<rparr>, Inr (StRt (PF32 value)))))"

definition scalar_accept :: "ScalarGroup \<Rightarrow> ScalarGroup" where
  "scalar_accept g =
     (case sg_pending g of
        None \<Rightarrow> g
      | Some (i, v) \<Rightarrow> g\<lparr>sg_values := (sg_values g)[i := v], sg_pending := None\<rparr>)"

definition scalar_reject :: "ScalarGroup \<Rightarrow> ScalarGroup" where
  "scalar_reject g = g\<lparr>sg_pending := None\<rparr>"

subsection \<open>Dynamic dispatch over groups\<close>

datatype Group = GPlatform PlatformGroup | GGenerator GeneratorGroup | GTable TableGroup
  | GTelemetry TelemetryGroup | GRig ScalarGroup | GControl ScalarGroup

fun group_target :: "Group \<Rightarrow> CommandTarget" where
  "group_target (GPlatform g) = ToCore0"
| "group_target (GGenerator g) = ToProgram DOMAIN_GENERATOR"
| "group_target (GTable g) = ToProgram DOMAIN_TABLE"
| "group_target (GTelemetry g) = ToCore0"
| "group_target (GRig g) = ToRig"
| "group_target (GControl g) = ToProgram DOMAIN_CONTROLLER"

fun group_params :: "Group \<Rightarrow> ParamDef list" where
  "group_params (GPlatform g) = PLATFORM_PARAMS"
| "group_params (GGenerator g) = gg_defs g"
| "group_params (GTable g) = tg_defs g"
| "group_params (GTelemetry g) = te_defs g"
| "group_params (GRig g) = sg_defs g"
| "group_params (GControl g) = sg_defs g"

fun group_get :: "world \<Rightarrow> Group \<Rightarrow> u16 \<Rightarrow> nat \<Rightarrow> ErrorCode + bytes" where
  "group_get w (GPlatform g) ident n = platform_get w g ident n"
| "group_get w (GGenerator g) ident n = generator_get g ident n"
| "group_get w (GTable g) ident n = table_group_get g ident n"
| "group_get w (GTelemetry g) ident n = telemetry_get w g ident n"
| "group_get w (GRig g) ident n = scalar_get g ident n"
| "group_get w (GControl g) ident n = scalar_get g ident n"

fun group_stage :: "u16 \<Rightarrow> bytes \<Rightarrow> world \<times> Group \<Rightarrow> (world \<times> Group) \<times> (ErrorCode + Staged)" where
  "group_stage ident data (w, GPlatform g) =
     (let (g', r) = platform_stage ident data g in ((w, GPlatform g'), r))"
| "group_stage ident data (w, GGenerator g) =
     (let ((w', g'), r) = generator_stage ident data w g in ((w', GGenerator g'), r))"
| "group_stage ident data (w, GTable g) =
     (let (g', r) = table_stage ident data g in ((w, GTable g'), r))"
| "group_stage ident data (w, GTelemetry g) = ((w, GTelemetry g), Inl ReadOnly)"
| "group_stage ident data (w, GRig g) =
     (let (g', r) = scalar_stage ident data g in ((w, GRig g'), r))"
| "group_stage ident data (w, GControl g) =
     (let (g', r) = scalar_stage ident data g in ((w, GControl g'), r))"

fun group_accept :: "u16 \<Rightarrow> world \<times> Group \<Rightarrow> world \<times> Group" where
  "group_accept ident (w, GPlatform g) = (let (w', g') = platform_accept g w in (w', GPlatform g'))"
| "group_accept ident (w, GGenerator g) = (w, GGenerator (generator_accept g))"
| "group_accept ident (w, GTable g) = (w, GTable (table_accept g))"
| "group_accept ident (w, GTelemetry g) = (w, GTelemetry g)"
| "group_accept ident (w, GRig g) = (w, GRig (scalar_accept g))"
| "group_accept ident (w, GControl g) = (w, GControl (scalar_accept g))"

fun group_reject :: "u16 \<Rightarrow> Payload option \<Rightarrow> world \<times> Group \<Rightarrow> world \<times> Group" where
  "group_reject ident returned (w, GPlatform g) = (w, GPlatform (platform_reject g))"
| "group_reject ident returned (w, GGenerator g) =
     (let (w', g') = generator_reject ident returned w g in (w', GGenerator g'))"
| "group_reject ident returned (w, GTable g) =
     (let (w', g') = table_reject ident returned w g in (w', GTable g'))"
| "group_reject ident returned (w, GTelemetry g) = (w, GTelemetry g)"
| "group_reject ident returned (w, GRig g) = (w, GRig (scalar_reject g))"
| "group_reject ident returned (w, GControl g) = (w, GControl (scalar_reject g))"

fun group_reset_diagnostics :: "Group \<Rightarrow> world \<Rightarrow> world" where
  "group_reset_diagnostics (GPlatform g) w = platform_reset_diagnostics w"
| "group_reset_diagnostics (GTelemetry g) w = telemetry_reset_diagnostics g w"
| "group_reset_diagnostics _ w = w"

fun group_set_block :: "u16 \<Rightarrow> u32 \<Rightarrow> bytes \<Rightarrow> world \<times> Group \<Rightarrow> (world \<times> Group) \<times> (ErrorCode + unit)" where
  "group_set_block ident offset data (w, GTable g) =
     (let (w', r) = table_set_block ident offset data w g in ((w', GTable g), r))"
| "group_set_block ident offset data wg = (wg, Inl UnknownType)"

fun group_stage_commit :: "u16 \<Rightarrow> u32 \<Rightarrow> world \<times> Group \<Rightarrow> (world \<times> Group) \<times> (ErrorCode + Staged)" where
  "group_stage_commit ident len (w, GTable g) =
     (let (w', r) = table_stage_commit ident len w g in ((w', GTable g), r))"
| "group_stage_commit ident len wg = (wg, Inl UnknownType)"

subsection \<open>The contract of a group\<close>

text \<open>
  What the host can observe of a double buffer: everything but the contents of the bank that is not
  active. A pending bank is observable, since every later upload is refused while it is there.
\<close>

definition buffer_ok :: "'a DoubleBuffer \<Rightarrow> bool" where
  "buffer_ok buf \<longleftrightarrow> length (db_banks buf) = 2 \<and> is_bank (db_active buf)"

definition buffer_view :: "'a DoubleBuffer \<Rightarrow> u8 \<times> u8 \<times> nat \<times> 'a" where
  "buffer_view buf = (db_active buf, db_pending buf, db_identity buf, db_banks buf ! unat (db_active buf))"

definition world_ok :: "world \<Rightarrow> bool" where
  "world_ok w \<longleftrightarrow> buffer_ok (w_target w) \<and> buffer_ok (w_forcing w) \<and> buffer_ok (w_table w)"

definition world_view ::
  "world \<Rightarrow> RtShared \<times> (nat \<Rightarrow> u32) \<times> (u8 \<times> u8 \<times> nat \<times> FourierCoeffs) \<times> (u8 \<times> u8 \<times> nat \<times> FourierCoeffs)
     \<times> (u8 \<times> u8 \<times> nat \<times> WaveTable)" where
  "world_view w = (w_shared w, w_telemetry w, buffer_view (w_target w), buffer_view (w_forcing w),
     buffer_view (w_table w))"

fun group_idle :: "Group \<Rightarrow> bool" where
  "group_idle (GPlatform g) \<longleftrightarrow> pg_pending g = PpNone"
| "group_idle (GGenerator g) \<longleftrightarrow> gg_pending g = GpNone"
| "group_idle (GTable g) \<longleftrightarrow> tg_pending g = TpNone"
| "group_idle (GTelemetry g) \<longleftrightarrow> True"
| "group_idle (GRig g) \<longleftrightarrow> sg_pending g = None"
| "group_idle (GControl g) \<longleftrightarrow> sg_pending g = None"

text \<open>
  The trait's contract: \<open>stage\<close> returning an error has changed nothing the host can observe and left
  nothing pending; the \<open>reject\<close> of a staged change takes it back; \<open>accept\<close> leaves nothing pending.
\<close>

locale param_group =
  fixes idle :: "'g \<Rightarrow> bool" and ok :: "'w \<Rightarrow> bool" and view :: "'w \<Rightarrow> 'v"
    and stage :: "u16 \<Rightarrow> 'd \<Rightarrow> 'w \<times> 'g \<Rightarrow> ('w \<times> 'g) \<times> (ErrorCode + Staged)"
    and accept :: "u16 \<Rightarrow> 'w \<times> 'g \<Rightarrow> 'w \<times> 'g"
    and reject :: "u16 \<Rightarrow> Payload option \<Rightarrow> 'w \<times> 'g \<Rightarrow> 'w \<times> 'g"
  assumes stage_error: "ok w \<Longrightarrow> idle g \<Longrightarrow> stage ident d (w, g) = ((w', g'), Inl e) \<Longrightarrow>
      g' = g \<and> view w' = view w"
    and stage_ok: "ok w \<Longrightarrow> ok (fst (fst (stage ident d (w, g))))"
    and reject_staged: "ok w \<Longrightarrow> idle g \<Longrightarrow> stage ident d (w, g) = ((w', g'), Inr (StRt p)) \<Longrightarrow>
      snd (reject ident (Some p) (w', g')) = g \<and> view (fst (reject ident (Some p) (w', g'))) = view w"
    and reject_ok: "ok w \<Longrightarrow> ok (fst (reject ident r (w, g)))"
    and accept_ok: "ok w \<Longrightarrow> ok (fst (accept ident (w, g)))"
    and accept_idle: "idle (snd (accept ident (w, g)))"
begin

text \<open>One write as the store performs it: stage, then send if there is something to send.\<close>

definition transaction ::
  "bool \<Rightarrow> u16 \<Rightarrow> 'd \<Rightarrow> 'w \<times> 'g \<Rightarrow> ('w \<times> 'g) \<times> (ErrorCode + ParamAction)" where
  "transaction sent ident d wg =
     (case stage ident d wg of
        (wg', Inl e) \<Rightarrow> (wg', Inl e)
      | (wg', Inr (StLocal action)) \<Rightarrow> (accept ident wg', Inr action)
      | (wg', Inr (StRt p)) \<Rightarrow>
          if sent then (accept ident wg', Inr ActNone) else (reject ident (Some p) wg', Inl Busy))"

lemma transaction_atomic:
  assumes "ok w" "idle g" "transaction sent ident d (w, g) = ((w', g'), Inl e)"
  shows "g' = g" "view w' = view w"
proof -
  obtain w1 g1 r where s: "stage ident d (w, g) = ((w1, g1), r)" by (metis surj_pair)
  have "g' = g \<and> view w' = view w"
  proof (cases r)
    case (Inl e')
    then show ?thesis using assms s stage_error [of w g ident d w1 g1 e'] by (auto simp: transaction_def)
  next
    case (Inr st)
    then show ?thesis
      using assms s reject_staged [of w g ident d w1 g1]
      by (cases st) (auto simp: transaction_def split: if_splits)
  qed
  then show "g' = g" "view w' = view w" by auto
qed

lemma transaction_keeps:
  assumes "ok w" "idle g" "transaction sent ident d (w, g) = ((w', g'), r)"
  shows "ok w'" "idle g'"
proof -
  obtain w1 g1 st where s: "stage ident d (w, g) = ((w1, g1), st)" by (metis surj_pair)
  then have 1: "ok w1" using stage_ok [of w ident d g] assms(1) by simp
  show "ok w'"
    using assms s 1 reject_ok [OF 1] accept_ok [OF 1]
    by (auto simp: transaction_def split: sum.splits Staged.splits if_splits) (metis fst_conv)+
  show "idle g'"
  proof (cases r)
    case (Inl e)
    then show ?thesis using assms transaction_atomic [of w g sent ident d w' g' e] by simp
  next
    case (Inr a)
    then show ?thesis using assms s accept_idle [of ident w1 g1]
      by (auto simp: transaction_def split: sum.splits Staged.splits if_splits)
  qed
qed

end

lemma stage_value_error: "buffer_ok buf \<Longrightarrow> stage_value v buf = (buf', Inl e) \<Longrightarrow> buf' = buf"
  by (auto simp: stage_value_def staging_buffer_def commit_def write_bank_def Let_def split: if_splits)

lemma write_bank_view:
  "buffer_ok buf \<Longrightarrow> staging_buffer buf = Inr bank \<Longrightarrow>
   buffer_view (write_bank bank f buf) = buffer_view buf \<and> buffer_ok (write_bank bank f buf)"
  using is_bank_flip [of "db_active buf"]
  by (auto simp: staging_buffer_def write_bank_def buffer_view_def buffer_ok_def split: if_splits)

lemma commit_cancel_view:
  "commit buf = Inr (buf', token) \<Longrightarrow> buffer_view (cancel token buf') = buffer_view buf
     \<and> buffer_ok (cancel token buf') = buffer_ok buf"
  by (auto simp: commit_def cancel_def buffer_view_def buffer_ok_def Let_def NO_PENDING_def
      split: if_splits)

lemma stage_value_cancel:
  assumes "buffer_ok buf" "stage_value v buf = (buf', Inr token)"
  shows "buffer_view (cancel token buf') = buffer_view buf"
  using assms write_bank_view [OF assms(1)]
  by (auto simp: stage_value_def Let_def dest: commit_cancel_view split: sum.splits)

lemma commit_ok: "commit buf = Inr (buf', token) \<Longrightarrow> buffer_ok buf' = buffer_ok buf"
  by (auto simp: commit_def buffer_ok_def Let_def split: if_splits)

lemma cancel_ok [simp]: "buffer_ok (cancel token buf) = buffer_ok buf"
  by (simp add: cancel_def buffer_ok_def)

lemma stage_value_ok: "buffer_ok buf \<Longrightarrow> stage_value v buf = (buf', r) \<Longrightarrow> buffer_ok buf'"
  using write_bank_view [of buf]
  by (auto simp: stage_value_def Let_def dest: commit_ok split: sum.splits)

lemma generator_stage_contract:
  assumes "world_ok w" "generator_stage ident data w g = ((w', g'), r)"
  shows "world_ok w'"
    and "r = Inl e \<Longrightarrow> g' = g \<and> w' = w"
    and "r = Inr (StRt p) \<Longrightarrow> gg_pending g = GpNone \<Longrightarrow>
      generator_reject ident (Some p) w' g' = (w'', g'') \<Longrightarrow> g'' = g \<and> world_view w'' = world_view w"
  using assms stage_value_error stage_value_ok stage_value_cancel
  subgoal
    by (auto simp: generator_stage_def world_ok_def split: sum.splits if_splits prod.splits)
  subgoal
    using assms stage_value_error
    by (fastforce simp: generator_stage_def world_ok_def split: sum.splits if_splits prod.splits)
  subgoal
    using assms stage_value_cancel
    by (fastforce simp: generator_stage_def generator_reject_def world_ok_def world_view_def
        split: sum.splits if_splits prod.splits)
  done

lemma table_stage_contract:
  assumes "table_stage ident data g = (g', r)"
  shows "r = Inl e \<Longrightarrow> g' = g"
    and "r = Inr (StRt p) \<Longrightarrow> tg_pending g = TpNone \<Longrightarrow> g'\<lparr>tg_pending := TpNone\<rparr> = g"
  using assms by (auto simp: table_stage_def split: sum.splits)

lemma table_stage_sends_scalar:
  "table_stage ident data g = (g', Inr (StRt p)) \<Longrightarrow> ident \<noteq> 0"
  by (auto simp: table_stage_def table_stage_scalar_def split: sum.splits if_splits)

lemma table_stage_commit_contract:
  assumes "world_ok w" "table_stage_commit ident len w g = (w', r)"
  shows "world_ok w'"
    and "r = Inl e \<Longrightarrow> world_view w' = world_view w"
    and "r = Inr (StRt p) \<Longrightarrow> tg_pending g = TpNone \<Longrightarrow>
      table_reject ident (Some p) w' g = (w'', g'') \<Longrightarrow> g'' = g \<and> world_view w'' = world_view w"
proof -
  note view = write_bank_view [of "w_table w"]
  show "world_ok w'"
    using assms view
    by (auto simp: table_stage_commit_def world_ok_def Let_def dest: commit_ok split: sum.splits if_splits)
  show "r = Inl e \<Longrightarrow> world_view w' = world_view w"
    using assms view
    by (auto simp: table_stage_commit_def world_ok_def world_view_def Let_def split: sum.splits if_splits)
  show "r = Inr (StRt p) \<Longrightarrow> tg_pending g = TpNone \<Longrightarrow>
      table_reject ident (Some p) w' g = (w'', g'') \<Longrightarrow> g'' = g \<and> world_view w'' = world_view w"
    using assms view
    by (auto simp: table_stage_commit_def table_reject_def world_ok_def world_view_def Let_def
        dest: commit_cancel_view split: sum.splits if_splits)
qed

lemma scalar_stage_contract:
  assumes "scalar_stage ident data g = (g', r)"
  shows "r = Inl e \<Longrightarrow> g' = g"
    and "r = Inr (StRt p) \<Longrightarrow> sg_pending g = None \<Longrightarrow> scalar_reject g' = g"
  using assms by (auto simp: scalar_stage_def scalar_reject_def split: sum.splits option.splits)

lemma platform_stage_contract:
  assumes "platform_stage ident data g = (g', r)"
  shows "r = Inl e \<Longrightarrow> g' = g" and "r \<noteq> Inr (StRt p)"
  using assms by (auto simp: platform_stage_def split: sum.splits if_splits)

lemma group_reject_ok: "world_ok w \<Longrightarrow> world_ok (fst (group_reject ident r (w, g)))"
  by (cases g) (auto simp: generator_reject_def table_reject_def world_ok_def
      split: option.splits Payload.splits)

lemma group_accept_ok: "world_ok w \<Longrightarrow> world_ok (fst (group_accept ident (w, g)))"
  by (cases g) (auto simp: platform_accept_def world_ok_def Let_def split: PlatformPending.splits prod.splits)

lemma group_accept_idle: "group_idle (snd (group_accept ident (w, g)))"
  by (cases g) (auto simp: platform_accept_def generator_accept_def table_accept_def scalar_accept_def
      Let_def split: PlatformPending.splits GeneratorPending.splits TablePending.splits option.splits prod.splits)

lemma group_stage_contract:
  assumes "world_ok w" "group_stage ident data (w, g) = ((w', g'), r)"
  shows "world_ok w'"
    and "r = Inl e \<Longrightarrow> g' = g \<and> w' = w"
    and "r = Inr (StRt p) \<Longrightarrow> group_idle g \<Longrightarrow>
      snd (group_reject ident (Some p) (w', g')) = g
      \<and> world_view (fst (group_reject ident (Some p) (w', g'))) = world_view w"
proof -
  show "world_ok w'"
    using assms generator_stage_contract(1) by (cases g) (auto split: prod.splits)
  show "r = Inl e \<Longrightarrow> g' = g \<and> w' = w"
    using assms generator_stage_contract(2) platform_stage_contract(1) table_stage_contract(1)
      scalar_stage_contract(1)
    by (cases g) (fastforce split: prod.splits)+
  show "r = Inr (StRt p) \<Longrightarrow> group_idle g \<Longrightarrow>
      snd (group_reject ident (Some p) (w', g')) = g
      \<and> world_view (fst (group_reject ident (Some p) (w', g'))) = world_view w"
    using assms generator_stage_contract(3) platform_stage_contract(2) table_stage_contract(2)
      scalar_stage_contract(2) table_stage_sends_scalar
    by (cases g) (fastforce simp: table_reject_def split: prod.splits)+
qed

lemma group_stage_commit_contract:
  assumes "world_ok w" "group_stage_commit ident len (w, g) = ((w', g'), r)"
  shows "world_ok w'"
    and "r = Inl e \<Longrightarrow> g' = g \<and> world_view w' = world_view w"
    and "r = Inr (StRt p) \<Longrightarrow> group_idle g \<Longrightarrow>
      snd (group_reject ident (Some p) (w', g')) = g
      \<and> world_view (fst (group_reject ident (Some p) (w', g'))) = world_view w"
proof -
  have *: "world_ok w' \<and> (r = Inl e \<longrightarrow> g' = g \<and> world_view w' = world_view w)
    \<and> (r = Inr (StRt p) \<longrightarrow> group_idle g \<longrightarrow>
      snd (group_reject ident (Some p) (w', g')) = g
      \<and> world_view (fst (group_reject ident (Some p) (w', g'))) = world_view w)"
  proof (cases "\<exists>t. g = GTable t")
    case True
    then obtain t where g: "g = GTable t" by blast
    with assms(2) have r: "table_stage_commit ident len w t = (w', r)" "g' = GTable t"
      by (auto split: prod.splits)
    obtain w'' t'' where j: "table_reject ident (Some p) w' t = (w'', t'')" by (metis surj_pair)
    show ?thesis
      using table_stage_commit_contract [OF assms(1) r(1)] j by (auto simp: g r(2))
  next
    case False
    then have "(w', g') = (w, g) \<and> r = Inl UnknownType" using assms(2) by (cases g) auto
    then show ?thesis using assms(1) by auto
  qed
  then show "world_ok w'" and "r = Inl e \<Longrightarrow> g' = g \<and> world_view w' = world_view w"
    and "r = Inr (StRt p) \<Longrightarrow> group_idle g \<Longrightarrow>
      snd (group_reject ident (Some p) (w', g')) = g
      \<and> world_view (fst (group_reject ident (Some p) (w', g'))) = world_view w"
    by blast+
qed

interpretation set_txn: param_group group_idle world_ok world_view group_stage group_accept group_reject
proof
  show "g' = g \<and> world_view w' = world_view w"
    if "world_ok w" "group_idle g" "group_stage ident d (w, g) = ((w', g'), Inl e)" for w g ident d w' g' e
    using group_stage_contract(2) [OF that(1,3)] by simp
  show "world_ok (fst (fst (group_stage ident d (w, g))))" if "world_ok w" for w ident d g
    using group_stage_contract(1) [OF that, of ident d g] by (metis prod.collapse)
qed (use group_stage_contract(3) group_reject_ok group_accept_ok group_accept_idle in simp_all)

interpretation commit_txn: param_group group_idle world_ok world_view group_stage_commit group_accept
  group_reject
proof
  show "g' = g \<and> world_view w' = world_view w"
    if "world_ok w" "group_idle g" "group_stage_commit ident d (w, g) = ((w', g'), Inl e)"
    for w g ident d w' g' e
    using group_stage_commit_contract(2) [OF that(1,3)] by simp
  show "world_ok (fst (fst (group_stage_commit ident d (w, g))))" if "world_ok w" for w ident d g
    using group_stage_commit_contract(1) [OF that, of ident d g] by (metis prod.collapse)
qed (use group_stage_commit_contract(3) group_reject_ok group_accept_ok group_accept_idle in simp_all)

subsection \<open>Coefficient arrays round-trip\<close>

lemma coeff_value_to_le:
  assumes "4 * i + 4 \<le> length data" "k < 4"
  shows "f32_to_le (coeff_value data i) ! k = data ! (4 * i + k)"
  using assms by (auto simp: coeff_value_def f32_to_le_def f32_from_le_def less_Suc_eq numeral_eq_Suc)

definition coeff_byte :: "FourierCoeffs \<Rightarrow> nat \<Rightarrow> u8" where
  "coeff_byte c i =
     (let H = length (fc_a c); j = i div 4
      in f32_to_le (if j = 0 then fc_mean c else if j \<le> H then fc_a c ! (j - 1) else fc_b c ! (j - 1 - H))
           ! (i mod 4))"

lemma length_f32_to_le [simp]: "length (f32_to_le x) = 4"
  by (simp add: f32_to_le_def)

lemma nth_copy_two:
  "o1 + 4 \<le> length r \<Longrightarrow> o2 + 4 \<le> length r \<Longrightarrow> i < length r \<Longrightarrow>
   copy_at (copy_at r o1 (f32_to_le x)) o2 (f32_to_le y) ! i =
     (if o2 \<le> i \<and> i < o2 + 4 then f32_to_le y ! (i - o2)
      else if o1 \<le> i \<and> i < o1 + 4 then f32_to_le x ! (i - o1) else r ! i)"
  by (simp add: nth_copy_at)

lemma serialize_step:
  fixes c :: FourierCoeffs
  defines "H \<equiv> length (fc_a c)"
  assumes "length out = 4 * (1 + 2 * H)" "k \<le> H"
  defines "r \<equiv> foldl (\<lambda>o1 h.
             copy_at (copy_at o1 (4 + 4 * h) (f32_to_le (fc_a c ! h)))
               (4 + 4 * (H + h)) (f32_to_le (fc_b c ! h)))
           (copy_at out 0 (f32_to_le (fc_mean c))) [0..<k]"
  shows "length r = length out
    \<and> (\<forall>i < length out. i div 4 \<le> k \<or> (H < i div 4 \<and> i div 4 \<le> H + k) \<longrightarrow> r ! i = coeff_byte c i)"
  using assms(3) unfolding r_def
proof (induction k)
  case 0
  then show ?case using assms(2)
    by (auto simp: nth_copy_at coeff_byte_def div_eq_0_iff)
next
  case (Suc k)
  let ?r = "foldl (\<lambda>o1 h. copy_at (copy_at o1 (4 + 4 * h) (f32_to_le (fc_a c ! h)))
      (4 + 4 * (H + h)) (f32_to_le (fc_b c ! h))) (copy_at out 0 (f32_to_le (fc_mean c))) [0..<k]"
  have l: "length ?r = length out" using Suc by simp
  have "copy_at (copy_at ?r (4 + 4 * k) (f32_to_le (fc_a c ! k))) (4 + 4 * (H + k)) (f32_to_le (fc_b c ! k)) ! i
      = coeff_byte c i"
    if i: "i < length out" "i div 4 \<le> Suc k \<or> (H < i div 4 \<and> i div 4 \<le> H + Suc k)" for i
  proof -
    have a: "4 + 4 * k \<le> i \<and> i < 8 + 4 * k \<longleftrightarrow> i div 4 = Suc k" by auto
    have b: "4 + 4 * (H + k) \<le> i \<and> i < 8 + 4 * (H + k) \<longleftrightarrow> i div 4 = Suc (H + k)" by auto
    have m: "i div 4 = q \<Longrightarrow> i - 4 * q = i mod 4" for q by (auto simp: minus_mult_div_eq_mod)
    have sz: "4 + 4 * k + 4 \<le> length ?r" "4 + 4 * (H + k) + 4 \<le> length ?r" "i < length ?r"
      using Suc.prems l i(1) assms(2) by auto
    note n = nth_copy_two [OF sz, of "fc_a c ! k" "fc_b c ! k"]
    consider "i div 4 = Suc (H + k)" | "i div 4 = Suc k" | "i div 4 \<noteq> Suc k" "i div 4 \<noteq> Suc (H + k)"
      by blast
    then show ?thesis
    proof cases
      case 1
      then show ?thesis unfolding n using b m [of "Suc (H + k)"] by (simp add: coeff_byte_def H_def)
    next
      case 2
      then show ?thesis unfolding n using a b m [of "Suc k"] Suc.prems by (simp add: coeff_byte_def H_def)
    next
      case 3
      then show ?thesis unfolding n using a b Suc i by auto
    qed
  qed
  then show ?case using Suc.prems l assms(2) by simp
qed

lemma deserialize_serialize:
  assumes "deserialize_coeffs H data = Inr c" "n = length data"
  shows "serialize_coeffs c (replicate n 0) = data"
proof -
  have c: "fc_a c = map (\<lambda>h. coeff_value data (1 + h)) [0..<H]"
    "fc_b c = map (\<lambda>h. coeff_value data (1 + H + h)) [0..<H]" "fc_mean c = coeff_value data 0"
    and n: "length data = 4 * (1 + 2 * H)"
    using assms(1) by (auto simp: deserialize_coeffs_def Let_def split: if_splits)
  have H: "length (fc_a c) = H" by (simp add: c)
  note s = serialize_step [of "replicate n 0" c H, unfolded H]
  have l: "length (serialize_coeffs c (replicate n 0)) = length data"
    using s n assms(2) by (simp add: serialize_coeffs_def H Let_def)
  have "serialize_coeffs c (replicate n 0) ! i = data ! i" if i: "i < length data" for i
  proof -
    have d: "i div 4 \<le> 2 * H" "4 * (i div 4) + i mod 4 = i" using i n by auto
    have "serialize_coeffs c (replicate n 0) ! i = coeff_byte c i"
      using s n assms(2) i d by (auto simp: serialize_coeffs_def H Let_def)
    also have "\<dots> = f32_to_le (coeff_value data (i div 4)) ! (i mod 4)"
      using d by (auto simp: coeff_byte_def c Let_def)
    also have "\<dots> = data ! i"
      using coeff_value_to_le [of "i div 4" data "i mod 4"] d n by simp
    finally show ?thesis .
  qed
  with l show ?thesis by (simp add: list_eq_iff_nth_eq)
qed

text \<open>A world with empty buffers, for concrete runs.\<close>

definition example_world :: world where
  "example_world = \<lparr>w_shared = shared_new,
     w_target = from_banks 1 (coeffs_zero 1) (coeffs_zero 1),
     w_forcing = from_banks 2 (coeffs_zero 1) (coeffs_zero 1),
     w_table = from_banks 3 (the (table_empty 8)) (the (table_empty 8)),
     w_telemetry = (\<lambda>_. 0)\<rparr>"

lemma example_world_ok: "world_ok example_world"
  by (simp add: world_ok_def buffer_ok_def example_world_def from_banks_def is_bank_def)

end
