(* ===== verification/Rt_Params.thy ===== *)
theory Rt_Params
  imports Rt_Groups
begin

text \<open>
  The parameter store of \<open>helic-rt/src/params.rs\<close>: composition of groups, validation, index
  arithmetic and the stage / enqueue / accept-or-reject transaction. The store's state is paired with
  the \<open>world\<close> its groups refer to. An operation on a store that was never validated panics: those
  return an option, \<open>None\<close> for the panic.
\<close>

record ParamStore =
  ps_commands :: "RtCommand list"
  ps_sample_rate :: SampleRate
  ps_entries :: "(Group \<times> CommandTarget) list"
  ps_validated :: bool

definition store_new :: "RtCommand list \<Rightarrow> SampleRate \<Rightarrow> ParamStore" where
  "store_new commands rate = \<lparr>ps_commands = commands, ps_sample_rate = rate, ps_entries = [],
     ps_validated = False\<rparr>"

definition store_push :: "Group \<Rightarrow> ParamStore \<Rightarrow> ParamStore option" where
  "store_push g s =
     (if ps_validated s then None
      else if length (ps_entries s) < MAX_GROUPS
      then Some (s\<lparr>ps_entries := ps_entries s @ [(g, group_target g)]\<rparr>)
      else None)"

definition total_count :: "ParamStore \<Rightarrow> nat" where
  "total_count s = sum_list (map (\<lambda>(g, _). length (group_params g)) (ps_entries s))"

fun locate_from :: "(Group \<times> CommandTarget) list \<Rightarrow> nat \<Rightarrow> nat \<Rightarrow> nat \<Rightarrow> (nat \<times> u16) option" where
  "locate_from [] gi base index = None"
| "locate_from ((g, t) # es) gi base index =
     (let count = length (group_params g)
      in if index < base + count then Some (gi, of_nat (index - base))
         else locate_from es (Suc gi) (base + count) index)"

definition locate :: "ParamStore \<Rightarrow> nat \<Rightarrow> (nat \<times> u16) option" where
  "locate s index = locate_from (ps_entries s) 0 0 index"

definition def_unchecked :: "ParamStore \<Rightarrow> nat \<Rightarrow> ParamDef option" where
  "def_unchecked s index =
     (case locate s index of
        None \<Rightarrow> None
      | Some (gi, ident) \<Rightarrow> get_at (group_params (fst (ps_entries s ! gi))) (unat ident))"

definition domain_claims :: "ParamStore \<Rightarrow> u8 \<Rightarrow> nat" where
  "domain_claims s d = length (filter (\<lambda>(_, t). t = ToProgram d) (ps_entries s))"

definition names_valid :: "ParamStore \<Rightarrow> bool" where
  "names_valid s \<longleftrightarrow>
     (\<forall>index \<in> set [0..<total_count s].
        case def_unchecked s index of
          None \<Rightarrow> False
        | Some d \<Rightarrow>
            is_ascii (pd_name d) \<and> length (pd_name d) \<le> MAX_PARAM_NAME_LEN
            \<and> length (pd_name d) + 5 \<le> MAX_PAYLOAD - 4
            \<and> (case pd_kind d of PkBlob maximum \<Rightarrow> maximum \<le> 65535 | _ \<Rightarrow> True)
            \<and> (\<forall>previous \<in> set [0..<index].
                 map_option pd_name (def_unchecked s previous) \<noteq> Some (pd_name d)))"

definition domains_valid :: "ParamStore \<Rightarrow> u8 list \<Rightarrow> bool" where
  "domains_valid s program_domains \<longleftrightarrow>
     DOMAIN_RIG \<notin> set program_domains \<and> distinct program_domains
     \<and> (\<forall>d \<in> set program_domains. domain_claims s d = 1)
     \<and> (\<forall>(_, t) \<in> set (ps_entries s). case t of ToProgram d \<Rightarrow> d \<in> set program_domains | _ \<Rightarrow> True)
     \<and> length (filter (\<lambda>(_, t). t = ToRig) (ps_entries s)) \<le> 1"

definition store_validate :: "u8 list \<Rightarrow> ParamStore \<Rightarrow> ParamStore option" where
  "store_validate program_domains s =
     (if ps_validated s then None
      else if \<not> total_count s \<le> 65535 then None
      else if \<not> names_valid s then None
      else if \<not> domains_valid s program_domains then None
      else Some (s\<lparr>ps_validated := True\<rparr>))"

definition store_count :: "ParamStore \<Rightarrow> nat option" where
  "store_count s = (if ps_validated s then Some (total_count s) else None)"

definition store_def :: "ParamStore \<Rightarrow> nat \<Rightarrow> ParamDef option option" where
  "store_def s index = (if ps_validated s then Some (def_unchecked s index) else None)"

definition store_get :: "world \<Rightarrow> ParamStore \<Rightarrow> nat \<Rightarrow> nat \<Rightarrow> (ErrorCode + bytes) option" where
  "store_get w s index out_len =
     (if \<not> ps_validated s then None
      else Some (try_bind (ok_or (locate s index) BadIndex) (\<lambda>(gi, ident).
             group_get w (fst (ps_entries s ! gi)) ident out_len)))"

text \<open>Replace the state of one group, keeping its captured target.\<close>

definition put_group :: "nat \<Rightarrow> Group \<Rightarrow> ParamStore \<Rightarrow> ParamStore" where
  "put_group i g s = s\<lparr>ps_entries := (ps_entries s)[i := (g, snd (ps_entries s ! i))]\<rparr>"

definition finish_staged ::
  "nat \<Rightarrow> u16 \<Rightarrow> Staged \<Rightarrow> world \<Rightarrow> ParamStore \<Rightarrow> (world \<times> ParamStore) \<times> (ErrorCode + ParamAction)" where
  "finish_staged gi ident staged w s =
     (let (g, target) = ps_entries s ! gi
      in case staged of
           StLocal action \<Rightarrow>
             (let (w1, g1) = group_accept ident (w, g); s1 = put_group gi g1 s
              in if action = ActResetDiagnostics
                 then ((foldl (\<lambda>w (g, _). group_reset_diagnostics g w) w1 (ps_entries s1), s1),
                       Inr ActNone)
                 else ((w1, s1), Inr action))
         | StRt payload \<Rightarrow>
             (let send = (\<lambda>domain.
                    let (q, ok) = enqueue COMMAND_QUEUE_LEN
                          \<lparr>rc_domain = domain, rc_id = ident, rc_payload = payload\<rparr> (ps_commands s)
                    in if ok
                       then let (w1, g1) = group_accept ident (w, g)
                            in ((w1, put_group gi g1 (s\<lparr>ps_commands := q\<rparr>)), Inr ActNone)
                       else let (w1, g1) = group_reject ident (Some payload) (w, g)
                            in ((w1, put_group gi g1 s), Inl Busy))
              in case target of
                   ToRig \<Rightarrow> send DOMAIN_RIG
                 | ToProgram domain \<Rightarrow> send domain
                 | ToCore0 \<Rightarrow>
                     (let (w1, g1) = group_reject ident (Some payload) (w, g)
                      in ((w1, put_group gi g1 s), Inl BadIndex))))"

definition store_set_located ::
  "nat \<Rightarrow> u16 \<Rightarrow> bytes \<Rightarrow> world \<Rightarrow> ParamStore \<Rightarrow> (world \<times> ParamStore) \<times> (ErrorCode + ParamAction)" where
  "store_set_located gi ident data w s =
     (let g = fst (ps_entries s ! gi)
      in case get_at (group_params g) (unat ident) of
           None \<Rightarrow> ((w, s), Inl BadIndex)
         | Some def \<Rightarrow>
             if \<not> pd_writable def then ((w, s), Inl ReadOnly)
             else if length data \<noteq> param_type_size (pd_ty def) * unat (pd_count def)
             then ((w, s), Inl BadLength)
             else
               case group_stage ident data (w, g) of
                 ((w1, g1), Inl e) \<Rightarrow> ((w1, put_group gi g1 s), Inl e)
               | ((w1, g1), Inr staged) \<Rightarrow> finish_staged gi ident staged w1 (put_group gi g1 s))"

definition store_set ::
  "nat \<Rightarrow> bytes \<Rightarrow> world \<Rightarrow> ParamStore \<Rightarrow> ((world \<times> ParamStore) \<times> (ErrorCode + ParamAction)) option" where
  "store_set index data w s =
     (if \<not> ps_validated s then None
      else Some (case locate s index of
             None \<Rightarrow> ((w, s), Inl BadIndex)
           | Some (gi, ident) \<Rightarrow> store_set_located gi ident data w s))"

definition store_set_block ::
  "nat \<Rightarrow> u32 \<Rightarrow> bytes \<Rightarrow> world \<Rightarrow> ParamStore \<Rightarrow> ((world \<times> ParamStore) \<times> (ErrorCode + unit)) option" where
  "store_set_block index offset data w s =
     (if \<not> ps_validated s then None
      else Some (case locate s index of
             None \<Rightarrow> ((w, s), Inl BadIndex)
           | Some (gi, ident) \<Rightarrow>
               (let ((w1, g1), r) = group_set_block ident offset data (w, fst (ps_entries s ! gi))
                in ((w1, put_group gi g1 s), r))))"

definition store_commit ::
  "nat \<Rightarrow> u32 \<Rightarrow> world \<Rightarrow> ParamStore \<Rightarrow> ((world \<times> ParamStore) \<times> (ErrorCode + unit)) option" where
  "store_commit index len w s =
     (if \<not> ps_validated s then None
      else Some (case locate s index of
             None \<Rightarrow> ((w, s), Inl BadIndex)
           | Some (gi, ident) \<Rightarrow>
               (case group_stage_commit ident len (w, fst (ps_entries s ! gi)) of
                  ((w1, g1), Inl e) \<Rightarrow> ((w1, put_group gi g1 s), Inl e)
                | ((w1, g1), Inr staged) \<Rightarrow>
                    (case finish_staged gi ident staged w1 (put_group gi g1 s) of
                       (ws, Inl e) \<Rightarrow> (ws, Inl e)
                     | (ws, Inr _) \<Rightarrow> (ws, Inr ())))))"

subsection \<open>The flat registry\<close>

text \<open>The indices a host uses are positions in the concatenation of the groups' definitions.\<close>

definition registry :: "ParamStore \<Rightarrow> ParamDef list" where
  "registry s = concat (map (\<lambda>(g, _). group_params g) (ps_entries s))"

lemma total_count_registry: "total_count s = length (registry s)"
  by (simp add: total_count_def registry_def length_concat comp_def split_def)

abbreviation def_count :: "(Group \<times> CommandTarget) list \<Rightarrow> nat" where
  "def_count es \<equiv> length (concat (map (\<lambda>(g, _). group_params g) es))"

lemma locate_from_Some:
  assumes "locate_from es gi base index = Some (k, ident)" "base \<le> index"
  shows "gi \<le> k \<and> k - gi < length es
    \<and> (\<exists>d. index = base + def_count (take (k - gi) es) + d
        \<and> d < length (group_params (fst (es ! (k - gi)))) \<and> ident = of_nat d)"
  using assms
proof (induction es gi base index rule: locate_from.induct)
  case (1 gi base index)
  then show ?case by simp
next
  case (2 g t es gi base index)
  show ?case
  proof (cases "index < base + length (group_params g)")
    case True
    with 2(2,3) show ?thesis by (auto simp: Let_def intro: exI [of _ "index - base"])
  next
    case False
    with 2(2) have "locate_from es (Suc gi) (base + length (group_params g)) index = Some (k, ident)"
      by (simp add: Let_def)
    note ih = 2(1) [OF refl False this]
    have "base + length (group_params g) \<le> index" using False by simp
    note ih = ih [OF this]
    then have "k - gi = Suc (k - Suc gi)" by linarith
    with ih show ?thesis by (auto simp: nth_Cons')
  qed
qed

lemma locate_from_None:
  "base \<le> index \<Longrightarrow> locate_from es gi base index = None \<longleftrightarrow>
     def_count es \<le> index - base"
  by (induction es gi base index rule: locate_from.induct) (auto simp: Let_def)

definition group_base :: "ParamStore \<Rightarrow> nat \<Rightarrow> nat" where
  "group_base s gi = def_count (take gi (ps_entries s))"

lemma locate_Some:
  assumes "locate s index = Some (gi, ident)" "total_count s \<le> 65535"
  shows "gi < length (ps_entries s)" "unat ident < length (group_params (fst (ps_entries s ! gi)))"
    "index = group_base s gi + unat ident"
proof -
  note l = locate_from_Some [OF assms(1) [unfolded locate_def]]
  then obtain d where gi: "gi < length (ps_entries s)"
    and d: "index = group_base s gi + d" "d < length (group_params (fst (ps_entries s ! gi)))"
      "ident = of_nat d"
    by (auto simp: group_base_def)
  have "index < total_count s"
    using assms(1) locate_from_None [of 0 index "ps_entries s" 0]
    by (simp add: locate_def total_count_registry registry_def)
  with assms(2) d have u: "unat ident = d" by (simp add: unat_of_nat take_bit_nat_eq_self)
  show "gi < length (ps_entries s)" by (rule gi)
  show "unat ident < length (group_params (fst (ps_entries s ! gi)))" using d u by simp
  show "index = group_base s gi + unat ident" using d u by simp
qed

lemma locate_None: "locate s index = None \<longleftrightarrow> total_count s \<le> index"
  by (simp add: locate_def locate_from_None total_count_registry registry_def)

lemma registry_nth:
  assumes "gi < length (ps_entries s)" "k < length (group_params (fst (ps_entries s ! gi)))"
  shows "registry s ! (group_base s gi + k) = group_params (fst (ps_entries s ! gi)) ! k"
proof -
  have "ps_entries s = take gi (ps_entries s) @ ps_entries s ! gi # drop (Suc gi) (ps_entries s)"
    using assms(1) by (simp add: id_take_nth_drop)
  then have "registry s = concat (map (\<lambda>(g, _). group_params g) (take gi (ps_entries s)))
      @ group_params (fst (ps_entries s ! gi))
      @ concat (map (\<lambda>(g, _). group_params g) (drop (Suc gi) (ps_entries s)))"
    unfolding registry_def by (metis (no_types, lifting) concat.simps(2) concat_append list.simps(9)
      map_append prod.case_eq_if)
  then show ?thesis using assms(2) by (simp add: group_base_def nth_append)
qed

lemma def_unchecked_registry:
  assumes "total_count s \<le> 65535"
  shows "def_unchecked s index = get_at (registry s) index"
proof (cases "locate s index")
  case None
  then show ?thesis
    using locate_None [of s index] by (simp add: def_unchecked_def total_count_registry get_at_def)
next
  case (Some p)
  obtain gi ident where p: "p = (gi, ident)" by (cases p)
  note l = locate_Some [OF Some [unfolded p] assms]
  have "index < length (registry s)"
    using Some locate_None [of s index] by (simp add: total_count_registry)
  then show ?thesis
    using l(2) registry_nth [OF l(1,2)] l(3) [symmetric] by (simp add: def_unchecked_def Some p get_at_def)
qed

lemma names_valid_iff:
  assumes "total_count s \<le> 65535"
  shows "names_valid s \<longleftrightarrow> distinct (map pd_name (registry s))
    \<and> list_all (\<lambda>d. is_ascii (pd_name d) \<and> length (pd_name d) \<le> MAX_PARAM_NAME_LEN
         \<and> length (pd_name d) + 5 \<le> MAX_PAYLOAD - 4
         \<and> (case pd_kind d of PkBlob maximum \<Rightarrow> maximum \<le> 65535 | _ \<Rightarrow> True)) (registry s)"
proof -
  have "distinct (map pd_name (registry s)) \<longleftrightarrow>
      (\<forall>i < length (registry s). \<forall>j < i. pd_name (registry s ! j) \<noteq> pd_name (registry s ! i))"
    unfolding distinct_conv_nth by (auto simp: nat_neq_iff) (metis order.strict_trans)+
  then show ?thesis
    by (auto simp: names_valid_def def_unchecked_registry [OF assms] total_count_registry get_at_def
        list_all_length)
qed

text \<open>
  The registry a validated store serves is the concatenation of its groups' parameter lists:
  the count is its length, the definition at every index is its element (so index arithmetic never
  crosses into a neighbouring group), all names are distinct, ASCII and fit one discovery page, and
  every programme domain is claimed by exactly one group.
\<close>

theorem validated_registry:
  assumes "store_validate domains s = Some s'"
  shows "store_count s' = Some (length (registry s'))
    \<and> (\<forall>index. store_def s' index = Some (get_at (registry s') index))
    \<and> distinct (map pd_name (registry s'))
    \<and> list_all (\<lambda>d. is_ascii (pd_name d) \<and> length (pd_name d) \<le> MAX_PARAM_NAME_LEN
           \<and> length (pd_name d) + 5 \<le> MAX_PAYLOAD - 4) (registry s')
    \<and> list_all (\<lambda>d. length (filter (\<lambda>(_, t). t = ToProgram d) (ps_entries s')) = 1) domains"
proof -
  have v: "\<not> ps_validated s" "total_count s \<le> 65535" "names_valid s" "domains_valid s domains"
    and s': "s' = s\<lparr>ps_validated := True\<rparr>"
    using assms by (auto simp: store_validate_def split: if_splits)
  have r: "registry s' = registry s" "total_count s' = total_count s" "ps_entries s' = ps_entries s"
    by (simp_all add: s' registry_def total_count_def)
  have c: "total_count s' \<le> 65535" using v(2) r by simp
  note n = v(3) [unfolded names_valid_iff [OF v(2)]]
  show ?thesis
  proof (intro conjI allI)
    show "store_count s' = Some (length (registry s'))"
      by (simp add: store_count_def s' total_count_registry)
    show "store_def s' index = Some (get_at (registry s') index)" for index
      using def_unchecked_registry [OF c] by (simp add: store_def_def s')
  qed (use n v(4) in \<open>auto simp: r list_all_iff domains_valid_def domain_claims_def\<close>)
qed

definition example_store :: ParamStore where
  "example_store = the (store_push (GTable (table_group_new 8 Hz1000))
     (the (store_push (GTelemetry (the (telemetry_new [extra_u32_event (as_bytes ''faults'') 0])))
       (store_new [] Hz1000))))"

lemma example_store_entries:
  "ps_entries example_store =
     [(GTelemetry \<lparr>te_values = [extra_u32_event (as_bytes ''faults'') 0],
         te_defs = [param_read_only (as_bytes ''faults'') TU32 1]\<rparr>, ToCore0),
      (GTable (table_group_new 8 Hz1000), ToProgram DOMAIN_TABLE)]"
  "ps_validated example_store = False" "ps_commands example_store = []"
  by (simp_all add: example_store_def store_push_def store_new_def MAX_GROUPS_def telemetry_new_def
      MAX_EXTRA_PARAMS_def extra_def_def extra_u32_event_def)

lemma example_store_registry:
  "registry example_store = param_read_only (as_bytes ''faults'') TU32 1 # table_params 8"
  by (simp add: registry_def example_store_entries table_group_new_def)

lemma example_store_valid: "store_validate [DOMAIN_TABLE] example_store
    = Some (example_store\<lparr>ps_validated := True\<rparr>)"
proof -
  note c = total_count_registry [of example_store]
  have t: "total_count example_store \<le> 65535"
    by (simp add: c example_store_registry table_params_def)
  moreover have "names_valid example_store"
    unfolding names_valid_iff [OF t] example_store_registry
    by (simp add: table_params_def param_read_only_def param_writable_def param_blob_def as_bytes_def
        is_ascii_def MAX_PARAM_NAME_LEN_def MAX_PAYLOAD_def)
  moreover have "domains_valid example_store [DOMAIN_TABLE]"
    by (simp add: domains_valid_def domain_claims_def example_store_entries DOMAIN_RIG_def
        DOMAIN_TABLE_def)
  ultimately show ?thesis by (simp add: store_validate_def example_store_entries)
qed

theorem validated_registry_witness:
  "store_count (example_store\<lparr>ps_validated := True\<rparr>) = Some 9
   \<and> map_option pd_name (the (store_def (example_store\<lparr>ps_validated := True\<rparr>) 1)) = Some (as_bytes ''table'')"
  using validated_registry [OF example_store_valid] example_store_registry
  by (simp add: registry_def table_params_def get_at_def param_blob_def)

end
