(* ===== verification/Rt_Store.thy ===== *)
theory Rt_Store
  imports Rt_Params
begin

text \<open>
  The guarantees of the parameter store of \<open>helic-rt/src/params.rs\<close>: a refused write or commit
  changes nothing, an accepted write reads back and touches no other parameter, every sequence of
  host requests keeps the store's invariant, a reboot needs the confirmation word, and an accepted
  table commit activates exactly what was uploaded. The proofs rest on the two interpretations of the
  group contract in \<open>Rt_Groups\<close>.
\<close>

subsection \<open>A refused write changes nothing\<close>

definition store_idle :: "ParamStore \<Rightarrow> bool" where
  "store_idle s \<longleftrightarrow> list_all (\<lambda>(g, _). group_idle g) (ps_entries s)"

lemma put_group_simps [simp]:
  "ps_commands (put_group i g s) = ps_commands s" "ps_validated (put_group i g s) = ps_validated s"
  "length (ps_entries (put_group i g s)) = length (ps_entries s)"
  "i < length (ps_entries s) \<Longrightarrow> fst (ps_entries (put_group i g s) ! i) = g"
  by (simp_all add: put_group_def)

lemma put_group_put_group [simp]: "put_group i h (put_group i g s) = put_group i h s"
  by (cases "i < length (ps_entries s)") (simp_all add: put_group_def list_update_beyond)

lemma put_group_same [simp]: "put_group i (fst (ps_entries s ! i)) s = s"
  by (simp add: put_group_def)

lemma group_get_view: "world_view w' = world_view w \<Longrightarrow> group_get w' g ident n = group_get w g ident n"
  by (cases g) (simp_all add: world_view_def platform_get_def telemetry_get_def)

lemma finish_staged_error:
  assumes "finish_staged gi ident staged w s = ((w', s'), Inl e)"
  shows "\<exists>p g'. staged = StRt p \<and> s' = put_group gi g' s
    \<and> group_reject ident (Some p) (w, fst (ps_entries s ! gi)) = (w', g')"
  using assms
  by (cases staged)
    (auto simp: finish_staged_def Let_def split: if_splits CommandTarget.splits prod.splits)

text \<open>A failed write of the store is a failed transaction on the located group.\<close>

lemma store_set_located_error:
  assumes "gi < length (ps_entries s)" "store_set_located gi ident data w s = ((w', s'), Inl e)"
  shows "(w', s') = (w, s)
    \<or> (\<exists>g' e'. set_txn.transaction False ident data (w, fst (ps_entries s ! gi)) = ((w', g'), Inl e')
        \<and> s' = put_group gi g' s)"
proof -
  let ?g = "fst (ps_entries s ! gi)"
  obtain w1 g1 r where st: "group_stage ident data (w, ?g) = ((w1, g1), r)" by (metis surj_pair)
  show ?thesis
  proof (cases r)
    case (Inl e1)
    then show ?thesis using assms st
      by (auto simp: store_set_located_def Let_def set_txn.transaction_def
          split: option.splits if_splits)
  next
    case (Inr staged)
    then have "(w', s') = (w, s) \<or> finish_staged gi ident staged w1 (put_group gi g1 s) = ((w', s'), Inl e)"
      using assms st by (auto simp: store_set_located_def Let_def split: option.splits if_splits)
    then show ?thesis
      using finish_staged_error [of gi ident staged w1 "put_group gi g1 s" w' s' e] assms(1) st Inr
      by (auto simp: set_txn.transaction_def)
  qed
qed

lemma store_idle_nth: "store_idle s \<Longrightarrow> i < length (ps_entries s) \<Longrightarrow> group_idle (fst (ps_entries s ! i))"
  by (auto simp: store_idle_def list_all_length split_def)

lemma locate_in_range: "locate s index = Some (gi, ident) \<Longrightarrow> gi < length (ps_entries s)"
  using locate_from_Some [of "ps_entries s" 0 0 index gi ident] by (simp add: locate_def)

lemma store_set_error:
  assumes "world_ok w" "store_idle s" "store_set index data w s = Some ((w', s'), Inl e)"
  shows "s' = s" "world_view w' = world_view w"
proof -
  have "s' = s \<and> world_view w' = world_view w"
  proof (cases "locate s index")
    case None
    then show ?thesis using assms(3) by (auto simp: store_set_def split: if_splits)
  next
    case (Some p)
    obtain gi ident where p: "p = (gi, ident)" by (cases p)
    note gi = locate_in_range [OF Some [unfolded p]]
    have "store_set_located gi ident data w s = ((w', s'), Inl e)"
      using assms(3) by (auto simp: store_set_def Some p split: if_splits)
    from store_set_located_error [OF gi this] show ?thesis
      using set_txn.transaction_atomic [OF assms(1) store_idle_nth [OF assms(2) gi]]
      by (metis Pair_inject put_group_same)
  qed
  then show "s' = s" "world_view w' = world_view w" by simp_all
qed

lemma store_commit_error:
  assumes "world_ok w" "store_idle s" "store_commit index len w s = Some ((w', s'), Inl e)"
  shows "s' = s" "world_view w' = world_view w"
proof -
  have "s' = s \<and> world_view w' = world_view w"
  proof (cases "locate s index")
    case None
    then show ?thesis using assms(3) by (auto simp: store_commit_def split: if_splits)
  next
    case (Some p)
    obtain gi ident where p: "p = (gi, ident)" by (cases p)
    note gi = locate_in_range [OF Some [unfolded p]]
    let ?g = "fst (ps_entries s ! gi)"
    obtain w1 g1 r where st: "group_stage_commit ident len (w, ?g) = ((w1, g1), r)" by (metis surj_pair)
    have "\<exists>g' e'. commit_txn.transaction False ident len (w, ?g) = ((w', g'), Inl e')
        \<and> s' = put_group gi g' s"
    proof (cases r)
      case (Inl e1)
      then show ?thesis using assms(3) st
        by (auto simp: store_commit_def Some p commit_txn.transaction_def split: if_splits)
    next
      case (Inr staged)
      then have "finish_staged gi ident staged w1 (put_group gi g1 s) = ((w', s'), Inl e)"
        using assms(3) st
        by (auto simp: store_commit_def Some p split: if_splits prod.splits sum.splits)
      from finish_staged_error [OF this] show ?thesis using st gi Inr
        by (auto simp: commit_txn.transaction_def)
    qed
    then show ?thesis
      using commit_txn.transaction_atomic [OF assms(1) store_idle_nth [OF assms(2) gi]]
      by (metis put_group_same)
  qed
  then show "s' = s" "world_view w' = world_view w" by simp_all
qed


definition full_store :: ParamStore where
  "full_store = example_store\<lparr>ps_validated := True,
     ps_commands := replicate 31 \<lparr>rc_domain = DOMAIN_TABLE, rc_id = TBL_TRIGGER, rc_payload = PUnit\<rparr>\<rparr>"

lemma full_store_idle: "store_idle full_store"
  by (simp add: store_idle_def full_store_def example_store_entries table_group_new_def)

lemma full_store_locate:
  "locate full_store 1 = Some (1, 0)" "locate full_store 3 = Some (1, 2)"
  by (simp_all add: locate_def full_store_def example_store_entries table_group_new_def table_params_def)

lemma full_store_group:
  "ps_entries full_store ! 1 = (GTable (table_group_new 8 Hz1000), ToProgram DOMAIN_TABLE)"
  "ps_validated full_store" "length (ps_commands full_store) = 31"
  by (simp_all add: full_store_def example_store_entries)


text \<open>
  The same of the commit of an uploaded table: a refused commit (bad length, a non-finite
  sample, a pending commit, a full command queue) leaves store, commands, shared state and the
  active and pending banks as they were, so the upload can be tried again.
\<close>

theorem refused_commit_changes_nothing:
  assumes "world_ok w" "store_idle s" "store_commit index len w s = Some ((w', s'), Inl e)"
  shows "s' = s \<and> world_view w' = world_view w
    \<and> (\<forall>i n. store_get w' s' i n = store_get w s i n)"
  using store_commit_error [OF assms] group_get_view [of w' w] by (auto simp: store_get_def split_def)

theorem refused_commit_changes_nothing_witness:
  "case the (store_commit 1 9 example_world full_store) of ((w', s'), r) \<Rightarrow>
     r = Inl BadValue \<and> s' = full_store \<and> world_view w' = world_view example_world"
proof -
  obtain w' s' where r: "store_commit 1 9 example_world full_store = Some ((w', s'), Inl BadValue)"
    using full_store_group full_store_locate
    by (auto simp: store_commit_def table_group_new_def table_stage_commit_def put_group_def)
  show ?thesis
    using refused_commit_changes_nothing [OF example_world_ok full_store_idle r] r by simp
qed

subsection \<open>Reading back what was written\<close>

fun group_wf :: "Group \<Rightarrow> bool" where
  "group_wf (GPlatform g) \<longleftrightarrow> True"
| "group_wf (GGenerator g) \<longleftrightarrow> gg_H g \<le> MAX_HARMONICS \<and> gg_defs g = generator_params (gg_H g)
     \<and> length (fc_a (gg_target g)) = gg_H g \<and> length (fc_a (gg_forcing g)) = gg_H g"
| "group_wf (GTable g) \<longleftrightarrow> tg_defs g = table_params (tg_N g) \<and> tg_N g \<le> 65535"
| "group_wf (GTelemetry g) \<longleftrightarrow> te_defs g = map extra_def (te_values g)
     \<and> list_all (\<lambda>x. param_type_size (xp_ty x) = 4) (te_values g)"
| "group_wf (GRig g) \<longleftrightarrow> length (sg_defs g) \<le> length (sg_values g)
     \<and> list_all (\<lambda>d. pd_ty d = TF32 \<and> pd_count d = 1) (sg_defs g)"
| "group_wf (GControl g) \<longleftrightarrow> length (sg_defs g) \<le> length (sg_values g)
     \<and> list_all (\<lambda>d. pd_ty d = TF32 \<and> pd_count d = 1) (sg_defs g)"

text \<open>
  What a read returns once a write of \<open>data\<close> was accepted: the bytes written, except that a trigger
  reads back zero and that rig and control parameters read back the normalised value. Platform and
  telemetry parameters show shared state rather than a shadow.
\<close>

definition normalised_bytes :: "ScalarGroup \<Rightarrow> u16 \<Rightarrow> bytes \<Rightarrow> bytes option" where
  "normalised_bytes g ident data =
     (case read_f32 data of Inl _ \<Rightarrow> None | Inr v \<Rightarrow> map_option f32_to_le (sg_normalise g ident v))"

fun shadow_bytes :: "Group \<Rightarrow> u16 \<Rightarrow> bytes \<Rightarrow> bytes option" where
  "shadow_bytes (GPlatform g) ident data = None"
| "shadow_bytes (GGenerator g) ident data = Some data"
| "shadow_bytes (GTable g) ident data = Some (if ident = 7 then u32_to_le 0 else data)"
| "shadow_bytes (GTelemetry g) ident data = None"
| "shadow_bytes (GRig g) ident data = normalised_bytes g ident data"
| "shadow_bytes (GControl g) ident data = normalised_bytes g ident data"

lemma list_of_4: "length xs = 4 \<Longrightarrow> [xs ! 0, xs ! Suc 0, xs ! 2, xs ! 3] = xs"
  by (auto simp: list_eq_iff_nth_eq numeral_eq_Suc less_Suc_eq)

lemma read_u32_back: "read_u32 data = Inr v \<Longrightarrow> u32_to_le v = data \<and> length data = 4"
  by (auto simp: read_u32_def list_of_4 split: if_splits)

lemma read_f32_back: "read_f32 data = Inr v \<Longrightarrow> f32_to_le v = data \<and> length data = 4"
  by (auto simp: read_f32_def f32_to_le_def f32_from_le_def list_of_4 split: if_splits)

lemma generator_params_simps:
  "length (generator_params H) = 3"
  "get_at (generator_params H) 0 = Some (param_writable (as_bytes ''freq'') TF32 1)"
  "get_at (generator_params H) (Suc 0) = Some (param_writable (as_bytes ''target_coeffs'') TF32 (of_nat (1 + 2 * H)))"
  "get_at (generator_params H) 2 = Some (param_writable (as_bytes ''forcing_coeffs'') TF32 (of_nat (1 + 2 * H)))"
  by (simp_all add: generator_params_def)

lemma generator_write_read:
  assumes "group_wf (GGenerator g)" "gg_pending g = GpNone"
    and "generator_stage ident data w g = ((w1, g1), Inr staged)"
  shows "generator_get (generator_accept g1) ident n = (if n < length data then Inl BadLength else Inr data)"
    and "ident' \<noteq> ident \<Longrightarrow> generator_get (generator_accept g1) ident' n = generator_get g ident' n"
    and "group_wf (GGenerator (generator_accept g1))" "gg_defs (generator_accept g1) = gg_defs g"
proof -
  have H: "unat (1 + 2 * of_nat (gg_H g) :: u16) = 1 + 2 * gg_H g"
  proof -
    have "1 + 2 * gg_H g < 65536" using assms(1) by (simp add: MAX_HARMONICS_def)
    from u16_of_nat_le_roundtrip [OF this] show ?thesis by simp
  qed
  have len: "length data = 4 + 8 * gg_H g \<and> serialize_coeffs c (replicate (4 + 8 * gg_H g) 0) = data"
    if "deserialize_coeffs (gg_H g) data = Inr c" for c
  proof -
    have "length data = 4 + 8 * gg_H g" using that by (auto simp: deserialize_coeffs_def split: if_splits)
    with deserialize_serialize [OF that] show ?thesis by simp
  qed
  show "generator_get (generator_accept g1) ident n = (if n < length data then Inl BadLength else Inr data)"
    using assms H
    by (auto simp: generator_stage_def generator_get_def generator_accept_def checked_output_def
        generator_params_simps param_writable_def Let_def
        dest: read_f32_back len split: if_splits sum.splits prod.splits)
  consider (f) v where "ident = 0" "generator_accept g1 = g\<lparr>gg_pending := GpNone, gg_frequency := v\<rparr>"
    | (t) c where "ident = 1" "generator_accept g1 = g\<lparr>gg_pending := GpNone, gg_target := c\<rparr>"
    | (u) c where "ident = 2" "generator_accept g1 = g\<lparr>gg_pending := GpNone, gg_forcing := c\<rparr>"
    using assms(2,3)
    by (auto simp: generator_stage_def generator_accept_def split: if_splits sum.splits prod.splits)
  then show "ident' \<noteq> ident \<Longrightarrow> generator_get (generator_accept g1) ident' n = generator_get g ident' n"
    by cases (cases "ident' = 0"; cases "ident' = 1"; cases "ident' = 2"; simp add: generator_get_def)+
  have shape: "length (fc_a c) = gg_H g" if "deserialize_coeffs (gg_H g) data = Inr c" for c
    using that by (auto simp: deserialize_coeffs_def Let_def split: if_splits)
  show "group_wf (GGenerator (generator_accept g1))" "gg_defs (generator_accept g1) = gg_defs g"
    using assms
    by (auto simp: generator_stage_def generator_accept_def Let_def shape split: if_splits sum.splits prod.splits)
qed

lemma table_params_simps:
  "length (table_params N) = 8"
  "get_at (table_params N) (Suc 0) = Some (param_writable (as_bytes ''table_freq'') TF32 1)"
  "get_at (table_params N) 2 = Some (param_writable (as_bytes ''table_gain'') TF32 1)"
  "get_at (table_params N) 3 = Some (param_writable (as_bytes ''table_interp'') TU32 1)"
  "get_at (table_params N) 4 = Some (param_writable (as_bytes ''table_mode'') TU32 1)"
  "get_at (table_params N) 5 = Some (param_writable (as_bytes ''table_mult'') TU32 1)"
  "get_at (table_params N) 6 = Some (param_writable (as_bytes ''table_phase'') TF32 1)"
  "get_at (table_params N) 7 = Some (param_writable (as_bytes ''table_trigger'') TU32 1)"
  by (simp_all add: table_params_def)

lemma table_write_read:
  assumes "group_wf (GTable g)" "tg_pending g = TpNone" "table_stage ident data g = (g1, Inr staged)"
  shows "table_group_get (table_accept g1) ident n
      = (if n < length data then Inl BadLength else Inr (if ident = 7 then u32_to_le 0 else data))"
    and "ident' \<noteq> ident \<Longrightarrow> table_group_get (table_accept g1) ident' n = table_group_get g ident' n"
    and "group_wf (GTable (table_accept g1))" "tg_defs (table_accept g1) = tg_defs g"
  subgoal
    using assms
    by (auto simp: table_stage_def table_stage_scalar_def table_group_get_def table_accept_def
        checked_output_def table_params_simps param_writable_def Let_def
        dest: read_f32_back read_u32_back split: if_splits sum.splits)
  subgoal
    using assms
    by (auto simp: table_stage_def table_stage_scalar_def table_group_get_def table_accept_def Let_def
        split: if_splits sum.splits)
  subgoal
    using assms
    by (auto simp: table_stage_def table_stage_scalar_def table_accept_def Let_def
        split: if_splits sum.splits)
  subgoal
    using assms
    by (auto simp: table_stage_def table_stage_scalar_def table_accept_def Let_def
        split: if_splits sum.splits)
  done

lemma scalar_write_read:
  assumes "length (sg_defs g) \<le> length (sg_values g)" "list_all (\<lambda>d. pd_ty d = TF32 \<and> pd_count d = 1) (sg_defs g)"
    and "unat ident < length (sg_defs g)" "scalar_stage ident data g = (g1, Inr staged)"
  shows "\<exists>out. normalised_bytes g ident data = Some out \<and> length out = 4
      \<and> scalar_get (scalar_accept g1) ident n = (if n < 4 then Inl BadLength else Inr out)"
    and "ident' \<noteq> ident \<Longrightarrow> scalar_get (scalar_accept g1) ident' n = scalar_get g ident' n"
    and "sg_defs (scalar_accept g1) = sg_defs g" "length (sg_values (scalar_accept g1)) = length (sg_values g)"
proof -
  obtain v u where v: "read_f32 data = Inr v" "sg_normalise g ident v = Some u"
    "g1 = g\<lparr>sg_pending := Some (unat ident, u)\<rparr>"
    using assms(4) by (auto simp: scalar_stage_def split: sum.splits option.splits)
  show "\<exists>out. normalised_bytes g ident data = Some out \<and> length out = 4
      \<and> scalar_get (scalar_accept g1) ident n = (if n < 4 then Inl BadLength else Inr out)"
    using v assms(1-3)
    by (auto simp: normalised_bytes_def scalar_get_def scalar_accept_def checked_output_def get_at_def
        list_all_length Let_def)
  have "ident' \<noteq> ident \<Longrightarrow> unat ident' \<noteq> unat ident" by (simp add: word_unat_eq_iff)
  then show "ident' \<noteq> ident \<Longrightarrow> scalar_get (scalar_accept g1) ident' n = scalar_get g ident' n"
    using v by (auto simp: scalar_get_def scalar_accept_def get_at_def)
  show "sg_defs (scalar_accept g1) = sg_defs g" "length (sg_values (scalar_accept g1)) = length (sg_values g)"
    using v by (simp_all add: scalar_accept_def)
qed


text \<open>One accepted write, for any group with a shadow.\<close>

lemma group_write_read:
  assumes "group_wf g" "group_idle g" "unat ident < length (group_params g)"
    and "length data = param_type_size (pd_ty (group_params g ! unat ident))
           * unat (pd_count (group_params g ! unat ident))"
    and "group_stage ident data (w, g) = ((w1, g1), Inr staged)"
    and "group_accept ident (w1, g1) = (w2, g2)"
  shows "shadow_bytes g ident data = Some out \<Longrightarrow>
      group_get w' g2 ident n = (if n < length out then Inl BadLength else Inr out)"
    and "shadow_bytes g ident data = Some out \<Longrightarrow> ident' \<noteq> ident \<Longrightarrow>
      group_get w' g2 ident' n = group_get w' g ident' n"
    and "shadow_bytes g ident data = Some out \<Longrightarrow> w_shared w2 = w_shared w \<and> w_telemetry w2 = w_telemetry w"
    and "group_wf g2" "group_params g2 = group_params g"
proof -
  have "(\<forall>out. shadow_bytes g ident data = Some out \<longrightarrow>
      group_get w' g2 ident n = (if n < length out then Inl BadLength else Inr out)
      \<and> (ident' \<noteq> ident \<longrightarrow> group_get w' g2 ident' n = group_get w' g ident' n)
      \<and> w_shared w2 = w_shared w \<and> w_telemetry w2 = w_telemetry w)
    \<and> group_wf g2 \<and> group_params g2 = group_params g"
  proof (cases g)
    case (GPlatform x)
    then show ?thesis using assms(5,6) by (auto split: prod.splits)
  next
    case (GGenerator x)
    with assms(5,6) obtain x1 where st: "generator_stage ident data w x = ((w1, x1), Inr staged)"
      and g2: "g2 = GGenerator (generator_accept x1)" "w2 = w1"
      by (auto split: prod.splits)
    have "w_shared w1 = w_shared w \<and> w_telemetry w1 = w_telemetry w"
      using st by (auto simp: generator_stage_def split: if_splits sum.splits prod.splits)
    with generator_write_read [OF _ _ st] assms(1,2) show ?thesis by (simp add: GGenerator g2)
  next
    case (GTable x)
    with assms(5,6) obtain x1 where st: "table_stage ident data x = (x1, Inr staged)"
      and g2: "g2 = GTable (table_accept x1)" "w2 = w"
      by (auto split: prod.splits)
    have "ident = 7 \<Longrightarrow> length data = 4"
      using st by (auto simp: table_stage_def table_stage_scalar_def dest: read_u32_back split: sum.splits)
    with table_write_read [OF _ _ st] assms(1,2) show ?thesis by (auto simp: GTable g2)
  next
    case (GTelemetry x)
    then show ?thesis using assms(5) by simp
  next
    case (GRig x)
    with assms(5,6) obtain x1 where st: "scalar_stage ident data x = (x1, Inr staged)"
      and g2: "g2 = GRig (scalar_accept x1)" "w2 = w"
      by (auto split: prod.splits)
    show ?thesis using scalar_write_read(1) [OF _ _ _ st, of n] scalar_write_read(2) [OF _ _ _ st, of ident' n]
        scalar_write_read(3,4) [OF _ _ _ st] assms(1,3) by (auto simp: GRig g2)
  next
    case (GControl x)
    with assms(5,6) obtain x1 where st: "scalar_stage ident data x = (x1, Inr staged)"
      and g2: "g2 = GControl (scalar_accept x1)" "w2 = w"
      by (auto split: prod.splits)
    show ?thesis using scalar_write_read(1) [OF _ _ _ st, of n] scalar_write_read(2) [OF _ _ _ st, of ident' n]
        scalar_write_read(3,4) [OF _ _ _ st] assms(1,3) by (auto simp: GControl g2)
  qed
  then show "shadow_bytes g ident data = Some out \<Longrightarrow>
      group_get w' g2 ident n = (if n < length out then Inl BadLength else Inr out)"
    and "shadow_bytes g ident data = Some out \<Longrightarrow> ident' \<noteq> ident \<Longrightarrow>
      group_get w' g2 ident' n = group_get w' g ident' n"
    and "shadow_bytes g ident data = Some out \<Longrightarrow> w_shared w2 = w_shared w \<and> w_telemetry w2 = w_telemetry w"
    and "group_wf g2" "group_params g2 = group_params g"
    by blast+
qed

subsection \<open>The invariant of a running store\<close>

definition store_ok :: "world \<Rightarrow> ParamStore \<Rightarrow> bool" where
  "store_ok w s \<longleftrightarrow> ps_validated s \<and> world_ok w \<and> store_idle s
     \<and> list_all (\<lambda>(g, t). group_wf g \<and> t = group_target g) (ps_entries s)
     \<and> length (ps_commands s) < COMMAND_QUEUE_LEN \<and> total_count s \<le> 65535"

lemma store_ok_nth:
  "store_ok w s \<Longrightarrow> i < length (ps_entries s) \<Longrightarrow>
   group_wf (fst (ps_entries s ! i)) \<and> group_idle (fst (ps_entries s ! i))
   \<and> snd (ps_entries s ! i) = group_target (fst (ps_entries s ! i))"
  by (auto simp: store_ok_def store_idle_def list_all_length split_def)

lemma put_group_nth:
  "j < length (ps_entries s) \<Longrightarrow> ps_entries (put_group i g s) ! j =
     (if j = i then (g, snd (ps_entries s ! i)) else ps_entries s ! j)"
  by (simp add: put_group_def nth_list_update)

lemma registry_put_group:
  assumes "group_params g = group_params (fst (ps_entries s ! i))"
  shows "map (\<lambda>(g, _). group_params g) (ps_entries (put_group i g s)) = map (\<lambda>(g, _). group_params g) (ps_entries s)"
  using assms by (intro nth_equalityI) (simp_all add: put_group_nth split_def)

lemma locate_from_cong:
  "map (\<lambda>(g, _). group_params g) es = map (\<lambda>(g, _). group_params g) es' \<Longrightarrow>
   locate_from es gi base index = locate_from es' gi base index"
proof (induction es arbitrary: es' gi base)
  case Nil
  then show ?case by simp
next
  case (Cons e es)
  then obtain e' r where es': "es' = e' # r" by (cases es') auto
  with Cons.prems Cons.IH [of r] show ?case by (cases e; cases e') (simp add: Let_def)
qed

lemma put_group_frame:
  assumes "group_params g = group_params (fst (ps_entries s ! i))"
  shows "locate (put_group i g s) index = locate s index"
    and "total_count (put_group i g s) = total_count s"
proof -
  note m = registry_put_group [OF assms]
  show "locate (put_group i g s) index = locate s index"
    unfolding locate_def by (rule locate_from_cong [OF m])
  show "total_count (put_group i g s) = total_count s"
    unfolding total_count_registry registry_def m ..
qed

text \<open>What a successful \<open>finish_staged\<close> did.\<close>

lemma finish_staged_ok:
  assumes "finish_staged gi ident staged w s = ((w', s'), Inr a)"
    and "group_accept ident (w, fst (ps_entries s ! gi)) = (w1, g1)"
  obtains (silent) action where "staged = StLocal action" "s' = put_group gi g1 s"
      "action \<noteq> ActResetDiagnostics" "w' = w1" "a = action"
  | (reset) "staged = StLocal ActResetDiagnostics" "s' = put_group gi g1 s" "a = ActNone"
      "w' = foldl (\<lambda>w (g, _). group_reset_diagnostics g w) w1 (ps_entries (put_group gi g1 s))"
  | (sent) p domain where "staged = StRt p" "w' = w1" "a = ActNone"
      "snd (ps_entries s ! gi) = (if domain = DOMAIN_RIG \<and> snd (ps_entries s ! gi) = ToRig then ToRig
         else ToProgram domain)"
      "length (ps_commands s) < COMMAND_QUEUE_LEN - 1"
      "s' = put_group gi g1 (s\<lparr>ps_commands := ps_commands s
              @ [\<lparr>rc_domain = domain, rc_id = ident, rc_payload = p\<rparr>]\<rparr>)"
proof (cases staged)
  case (StLocal action)
  then show ?thesis using assms silent reset
    by (cases "action = ActResetDiagnostics") (auto simp: finish_staged_def Let_def split: prod.splits)
next
  case (StRt p)
  obtain g target where e: "ps_entries s ! gi = (g, target)" by (cases "ps_entries s ! gi")
  show ?thesis
  proof (cases target)
    case ToCore0
    then show ?thesis using assms(1) by (auto simp: finish_staged_def e StRt Let_def split: prod.splits)
  next
    case ToRig
    show ?thesis
      by (rule sent [of p DOMAIN_RIG]) (use assms e in \<open>auto simp: finish_staged_def StRt ToRig
        Let_def enqueue_def split: prod.splits if_splits\<close>)
  next
    case (ToProgram d)
    show ?thesis
      by (rule sent [of p d]) (use assms e in \<open>auto simp: finish_staged_def StRt ToProgram
        Let_def enqueue_def split: prod.splits if_splits\<close>)
  qed
qed

lemma group_reset_frame:
  "world_ok (group_reset_diagnostics g w) = world_ok w"
  by (cases g) (simp_all add: platform_reset_diagnostics_def telemetry_reset_diagnostics_def world_ok_def)

lemma reset_all_ok: "world_ok (foldl (\<lambda>w (g, _). group_reset_diagnostics g w) w es) = world_ok w"
  by (induction es arbitrary: w) (simp_all add: group_reset_frame split_def)

lemma store_ok_put:
  assumes "store_ok w s" "world_ok w'" "group_wf g" "group_idle g"
    and "group_params g = group_params (fst (ps_entries s ! gi))"
    and "group_target g = group_target (fst (ps_entries s ! gi))"
    and "length q < COMMAND_QUEUE_LEN"
  shows "store_ok w' (put_group gi g (s\<lparr>ps_commands := q\<rparr>))"
proof -
  let ?s = "s\<lparr>ps_commands := q\<rparr>"
  have s: "store_ok w ?s" using assms(1,7) by (simp add: store_ok_def store_idle_def total_count_def)
  have "total_count (put_group gi g ?s) = total_count ?s"
    using put_group_frame(2) [of g ?s gi] assms(5) by simp
  moreover have "list_all (\<lambda>(g, t). group_wf g \<and> t = group_target g) (ps_entries (put_group gi g ?s))"
    using store_ok_nth [OF assms(1)] assms(3,6)
    by (simp add: list_all_length put_group_nth split_def)
  moreover have "store_idle (put_group gi g ?s)"
    using store_ok_nth [OF assms(1)] assms(4)
    by (simp add: store_idle_def list_all_length put_group_nth split_def)
  ultimately show ?thesis using s assms(2) by (simp add: store_ok_def)
qed

lemma group_target_stable:
  "group_stage ident data (w, g) = ((w1, g1), r) \<Longrightarrow> group_target g1 = group_target g"
  "group_accept ident (w, g) = (w2, g2) \<Longrightarrow> group_target g2 = group_target g"
  by (cases g; auto split: prod.splits)+

text \<open>An accepted write, from the store down to the group.\<close>

lemma store_set_ok:
  assumes "store_ok w s" "store_set index data w s = Some ((w', s'), Inr a)"
  obtains gi ident w1 g1 staged w2 g2 where "locate s index = Some (gi, ident)" "gi < length (ps_entries s)"
    "unat ident < length (group_params (fst (ps_entries s ! gi)))"
    "pd_writable (group_params (fst (ps_entries s ! gi)) ! unat ident)"
    "length data = param_type_size (pd_ty (group_params (fst (ps_entries s ! gi)) ! unat ident))
           * unat (pd_count (group_params (fst (ps_entries s ! gi)) ! unat ident))"
    "group_stage ident data (w, fst (ps_entries s ! gi)) = ((w1, g1), Inr staged)"
    "group_accept ident (w1, g1) = (w2, g2)"
    "finish_staged gi ident staged w1 (put_group gi g1 s) = ((w', s'), Inr a)"
proof -
  have v: "ps_validated s" using assms(1) by (simp add: store_ok_def)
  then obtain gi ident where l: "locate s index = Some (gi, ident)"
    and st: "store_set_located gi ident data w s = ((w', s'), Inr a)"
    using assms(2) by (auto simp: store_set_def split: option.splits)
  obtain w1 g1 r where sg: "group_stage ident data (w, fst (ps_entries s ! gi)) = ((w1, g1), r)"
    by (metis surj_pair)
  obtain w2 g2 where ac: "group_accept ident (w1, g1) = (w2, g2)" by (metis surj_pair)
  have "total_count s \<le> 65535" using assms(1) by (simp add: store_ok_def)
  note lo = locate_Some [OF l this]
  show ?thesis
    using that [OF l lo(1,2)] st sg ac lo(2)
    by (auto simp: store_set_located_def Let_def get_at_def split: if_splits sum.splits)
qed


lemma store_set_ok_keeps:
  assumes "store_ok w s" "store_set index data w s = Some ((w', s'), Inr a)"
  shows "store_ok w' s'"
proof -
  obtain gi ident w1 g1 staged w2 g2 where o: "locate s index = Some (gi, ident)" "gi < length (ps_entries s)"
    "unat ident < length (group_params (fst (ps_entries s ! gi)))"
    "length data = param_type_size (pd_ty (group_params (fst (ps_entries s ! gi)) ! unat ident))
           * unat (pd_count (group_params (fst (ps_entries s ! gi)) ! unat ident))"
    "group_stage ident data (w, fst (ps_entries s ! gi)) = ((w1, g1), Inr staged)"
    "group_accept ident (w1, g1) = (w2, g2)"
    "finish_staged gi ident staged w1 (put_group gi g1 s) = ((w', s'), Inr a)"
    by (rule store_set_ok [OF assms])
  let ?g = "fst (ps_entries s ! gi)"
  note wf = store_ok_nth [OF assms(1) o(2)]
  have ok: "world_ok w" using assms(1) by (simp add: store_ok_def)
  have w1: "world_ok w1" using group_stage_contract(1) [OF ok o(5)] .
  have w2: "world_ok w2" using group_accept_ok [OF w1, of ident g1] o(6) by simp
  have g2: "group_wf g2" "group_params g2 = group_params ?g" "group_idle g2" "group_target g2 = group_target ?g"
    using group_write_read(4,5) [OF _ _ o(3-6)] wf group_accept_idle [of ident w1 g1] o(6)
      group_target_stable(1) [OF o(5)] group_target_stable(2) [OF o(6)] by auto
  note put = store_ok_put [OF assms(1) _ g2(1,3,2,4)]
  have ac: "group_accept ident (w1, fst (ps_entries (put_group gi g1 s) ! gi)) = (w2, g2)"
    using o(2,6) by simp
  have q: "length (ps_commands s) < COMMAND_QUEUE_LEN" using assms(1) by (simp add: store_ok_def)
  have same: "put_group gi g2 (s\<lparr>ps_commands := ps_commands s\<rparr>) = put_group gi g2 s" by simp
  show ?thesis using o(7) ac
  proof (cases rule: finish_staged_ok)
    case silent
    then show ?thesis using put [OF w2 q] by (simp add: same)
  next
    case reset
    then show ?thesis using put [OF _ q] w2 by (simp add: reset_all_ok same)
  next
    case (sent p domain)
    have "put_group gi g2 ((put_group gi g1 s)\<lparr>ps_commands := q\<rparr>)
        = put_group gi g2 (s\<lparr>ps_commands := q\<rparr>)" for q
      by (cases "gi < length (ps_entries s)") (simp_all add: put_group_def list_update_beyond)
    then show ?thesis using sent put [OF w2] by simp
  qed
qed


lemma store_set_keeps:
  assumes "store_ok w s" "store_set index data w s = Some ((w', s'), r)"
  shows "store_ok w' s'"
proof (cases r)
  case (Inl e)
  have ok: "world_ok w" "store_idle s" using assms(1) by (simp_all add: store_ok_def)
  have s': "s' = s" using store_set_error(1) [OF ok] assms(2) Inl by blast
  have "world_ok w'"
  proof (cases "locate s index")
    case None
    then show ?thesis using assms(2) ok(1) by (auto simp: store_set_def split: if_splits)
  next
    case (Some p)
    obtain gi ident where p: "p = (gi, ident)" by (cases p)
    note gi = locate_in_range [OF Some [unfolded p]]
    have "store_set_located gi ident data w s = ((w', s'), Inl e)"
      using assms(2) by (auto simp: store_set_def Some p Inl split: if_splits)
    from store_set_located_error [OF gi this] show ?thesis
      using set_txn.transaction_keeps(1) [OF ok(1) store_idle_nth [OF ok(2) gi]] ok(1) by blast
  qed
  then show ?thesis using assms(1) by (simp add: s' store_ok_def)
next
  case (Inr a)
  then show ?thesis using store_set_ok_keeps assms by blast
qed


lemma group_stage_commit_table:
  assumes "group_stage_commit ident len (w, g) = ((w1, g1), Inr staged)" "group_idle g"
  shows "\<exists>t token. g = GTable t \<and> g1 = g \<and> staged = StRt (PBuffer token)
    \<and> table_stage_commit ident len w t = (w1, Inr staged) \<and> group_accept ident (w1, g1) = (w1, g)"
  using assms
  by (cases g) (auto simp: table_stage_commit_def table_accept_def Let_def
      split: if_splits sum.splits prod.splits)

lemma store_commit_ok:
  assumes "store_ok w s" "store_commit index len w s = Some ((w', s'), Inr ())"
  obtains gi ident t token domain where "locate s index = Some (gi, ident)" "gi < length (ps_entries s)"
    "ps_entries s ! gi = (GTable t, ToProgram DOMAIN_TABLE)"
    "table_stage_commit ident len w t = (w', Inr (StRt (PBuffer token)))"
    "length (ps_commands s) < COMMAND_QUEUE_LEN - 1"
    "s' = s\<lparr>ps_commands := ps_commands s
              @ [\<lparr>rc_domain = DOMAIN_TABLE, rc_id = ident, rc_payload = PBuffer token\<rparr>]\<rparr>"
proof -
  obtain gi ident where l: "locate s index = Some (gi, ident)"
    using assms by (auto simp: store_ok_def store_commit_def split: option.splits)
  note gi = locate_in_range [OF l]
  let ?g = "fst (ps_entries s ! gi)"
  obtain w1 g1 staged where sg: "group_stage_commit ident len (w, ?g) = ((w1, g1), Inr staged)"
    and f: "\<exists>a. finish_staged gi ident staged w1 (put_group gi g1 s) = ((w', s'), Inr a)"
    using assms l
    by (auto simp: store_ok_def store_commit_def split: prod.splits sum.splits)
  obtain t token where t: "?g = GTable t" "g1 = ?g" "staged = StRt (PBuffer token)"
    "table_stage_commit ident len w t = (w1, Inr staged)" "group_accept ident (w1, g1) = (w1, ?g)"
    using group_stage_commit_table [OF sg] store_ok_nth [OF assms(1) gi] by blast
  have e: "ps_entries s ! gi = (GTable t, ToProgram DOMAIN_TABLE)"
    using t(1) store_ok_nth [OF assms(1) gi] by (cases "ps_entries s ! gi") auto
  obtain a where f: "finish_staged gi ident staged w1 s = ((w', s'), Inr a)" using f t(2) by auto
  have ac: "group_accept ident (w1, ?g) = (w1, ?g)" using t(2,5) by simp
  show ?thesis using f ac
  proof (cases rule: finish_staged_ok)
    case (sent p domain)
    have "put_group gi ?g (s\<lparr>ps_commands := q\<rparr>) = s\<lparr>ps_commands := q\<rparr>" for q
      by (simp add: put_group_def)
    with sent show ?thesis using that [OF l gi e] t(3,4) e by (auto split: if_splits)
  qed (use t(3) in simp_all)
qed

lemma store_commit_keeps:
  assumes "store_ok w s" "store_commit index len w s = Some ((w', s'), r)"
  shows "store_ok w' s'"
proof (cases r)
  case (Inl e)
  have ok: "world_ok w" "store_idle s" using assms(1) by (simp_all add: store_ok_def)
  have s': "s' = s" using store_commit_error(1) [OF ok] assms(2) Inl by blast
  have "world_ok w'"
  proof (cases "locate s index")
    case None
    then show ?thesis using assms(2) ok(1) by (auto simp: store_commit_def split: if_splits)
  next
    case (Some p)
    obtain gi ident where p: "p = (gi, ident)" by (cases p)
    obtain w1 g1 st where sg: "group_stage_commit ident len (w, fst (ps_entries s ! gi)) = ((w1, g1), st)"
      by (metis surj_pair)
    note w1 = group_stage_commit_contract(1) [OF ok(1) sg]
    have "w' = w1 \<or> (\<exists>staged. finish_staged gi ident staged w1 (put_group gi g1 s) = ((w', s'), Inl e))"
      using assms(2) sg by (cases st) (auto simp: store_commit_def Some p Inl split: if_splits sum.splits prod.splits)
    then show ?thesis using w1 group_reject_ok [OF w1]
      by (auto dest!: finish_staged_error) (metis fst_conv)
  qed
  then show ?thesis using assms(1) by (simp add: s' store_ok_def)
next
  case (Inr u)
  then have c: "store_commit index len w s = Some ((w', s'), Inr ())" using assms(2) by simp
  obtain gi ident t token where "table_stage_commit ident len w t = (w', Inr (StRt (PBuffer token)))"
    "length (ps_commands s) < COMMAND_QUEUE_LEN - 1"
    "s' = s\<lparr>ps_commands := ps_commands s
              @ [\<lparr>rc_domain = DOMAIN_TABLE, rc_id = ident, rc_payload = PBuffer token\<rparr>]\<rparr>"
    by (rule store_commit_ok [OF assms(1) c])
  then show ?thesis
    using assms(1) table_stage_commit_contract(1)
    by (auto simp: store_ok_def store_idle_def total_count_def)
qed

lemma store_set_block_keeps:
  assumes "store_ok w s" "store_set_block index offset data w s = Some ((w', s'), r)"
  shows "store_ok w' s' \<and> s' = s \<and> world_view w' = world_view w"
proof -
  have same: "group_set_block ident offset data (w, g) = ((w', g'), r') \<Longrightarrow>
      g' = g \<and> world_ok w' \<and> world_view w' = world_view w" for ident g g' r'
    using assms(1) write_bank_view [of "w_table w"]
    by (cases g) (auto simp: table_set_block_def store_ok_def world_ok_def world_view_def
        split: if_splits sum.splits prod.splits)
  show ?thesis
  proof (cases "locate s index")
    case None
    then show ?thesis using assms by (auto simp: store_set_block_def split: if_splits)
  next
    case (Some p)
    obtain gi ident where p: "p = (gi, ident)" by (cases p)
    obtain g' r' where b: "group_set_block ident offset data (w, fst (ps_entries s ! gi)) = ((w', g'), r')"
      "s' = put_group gi g' s"
      using assms(2) by (auto simp: store_set_block_def Some p split: if_splits prod.splits)
    then have "s' = s" "world_ok w'" "world_view w' = world_view w"
      using same [OF b(1)] by (simp_all add: b(2))
    then show ?thesis using assms(1) by (simp add: store_ok_def)
  qed
qed

text \<open>The requests of a host, in the order it sends them.\<close>

datatype host_request = HostSet nat bytes | HostBlock nat u32 bytes | HostCommit nat u32

fun host_step :: "host_request \<Rightarrow> world \<times> ParamStore \<Rightarrow> (world \<times> ParamStore) option" where
  "host_step (HostSet index data) (w, s) = map_option fst (store_set index data w s)"
| "host_step (HostBlock index offset data) (w, s) = map_option fst (store_set_block index offset data w s)"
| "host_step (HostCommit index len) (w, s) = map_option fst (store_commit index len w s)"

fun host_run :: "host_request list \<Rightarrow> world \<times> ParamStore \<Rightarrow> (world \<times> ParamStore) option" where
  "host_run [] st = Some st"
| "host_run (rq # rqs) st = Option.bind (host_step rq st) (host_run rqs)"

lemma host_step_ok:
  assumes "store_ok w s"
  shows "\<exists>w' s'. host_step rq (w, s) = Some (w', s') \<and> store_ok w' s'"
proof -
  have "ps_validated s" using assms by (simp add: store_ok_def)
  then have "host_step rq (w, s) \<noteq> None"
    by (cases rq) (simp_all add: store_set_def store_set_block_def store_commit_def)
  then obtain w' s' where h: "host_step rq (w, s) = Some (w', s')" by auto
  have "store_ok w' s'"
    using h store_set_keeps [OF assms] store_set_block_keeps [OF assms] store_commit_keeps [OF assms]
    by (cases rq) auto
  with h show ?thesis by blast
qed


lemma full_store_ok: "store_ok example_world full_store"
proof -
  have "total_count full_store = 9"
    by (simp add: total_count_def full_store_def example_store_entries table_group_new_def table_params_def)
  then show ?thesis
    using example_world_ok full_store_idle full_store_group(2,3)
    by (simp add: store_ok_def COMMAND_QUEUE_LEN_def full_store_def example_store_entries table_group_new_def
        extra_def_def extra_u32_event_def)
qed


subsection \<open>Set then get\<close>

lemma group_get_shared:
  "w_shared w' = w_shared w \<Longrightarrow> w_telemetry w' = w_telemetry w \<Longrightarrow> group_get w' g ident n = group_get w g ident n"
  by (cases g) (simp_all add: platform_get_def telemetry_get_def)

lemma shadow_no_action:
  assumes "group_stage ident data (w, g) = ((w1, g1), Inr (StLocal action))" "shadow_bytes g ident data = Some out"
  shows "action = ActNone"
  using assms
  by (cases g) (auto simp: generator_stage_def table_stage_def table_stage_scalar_def scalar_stage_def
      split: prod.splits sum.splits if_splits option.splits)

lemma store_set_shadow:
  assumes "store_ok w s" "store_set index data w s = Some ((w', s'), Inr a)"
    and l: "locate s index = Some (gi, ident)"
    and sh: "shadow_bytes (fst (ps_entries s ! gi)) ident data = Some out"
  obtains g2 q where "s' = put_group gi g2 (s\<lparr>ps_commands := q\<rparr>)" "gi < length (ps_entries s)"
    "group_params g2 = group_params (fst (ps_entries s ! gi))"
    "w_shared w' = w_shared w" "w_telemetry w' = w_telemetry w"
    "\<forall>w n. group_get w g2 ident n = (if n < length out then Inl BadLength else Inr out)"
    "\<forall>w n ident'. ident' \<noteq> ident \<longrightarrow> group_get w g2 ident' n = group_get w (fst (ps_entries s ! gi)) ident' n"
    "q = ps_commands s \<or> (\<exists>p domain. q = ps_commands s @ [\<lparr>rc_domain = domain, rc_id = ident, rc_payload = p\<rparr>]
       \<and> (snd (ps_entries s ! gi) = ToProgram domain \<or> snd (ps_entries s ! gi) = ToRig \<and> domain = DOMAIN_RIG))"
proof -
  obtain gi' ident' w1 g1 staged w2 g2 where o: "locate s index = Some (gi', ident')" "gi' < length (ps_entries s)"
    "unat ident' < length (group_params (fst (ps_entries s ! gi')))"
    "length data = param_type_size (pd_ty (group_params (fst (ps_entries s ! gi')) ! unat ident'))
           * unat (pd_count (group_params (fst (ps_entries s ! gi')) ! unat ident'))"
    "group_stage ident' data (w, fst (ps_entries s ! gi')) = ((w1, g1), Inr staged)"
    "group_accept ident' (w1, g1) = (w2, g2)"
    "finish_staged gi' ident' staged w1 (put_group gi' g1 s) = ((w', s'), Inr a)"
    by (rule store_set_ok [OF assms(1,2)])
  have [simp]: "gi' = gi" "ident' = ident" using o(1) l by simp_all
  note o = o [simplified]
  note wf = store_ok_nth [OF assms(1) o(2)]
  note wr = group_write_read [OF _ _ o(3-6)]
  have ac: "group_accept ident (w1, fst (ps_entries (put_group gi g1 s) ! gi)) = (w2, g2)"
    using o(2,6) by simp
  have put: "put_group gi g2 ((put_group gi g1 s)\<lparr>ps_commands := q\<rparr>) = put_group gi g2 (s\<lparr>ps_commands := q\<rparr>)" for q
    using o(2) by (simp add: put_group_def)
  have snd: "snd (ps_entries (put_group gi g1 s) ! gi) = snd (ps_entries s ! gi)"
    using o(2) by (simp add: put_group_nth)
  note result = that [of g2]
  have res: thesis if "w' = w2" "s' = put_group gi g2 (s\<lparr>ps_commands := q\<rparr>)"
    "q = ps_commands s \<or> (\<exists>p domain. q = ps_commands s @ [\<lparr>rc_domain = domain, rc_id = ident, rc_payload = p\<rparr>]
       \<and> (snd (ps_entries s ! gi) = ToProgram domain \<or> snd (ps_entries s ! gi) = ToRig \<and> domain = DOMAIN_RIG))" for q
    by (rule result [OF that(2) o(2)]) (use that wr(1-3,5) wf sh in auto)
  show thesis using o(7) ac
  proof (cases rule: finish_staged_ok)
    case (silent action)
    then show thesis using res [of "ps_commands s"] by simp
  next
    case reset
    then show thesis using shadow_no_action [OF _ sh] o(5) by auto
  next
    case (sent p domain)
    then show thesis using res [of "ps_commands (put_group gi g1 s) @ [\<lparr>rc_domain = domain, rc_id = ident, rc_payload = p\<rparr>]"] snd put
      by (auto split: if_splits)
  qed
qed


definition free_store :: ParamStore where
  "free_store = full_store\<lparr>ps_commands := []\<rparr>"

lemma free_store_ok: "store_ok example_world free_store"
  using full_store_ok by (simp add: free_store_def store_ok_def store_idle_def total_count_def COMMAND_QUEUE_LEN_def)

lemma free_store_locate: "locate free_store 1 = Some (1, 0)" "locate free_store 3 = Some (1, 2)"
  using full_store_locate by (simp_all add: free_store_def locate_def)

lemma free_store_entries: "ps_entries free_store = ps_entries full_store" "ps_validated free_store"
  using full_store_group(2) by (simp_all add: free_store_def)


subsection \<open>Reboot and table upload\<close>

lemma group_stage_reboot:
  assumes "group_stage ident data (w, g) = ((w1, g1), Inr (StLocal ActReboot))"
  shows "(\<exists>pg. g = GPlatform pg) \<and> w1 = w \<and> g1 = g \<and> ident = PLATFORM_MCU_REBOOT
    \<and> data = u32_to_le MCU_REBOOT_CONFIRMATION"
  using assms
  by (cases g) (auto simp: platform_stage_def generator_stage_def table_stage_def table_stage_scalar_def
      scalar_stage_def dest: read_u32_back split: prod.splits sum.splits if_splits option.splits)

text \<open>
  C34: the store asks for a reboot only when a host wrote the confirmation word to the platform's
  reboot parameter; that write changes no parameter, no shared state and sends no command.
\<close>

theorem reboot_needs_confirmation:
  assumes "store_ok w s" "store_set index data w s = Some ((w', s'), Inr ActReboot)"
  shows "data = u32_to_le MCU_REBOOT_CONFIRMATION \<and> w' = w \<and> s' = s
    \<and> (\<exists>gi pg. locate s index = Some (gi, PLATFORM_MCU_REBOOT) \<and> fst (ps_entries s ! gi) = GPlatform pg)"
proof -
  obtain gi ident w1 g1 staged w2 g2 where o: "locate s index = Some (gi, ident)" "gi < length (ps_entries s)"
    "group_stage ident data (w, fst (ps_entries s ! gi)) = ((w1, g1), Inr staged)"
    "group_accept ident (w1, g1) = (w2, g2)"
    "finish_staged gi ident staged w1 (put_group gi g1 s) = ((w', s'), Inr ActReboot)"
    by (rule store_set_ok [OF assms])
  have ac: "group_accept ident (w1, fst (ps_entries (put_group gi g1 s) ! gi)) = (w2, g2)"
    using o(2,4) by simp
  show ?thesis using o(5) ac
  proof (cases rule: finish_staged_ok)
    case (silent action)
    then have st: "group_stage ident data (w, fst (ps_entries s ! gi)) = ((w1, g1), Inr (StLocal ActReboot))"
      using o(3) by simp
    then obtain pg where g: "fst (ps_entries s ! gi) = GPlatform pg" "w1 = w" "g1 = GPlatform pg"
      "ident = PLATFORM_MCU_REBOOT" "data = u32_to_le MCU_REBOOT_CONFIRMATION"
      using group_stage_reboot [OF st] by auto
    moreover have "pg_pending pg = PpNone" using store_ok_nth [OF assms(1) o(2)] g(1) by simp
    then have "w2 = w" "g2 = fst (ps_entries s ! gi)" using o(4) g by (auto simp: platform_accept_def)
    moreover have "put_group gi (GPlatform pg) s = s" using put_group_same [of gi s] g(1) by simp
    ultimately show ?thesis using silent o(1) by simp
  qed simp_all
qed

definition platform_store :: ParamStore where
  "platform_store = (the (store_push (GPlatform (platform_new Hz1000 [] [])) (store_new [] Hz1000)))
     \<lparr>ps_validated := True\<rparr>"

lemma platform_store_entries:
  "ps_entries platform_store = [(GPlatform (platform_new Hz1000 [] []), ToCore0)]"
  "ps_validated platform_store" "ps_commands platform_store = []"
  by (simp_all add: platform_store_def store_push_def store_new_def MAX_GROUPS_def)

lemma platform_store_ok: "store_ok example_world platform_store"
proof -
  have "length PLATFORM_PARAMS = 21" by (simp add: PLATFORM_PARAMS_def)
  then have "total_count platform_store \<le> 65535" by (simp add: total_count_def platform_store_entries)
  then show ?thesis
    using example_world_ok
    by (simp add: store_ok_def platform_store_entries store_idle_def platform_new_def COMMAND_QUEUE_LEN_def)
qed

theorem reboot_needs_confirmation_witness:
  "case the (store_set 19 (u32_to_le MCU_REBOOT_CONFIRMATION) example_world platform_store) of
     ((w', s'), r) \<Rightarrow> r = Inr ActReboot \<and> w' = example_world \<and> s' = platform_store"
proof -
  have l: "locate platform_store 19 = Some (0, 19)"
    by (simp add: locate_def platform_store_entries PLATFORM_PARAMS_def)
  have p: "PLATFORM_PARAMS ! 19 = param_writable (as_bytes ''mcu_reboot'') TU32 1" "length PLATFORM_PARAMS = 21"
    by (simp_all add: PLATFORM_PARAMS_def)
  have "snd (the (store_set 19 (u32_to_le MCU_REBOOT_CONFIRMATION) example_world platform_store)) = Inr ActReboot"
    using l p
    by (simp add: platform_store_entries store_set_def store_set_located_def
        finish_staged_def Let_def platform_new_def param_writable_def get_at_def platform_stage_def read_u32_def put_group_def
        platform_accept_def PLATFORM_DIAG_RESET_def PLATFORM_ARM_def PLATFORM_MCU_REBOOT_def u32_to_le_def)
  then obtain w' s' where
    r: "store_set 19 (u32_to_le MCU_REBOOT_CONFIRMATION) example_world platform_store = Some ((w', s'), Inr ActReboot)"
    using platform_store_entries(2)
    by (cases "the (store_set 19 (u32_to_le MCU_REBOOT_CONFIRMATION) example_world platform_store)")
      (auto simp: store_set_def)
  from reboot_needs_confirmation [OF platform_store_ok r] r show ?thesis by simp
qed

lemma table_stage_commit_value:
  assumes inv: "buffer_inv (w_table w) a" and N: "list_all (\<lambda>t. length (wt_values t) = tg_N g) (db_banks (w_table w))"
    and "tg_N g \<le> 65535" "table_stage_commit ident len w g = (w', Inr (StRt (PBuffer token)))"
    and act: "activate token (w_table w', a) = (buf', a')"
  shows "ident = 0 \<and> 2 \<le> unat len \<and> unat len \<le> tg_N g \<and> db_pending buf' = NO_PENDING
    \<and> (\<exists>bank. staging_buffer (w_table w) = Inr bank
        \<and> table_values (active_get buf' a') = take (unat len) (wt_values (db_banks (w_table w) ! bank)))
    \<and> list_all is_finite (table_values (active_get buf' a'))"
proof -
  obtain bank buf2 where b: "ident = 0" "2 \<le> unat len" "unat len \<le> tg_N g" "staging_buffer (w_table w) = Inr bank"
    "list_all is_finite (the (table_prefix (db_banks (w_table w) ! bank) (unat len)))"
    "commit (write_bank bank (\<lambda>t. fst (table_set_len (unat len) t)) (w_table w)) = Inr (buf2, token)"
    "w_table w' = buf2"
    using assms(4) by (auto simp: table_stage_commit_def Let_def split: if_splits sum.splits prod.splits)
  note v = stage_commit_activate [OF inv b(4,6), of buf' a'] act [unfolded b(7)]
  have "bank < length (db_banks (w_table w))"
    using staging_buffer_not_active(1) [OF inv b(4)] inv by (simp add: buffer_inv_def)
  then have n: "length (wt_values (db_banks (w_table w) ! bank)) = tg_N g" using N by (simp add: list_all_length)
  have "unat (ucast len :: u16) = unat len"
    using b(3) assms(3) by (simp add: unsigned_ucast_eq take_bit_nat_eq_self)
  then have "table_values (active_get buf' a') = take (unat len) (wt_values (db_banks (w_table w) ! bank))"
    using v b(2,3) n by (simp add: table_values_def table_len_def table_set_len_def subslice_def)
  then show ?thesis using v b n by (auto simp: table_prefix_def)
qed

text \<open>
  C19: a table commit that the store accepts queues one activation for the table player; when core 1
  performs it, the active table is exactly the first \<open>len\<close> uploaded samples, \<open>len\<close> is between 2 and
  the capacity, every sample is finite, and the buffer is free for the next upload.
\<close>

theorem accepted_commit_activates_upload:
  assumes "store_ok w s" "store_commit index len w s = Some ((w', s'), Inr ())"
    and "locate s index = Some (gi, ident)" "fst (ps_entries s ! gi) = GTable g"
    and "buffer_inv (w_table w) a" "list_all (\<lambda>t. length (wt_values t) = tg_N g) (db_banks (w_table w))"
  shows "\<exists>token bank. ps_commands s' = ps_commands s
        @ [\<lparr>rc_domain = DOMAIN_TABLE, rc_id = TBL_ACTIVATE, rc_payload = PBuffer token\<rparr>]
    \<and> staging_buffer (w_table w) = Inr bank \<and> 2 \<le> unat len \<and> unat len \<le> tg_N g
    \<and> (case activate token (w_table w', a) of (buf', a') \<Rightarrow>
         table_values (active_get buf' a') = take (unat len) (wt_values (db_banks (w_table w) ! bank))
         \<and> list_all is_finite (table_values (active_get buf' a')) \<and> db_pending buf' = NO_PENDING)"
proof -
  obtain gi' ident' t token where o: "locate s index = Some (gi', ident')" "gi' < length (ps_entries s)"
    "ps_entries s ! gi' = (GTable t, ToProgram DOMAIN_TABLE)"
    "table_stage_commit ident' len w t = (w', Inr (StRt (PBuffer token)))"
    "s' = s\<lparr>ps_commands := ps_commands s
              @ [\<lparr>rc_domain = DOMAIN_TABLE, rc_id = ident', rc_payload = PBuffer token\<rparr>]\<rparr>"
    by (rule store_commit_ok [OF assms(1,2)])
  have [simp]: "gi' = gi" "ident' = ident" "t = g" using o(1,3) assms(3,4) by simp_all
  have N: "tg_N g \<le> 65535" using store_ok_nth [OF assms(1) o(2)] assms(4) by simp
  obtain buf' a' where act: "activate token (w_table w', a) = (buf', a')" by (metis surj_pair)
  from table_stage_commit_value [OF assms(5,6) N _ act, of ident len] o(4,5) act
  show ?thesis by (auto simp: TBL_ACTIVATE_def)
qed

theorem accepted_commit_activates_upload_witness:
  "case the (store_commit 1 2 example_world free_store) of ((w', s'), r) \<Rightarrow>
     r = Inr () \<and> length (ps_commands s') = 1"
proof -
  have z: "is_finite (from_bits 0)" by code_simp
  have "snd (the (store_commit 1 2 example_world free_store)) = Inr ()" "ps_validated free_store"
    using free_store_locate z
    by (simp_all add: free_store_def full_store_def example_store_entries store_commit_def finish_staged_def
        Let_def table_group_new_def table_stage_commit_def example_world_def from_banks_def staging_buffer_def
        NO_PENDING_def table_prefix_def table_empty_def commit_def write_bank_def enqueue_def
        COMMAND_QUEUE_LEN_def put_group_def list_all_iff)
  then obtain w' s' where r: "store_commit 1 2 example_world free_store = Some ((w', s'), Inr ())"
    by (cases "the (store_commit 1 2 example_world free_store)") (auto simp: store_commit_def)
  have g: "fst (ps_entries free_store ! 1) = GTable (table_group_new 8 Hz1000)"
    using full_store_group(1) by (simp add: free_store_entries)
  have i: "buffer_inv (w_table example_world) split_active"
    by (simp add: example_world_def from_banks_inv)
  have n: "list_all (\<lambda>t. length (wt_values t) = tg_N (table_group_new 8 Hz1000)) (db_banks (w_table example_world))"
    by (simp add: example_world_def from_banks_def table_empty_def table_group_new_def)
  show ?thesis
    using accepted_commit_activates_upload [OF free_store_ok r free_store_locate(1) g i n] r
    by (auto simp: free_store_def)
qed

end
