(* ===== verification/Pid_Filter.thy ===== *)
theory Pid_Filter
  imports Float64
begin

text \<open>
  The PID controller (\<open>helic-core/src/pid.rs\<close>) and the biquad cascade (\<open>helic-core/src/filter.rs\<close>).
  \<open>f32::clamp\<close> panics on unordered limits, so \<open>pid_update\<close> returns an option, \<open>None\<close> for the panic.
  \<open>libm::tan\<close> is a parameter of the filter design.
\<close>

subsection \<open>PID (pid.rs)\<close>

definition F32_MAX :: f32 where "F32_MAX = from_bits 0x7F7FFFFF"
definition F32_MIN :: f32 where "F32_MIN = from_bits 0xFF7FFFFF"

record PidConfig =
  pc_kp :: f32
  pc_ki :: f32
  pc_kd :: f32
  pc_tau_d :: f32
  pc_out_min :: f32
  pc_out_max :: f32

definition pid_config_default :: PidConfig where
  "pid_config_default = \<lparr>pc_kp = f32_0, pc_ki = f32_0, pc_kd = f32_0, pc_tau_d = f32_0,
     pc_out_min = F32_MIN, pc_out_max = F32_MAX\<rparr>"

record Pid =
  pid_config :: PidConfig
  pid_integral :: f32
  pid_prev_error :: f32
  pid_deriv :: f32
  pid_first :: bool

definition pid_new :: "PidConfig \<Rightarrow> Pid" where
  "pid_new config = \<lparr>pid_config = config, pid_integral = f32_0, pid_prev_error = f32_0,
     pid_deriv = f32_0, pid_first = True\<rparr>"

definition pid_reset :: "Pid \<Rightarrow> Pid" where
  "pid_reset p =
     p\<lparr>pid_integral := f32_0, pid_prev_error := f32_0, pid_deriv := f32_0, pid_first := True\<rparr>"

text \<open>The filtered derivative and the sum before the clamp.\<close>

definition pid_deriv_next :: "f32 \<Rightarrow> f32 \<Rightarrow> Pid \<Rightarrow> f32" where
  "pid_deriv_next error dt p =
     (let c = pid_config p;
          raw_deriv = (if pid_first p then f32_0 else f32_div (f32_sub error (pid_prev_error p)) dt);
          alpha = (if f32_lt f32_0 (pc_tau_d c) then f32_div dt (f32_add (pc_tau_d c) dt) else f32_1)
      in f32_add (pid_deriv p) (f32_mul alpha (f32_sub raw_deriv (pid_deriv p))))"

definition pid_unclamped :: "f32 \<Rightarrow> f32 \<Rightarrow> Pid \<Rightarrow> f32" where
  "pid_unclamped error dt p =
     (let c = pid_config p
      in f32_add (f32_add (f32_mul (pc_kp c) error) (pid_integral p))
                 (f32_mul (pc_kd c) (pid_deriv_next error dt p)))"

definition pid_update :: "f32 \<Rightarrow> f32 \<Rightarrow> Pid \<Rightarrow> (Pid \<times> f32) option" where
  "pid_update error dt p =
     (let c = pid_config p; unclamped = pid_unclamped error dt p
      in case f32_clamp unclamped (pc_out_min c) (pc_out_max c) of
           None \<Rightarrow> None
         | Some out \<Rightarrow>
             let integral_increment = f32_mul (f32_mul (pc_ki c) error) dt;
                 saturated_high = f32_lt (pc_out_max c) unclamped \<and> f32_lt f32_0 integral_increment;
                 saturated_low = f32_lt unclamped (pc_out_min c) \<and> f32_lt integral_increment f32_0;
                 integral = (if \<not> (saturated_high \<or> saturated_low)
                             then f32_add (pid_integral p) integral_increment
                             else pid_integral p)
             in Some (p\<lparr>pid_integral := integral, pid_prev_error := error,
                        pid_deriv := pid_deriv_next error dt p, pid_first := False\<rparr>, out))"

subsection \<open>Biquad cascade (filter.rs)\<close>

record BiquadCoeffs =
  bq_b0 :: f32
  bq_b1 :: f32
  bq_b2 :: f32
  bq_a1 :: f32
  bq_a2 :: f32

definition biquad_identity :: BiquadCoeffs where
  "biquad_identity = \<lparr>bq_b0 = f32_1, bq_b1 = f32_0, bq_b2 = f32_0, bq_a1 = f32_0, bq_a2 = f32_0\<rparr>"

text \<open>\<open>core::f64::consts::PI\<close> and \<open>SQRT_2\<close>.\<close>

definition F64_PI :: f64 where "F64_PI = from_bits64 0x400921FB54442D18"
definition F64_SQRT_2 :: f64 where "F64_SQRT_2 = from_bits64 0x3FF6A09E667F3BCD"

definition butterworth_lowpass :: "(f64 \<Rightarrow> f64) \<Rightarrow> f64 \<Rightarrow> f64 \<Rightarrow> BiquadCoeffs" where
  "butterworth_lowpass tan fc fs =
     (let one = f64_lit 1 1; two = f64_lit 2 1;
          k = tan (f64_div (f64_mul F64_PI fc) fs);
          kk = f64_mul k k;
          norm = f64_div one (f64_add (f64_add one (f64_mul F64_SQRT_2 k)) kk)
      in \<lparr>bq_b0 = f32_of_f64 (f64_mul kk norm),
          bq_b1 = f32_of_f64 (f64_mul (f64_mul (f64_mul two k) k) norm),
          bq_b2 = f32_of_f64 (f64_mul kk norm),
          bq_a1 = f32_of_f64 (f64_mul (f64_mul two (f64_sub kk one)) norm),
          bq_a2 = f32_of_f64 (f64_mul (f64_add (f64_sub one (f64_mul F64_SQRT_2 k)) kk) norm)\<rparr>)"

record BiquadState =
  bs_s1 :: f32
  bs_s2 :: f32

definition biquad_state_zero :: BiquadState where
  "biquad_state_zero = \<lparr>bs_s1 = f32_0, bs_s2 = f32_0\<rparr>"

record SosFilter =
  sos_coeffs :: "BiquadCoeffs list"
  sos_state :: "BiquadState list"

definition sos_identity :: "nat \<Rightarrow> SosFilter" where
  "sos_identity N = \<lparr>sos_coeffs = replicate N biquad_identity, sos_state = replicate N biquad_state_zero\<rparr>"

definition sos_new :: "BiquadCoeffs list \<Rightarrow> SosFilter" where
  "sos_new coeffs = \<lparr>sos_coeffs = coeffs, sos_state = replicate (length coeffs) biquad_state_zero\<rparr>"

definition sos_set_coeffs :: "BiquadCoeffs list \<Rightarrow> SosFilter \<Rightarrow> SosFilter" where
  "sos_set_coeffs coeffs f = f\<lparr>sos_coeffs := coeffs\<rparr>"

definition sos_reset :: "SosFilter \<Rightarrow> SosFilter" where
  "sos_reset f = f\<lparr>sos_state := replicate (length (sos_coeffs f)) biquad_state_zero\<rparr>"

definition biquad_step :: "BiquadCoeffs \<Rightarrow> BiquadState \<Rightarrow> f32 \<Rightarrow> BiquadState \<times> f32" where
  "biquad_step c s y =
     (let out = f32_add (f32_mul (bq_b0 c) y) (bs_s1 s)
      in (\<lparr>bs_s1 = f32_add (f32_sub (f32_mul (bq_b1 c) y) (f32_mul (bq_a1 c) out)) (bs_s2 s),
           bs_s2 = f32_sub (f32_mul (bq_b2 c) y) (f32_mul (bq_a2 c) out)\<rparr>, out))"

text \<open>The loop over the zipped sections: a section is skipped when either array is exhausted.\<close>

fun sos_sections :: "BiquadCoeffs list \<Rightarrow> BiquadState list \<Rightarrow> f32 \<Rightarrow> BiquadState list \<times> f32" where
  "sos_sections (c # cs) (s # ss) y =
     (let (s', out) = biquad_step c s y; (ss', res) = sos_sections cs ss out in (s' # ss', res))"
| "sos_sections _ ss y = (ss, y)"

definition sos_process :: "f32 \<Rightarrow> SosFilter \<Rightarrow> SosFilter \<times> f32" where
  "sos_process x f =
     (let (state, y) = sos_sections (sos_coeffs f) (sos_state f) x in (f\<lparr>sos_state := state\<rparr>, y))"

subsection \<open>PID output limits and anti-windup\<close>

lemma f32_clamp_range:
  assumes "f32_clamp x lo hi = Some y" "\<not> is_nan x"
  shows "f32_le lo y \<and> f32_le y hi"
  using assms by (auto simp: f32_clamp_def f32_le_def f32_lt_def split: if_splits)

lemma f32_clamp_nan: "f32_clamp x lo hi = Some y \<Longrightarrow> is_nan x \<Longrightarrow> y = x"
  by (auto simp: f32_clamp_def f32_lt_def split: if_splits)

lemma f32_clamp_total: "f32_le lo hi \<Longrightarrow> \<exists>y. f32_clamp x lo hi = Some y"
  by (simp add: f32_clamp_def)

lemma f32_clamp_idem: "f32_le lo x \<Longrightarrow> f32_le x hi \<Longrightarrow> f32_clamp x lo hi = Some x"
  by (auto simp: f32_clamp_def f32_le_def f32_lt_def)

lemma pid_update_total:
  assumes "f32_le (pc_out_min (pid_config p)) (pc_out_max (pid_config p))"
  shows "\<exists>p' y. pid_update error dt p = Some (p', y)"
  using f32_clamp_total [OF assms, of "pid_unclamped error dt p"] by (auto simp: pid_update_def Let_def)

text \<open>
  With ordered limits, \<open>Pid::update\<close> does not panic, and its output is within the limits or is
  NaN (a NaN passes the clamp, and is what the output stage rejects); gains and limits are not
  changed. With unordered limits it does panic.
\<close>

theorem pid_output_within_limits:
  "if f32_le (pc_out_min (pid_config p)) (pc_out_max (pid_config p))
   then (\<exists>p' y. pid_update error dt p = Some (p', y) \<and> pid_config p' = pid_config p
      \<and> (is_nan y \<or> f32_le (pc_out_min (pid_config p)) y \<and> f32_le y (pc_out_max (pid_config p))))
   else pid_update error dt p = None"
proof (cases "f32_le (pc_out_min (pid_config p)) (pc_out_max (pid_config p))")
  case True
  let ?x = "pid_unclamped error dt p"
  obtain y where y: "f32_clamp ?x (pc_out_min (pid_config p)) (pc_out_max (pid_config p)) = Some y"
    using f32_clamp_total [OF True] by blast
  have "is_nan y \<or> f32_le (pc_out_min (pid_config p)) y \<and> f32_le y (pc_out_max (pid_config p))"
    using f32_clamp_range [OF y] f32_clamp_nan [OF y] by (cases "is_nan ?x") auto
  with True y show ?thesis by (simp add: pid_update_def Let_def)
next
  case False
  then show ?thesis by (simp add: pid_update_def Let_def f32_clamp_def)
qed

text \<open>
  Anti-windup. While the sum before the clamp is above the upper limit the integrator cannot
  grow, and while it is below the lower limit it cannot shrink, whatever the gains and the error
  are, as long as the integrator and its increment are finite numbers.
\<close>

theorem pid_anti_windup:
  assumes "pid_update error dt p = Some (p', y)" "is_finite (pid_integral p)"
    and "is_finite (f32_mul (f32_mul (pc_ki (pid_config p)) error) dt)"
  shows "(f32_lt (pc_out_max (pid_config p)) (pid_unclamped error dt p) \<longrightarrow>
      f32_le (pid_integral p') (pid_integral p))
    \<and> (f32_lt (pid_unclamped error dt p) (pc_out_min (pid_config p)) \<longrightarrow>
      f32_le (pid_integral p) (pid_integral p'))"
proof -
  let ?inc = "f32_mul (f32_mul (pc_ki (pid_config p)) error) dt" and ?i = "pid_integral p"
  have z: "is_finite (from_bits 0)" "f32_key (from_bits 0) = 0"
    by (simp_all add: is_finite_def f32_code_def f32_key_def)
  have refl: "f32_le ?i ?i" using finite_not(1) [OF assms(2)] by (simp add: f32_le_def)
  have i0: "f32_key (f32_add ?i (from_bits 0)) = f32_key ?i" "\<not> is_nan (f32_add ?i (from_bits 0))"
    using f32_add_key_0 [OF assms(2) z] f32_key_add(1) [OF assms(2) z(1)] by simp_all
  have down: "f32_le (f32_add ?i ?inc) ?i" if "\<not> f32_lt (from_bits 0) ?inc"
  proof -
    have "f32_le ?inc (from_bits 0)"
      using that finite_not(1) [OF assms(3)] finite_not(1) [OF z(1)] by (simp add: f32_lt_def f32_le_def)
    then have "f32_le (f32_add ?i ?inc) (f32_add ?i (from_bits 0))"
      by (rule f32_add_mono [OF assms(2,3) z(1)])
    with i0 finite_not(1) [OF assms(2)] show ?thesis by (simp add: f32_le_def)
  qed
  have up: "f32_le ?i (f32_add ?i ?inc)" if "\<not> f32_lt ?inc (from_bits 0)"
  proof -
    have "f32_le (from_bits 0) ?inc"
      using that finite_not(1) [OF assms(3)] finite_not(1) [OF z(1)] by (simp add: f32_lt_def f32_le_def)
    then have "f32_le (f32_add ?i (from_bits 0)) (f32_add ?i ?inc)"
      by (rule f32_add_mono [OF assms(2) z(1) assms(3)])
    with i0 finite_not(1) [OF assms(2)] show ?thesis by (simp add: f32_le_def)
  qed
  show ?thesis using assms(1) down up refl
    by (auto simp: pid_update_def Let_def split: option.splits if_splits)
qed

definition sample_pid :: Pid where
  "sample_pid = pid_new \<lparr>pc_kp = f32_lit 2 1, pc_ki = f32_lit 1 1, pc_kd = f32_0, pc_tau_d = f32_0,
     pc_out_min = f32_lit (- 1) 1, pc_out_max = f32_lit 1 1\<rparr>"

theorem pid_anti_windup_witness:
  "\<exists>p' y. pid_update (f32_lit 1 1) (f32_lit 1 2) sample_pid = Some (p', y)
    \<and> f32_lt (pc_out_max (pid_config sample_pid)) (pid_unclamped (f32_lit 1 1) (f32_lit 1 2) sample_pid)
    \<and> f32_le (pid_integral p') (pid_integral sample_pid)"
proof -
  have ok: "f32_le (pc_out_min (pid_config sample_pid)) (pc_out_max (pid_config sample_pid))"
    by code_simp
  obtain p' y where u: "pid_update (f32_lit 1 1) (f32_lit 1 2) sample_pid = Some (p', y)"
    using pid_update_total [OF ok] by blast
  have "is_finite (pid_integral sample_pid)"
    "is_finite (f32_mul (f32_mul (pc_ki (pid_config sample_pid)) (f32_lit 1 1)) (f32_lit 1 2))"
    "f32_lt (pc_out_max (pid_config sample_pid)) (pid_unclamped (f32_lit 1 1) (f32_lit 1 2) sample_pid)"
    by code_simp+
  with pid_anti_windup [OF u] u show ?thesis by blast
qed

end
