(* ===== verification/Rt_Program.thy ===== *)
theory Rt_Program
  imports Rt_Groups Pid_Filter
begin

text \<open>
  The computation between measurement and actuation: the \<open>StandardControl\<close> policies
  (\<open>helic-rt/src/control.rs\<close>), the \<open>Program\<close> contract and \<open>StandardProgram\<close>
  (\<open>helic-rt/src/program.rs\<close>), and the stream-source registry (\<open>helic-rt/src/rig.rs\<close>). A trait is a
  record of its constants and methods over a state type. A step can panic (an input slot out of range,
  unordered PID limits), so it returns an option. The buffers and atomics a programme refers to are in
  the \<open>world\<close> of \<open>Rt_Groups\<close>.
\<close>

subsection \<open>Controls (control.rs)\<close>

record StepCtx =
  cx_lut :: SinLut
  cx_sample_rate :: SampleRate

record StandardControlInputs =
  ci_measured :: "f32 list"
  ci_reference :: f32
  ci_reference_mean :: f32
  ci_forcing :: f32
  ci_table :: f32
  ci_frame :: HarmonicFrame
  ci_current_increment :: u32

record ControlStep =
  cs_output :: f32
  cs_next_increment :: "u32 option"

record 'c StandardControl =
  C_INPUTS_REQUIRED :: nat
  C_REFERENCE_UNIT :: bytes
  C_TELEMETRY :: "(bytes \<times> bytes) list"
  c_step :: "StandardControlInputs \<Rightarrow> StepCtx \<Rightarrow> 'c \<Rightarrow> ('c \<times> ControlStep) option"
  c_apply :: "u16 \<Rightarrow> Payload \<Rightarrow> 'c \<Rightarrow> 'c"
  c_reset :: "'c \<Rightarrow> 'c"
  c_set_output_enabled :: "bool \<Rightarrow> 'c \<Rightarrow> 'c"
  c_telemetry :: "'c \<Rightarrow> f32 list \<Rightarrow> f32 list"
  c_fault :: "'c \<Rightarrow> bool"
  c_scalar_param_names :: "bytes list"
  c_scalar_param_value :: "'c \<Rightarrow> u16 \<Rightarrow> f32 option"
  c_normalise_scalar_param :: "u16 \<Rightarrow> f32 \<Rightarrow> nat \<Rightarrow> f32 option"

definition default_normalise_scalar_param :: "bytes list \<Rightarrow> u16 \<Rightarrow> f32 \<Rightarrow> nat \<Rightarrow> f32 option" where
  "default_normalise_scalar_param names ident v input_count =
     (if unat ident < length names \<and> is_finite v then Some v else None)"

text \<open>The trait's default methods, which \<open>PassThrough\<close> keeps but for \<open>step\<close>.\<close>

definition pass_through_step ::
  "StandardControlInputs \<Rightarrow> StepCtx \<Rightarrow> unit \<Rightarrow> (unit \<times> ControlStep) option" where
  "pass_through_step i ctx c =
     Some (c, \<lparr>cs_output = f32_add (f32_add (ci_reference i) (ci_forcing i)) (ci_table i),
               cs_next_increment = None\<rparr>)"

definition PassThrough :: "unit StandardControl" where
  "PassThrough = \<lparr>C_INPUTS_REQUIRED = 0, C_REFERENCE_UNIT = as_bytes ''V'', C_TELEMETRY = [],
     c_step = pass_through_step, c_apply = (\<lambda>_ _ c. c), c_reset = (\<lambda>c. c),
     c_set_output_enabled = (\<lambda>_ c. c), c_telemetry = (\<lambda>_ out. out), c_fault = (\<lambda>_. False),
     c_scalar_param_names = [], c_scalar_param_value = (\<lambda>_ _. None),
     c_normalise_scalar_param = default_normalise_scalar_param []\<rparr>"

record PidController =
  pk_pid :: Pid
  pk_error :: f32
  pk_output_enabled :: bool

definition pid_controller_new :: "Pid \<Rightarrow> PidController" where
  "pid_controller_new p = \<lparr>pk_pid = p, pk_error = f32_nan, pk_output_enabled = False\<rparr>"

definition pid_controller_step ::
  "nat \<Rightarrow> StandardControlInputs \<Rightarrow> StepCtx \<Rightarrow> PidController \<Rightarrow> (PidController \<times> ControlStep) option" where
  "pid_controller_step FEEDBACK i ctx c =
     (if \<not> pk_output_enabled c then Some (c, \<lparr>cs_output = f32_0, cs_next_increment = None\<rparr>)
      else
        case get_at (ci_measured i) FEEDBACK of
          None \<Rightarrow> None
        | Some measured \<Rightarrow>
            let error = f32_sub (ci_reference i) measured
            in case pid_update error (sr_dt (cx_sample_rate ctx)) (pk_pid c) of
                 None \<Rightarrow> None
               | Some (pid, out) \<Rightarrow>
                   Some (c\<lparr>pk_error := error, pk_pid := pid\<rparr>,
                         \<lparr>cs_output = f32_add (f32_add out (ci_forcing i)) (ci_table i),
                          cs_next_increment = None\<rparr>))"

definition pid_controller_apply :: "u16 \<Rightarrow> Payload \<Rightarrow> PidController \<Rightarrow> PidController" where
  "pid_controller_apply ident payload c =
     (case payload of
        PF32 v \<Rightarrow>
          (let p = pk_pid c; k = pid_config p
           in if ident = 0 then c\<lparr>pk_pid := p\<lparr>pid_config := k\<lparr>pc_kp := v\<rparr>\<rparr>\<rparr>
              else if ident = 1 then c\<lparr>pk_pid := p\<lparr>pid_config := k\<lparr>pc_ki := v\<rparr>\<rparr>\<rparr>
              else if ident = 2 then c\<lparr>pk_pid := p\<lparr>pid_config := k\<lparr>pc_kd := v\<rparr>\<rparr>\<rparr>
              else if ident = 3 then c\<lparr>pk_pid := p\<lparr>pid_config := k\<lparr>pc_tau_d := v\<rparr>\<rparr>\<rparr>
              else c)
      | _ \<Rightarrow> c)"

definition pid_controller_reset :: "PidController \<Rightarrow> PidController" where
  "pid_controller_reset c = c\<lparr>pk_pid := pid_reset (pk_pid c), pk_error := f32_nan\<rparr>"

definition pid_controller_telemetry :: "PidController \<Rightarrow> f32 list \<Rightarrow> f32 list" where
  "pid_controller_telemetry c out = (if out = [] then out else out[0 := pk_error c])"

definition pid_scalar_param_names :: "bytes list" where
  "pid_scalar_param_names = map as_bytes [''ctrl_kp'', ''ctrl_ki'', ''ctrl_kd'', ''ctrl_tau_d'']"

definition pid_scalar_param_value :: "PidController \<Rightarrow> u16 \<Rightarrow> f32 option" where
  "pid_scalar_param_value c ident =
     (let k = pid_config (pk_pid c)
      in if ident = 0 then Some (pc_kp k)
         else if ident = 1 then Some (pc_ki k)
         else if ident = 2 then Some (pc_kd k)
         else if ident = 3 then Some (pc_tau_d k)
         else None)"

definition pid_normalise_scalar_param :: "u16 \<Rightarrow> f32 \<Rightarrow> nat \<Rightarrow> f32 option" where
  "pid_normalise_scalar_param ident v input_count =
     (if \<not> is_finite v then None
      else if ident \<le> 2 then Some v
      else if ident = 3 \<and> f32_le f32_0 v then Some v
      else None)"

definition PidControl :: "nat \<Rightarrow> PidController StandardControl" where
  "PidControl FEEDBACK = \<lparr>C_INPUTS_REQUIRED = FEEDBACK + 1, C_REFERENCE_UNIT = as_bytes ''V'',
     C_TELEMETRY = [(as_bytes ''error'', as_bytes ''V'')],
     c_step = pid_controller_step FEEDBACK, c_apply = pid_controller_apply,
     c_reset = pid_controller_reset,
     c_set_output_enabled = (\<lambda>enabled c. c\<lparr>pk_output_enabled := enabled\<rparr>),
     c_telemetry = pid_controller_telemetry, c_fault = (\<lambda>_. False),
     c_scalar_param_names = pid_scalar_param_names, c_scalar_param_value = pid_scalar_param_value,
     c_normalise_scalar_param = pid_normalise_scalar_param\<rparr>"

subsection \<open>Programmes (program.rs)\<close>

record 'p Program =
  P_OUTPUTS :: nat
  P_INPUTS_REQUIRED :: nat
  P_DOMAINS :: "u8 list"
  p_apply :: "u8 \<Rightarrow> u16 \<Rightarrow> Payload \<Rightarrow> world \<times> 'p \<Rightarrow> world \<times> 'p"
  p_step :: "world \<Rightarrow> f32 list \<Rightarrow> bool \<Rightarrow> StepCtx \<Rightarrow> f32 list \<Rightarrow> 'p \<Rightarrow> ('p \<times> f32 list) option"
  p_write_signals :: "'p \<Rightarrow> f32 list \<Rightarrow> f32 list"
  p_signal_count :: nat
  p_signal :: "nat \<Rightarrow> (bytes \<times> bytes) option"
  p_fault :: "'p \<Rightarrow> bool"

record 'c StandardProgram =
  sp_controller :: 'c
  sp_generator :: HarmonicGenerator
  sp_nominal_increment :: u32
  sp_frequency_overridden :: bool
  sp_target_coeffs :: Active
  sp_forcing_coeffs :: Active
  sp_table_player :: TablePlayer
  sp_active_table :: Active
  sp_target :: f32
  sp_forcing :: f32
  sp_table :: f32
  sp_phase_turns :: f32
  sp_output_enabled :: bool

definition standard_new :: "nat \<Rightarrow> 'c \<Rightarrow> Active \<Rightarrow> Active \<Rightarrow> Active \<Rightarrow> 'c StandardProgram option" where
  "standard_new H controller target forcing table =
     (if \<not> H \<le> MAX_HARMONICS then None
      else Some \<lparr>sp_controller = controller, sp_generator = generator_new H, sp_nominal_increment = 0,
             sp_frequency_overridden = False, sp_target_coeffs = target, sp_forcing_coeffs = forcing,
             sp_table_player = player_new, sp_active_table = table, sp_target = f32_0,
             sp_forcing = f32_0, sp_table = f32_0, sp_phase_turns = f32_0, sp_output_enabled = False\<rparr>)"

definition standard_signals :: "'c StandardControl \<Rightarrow> (bytes \<times> bytes) list" where
  "standard_signals C = [(as_bytes ''target'', C_REFERENCE_UNIT C), (as_bytes ''forcing'', as_bytes ''V''),
     (as_bytes ''table'', as_bytes ''V''), (as_bytes ''phase'', as_bytes ''turn'')]"

definition standard_apply_generator ::
  "u16 \<Rightarrow> Payload \<Rightarrow> world \<times> 'c StandardProgram \<Rightarrow> world \<times> 'c StandardProgram" where
  "standard_apply_generator ident payload ws =
     (case ws of (w, p) \<Rightarrow>
       (case payload of
          PU32 increment \<Rightarrow>
            (if ident = GEN_SET_INCREMENT
             then (w, let p1 = p\<lparr>sp_nominal_increment := increment\<rparr>
                      in if sp_frequency_overridden p then p1
                         else p1\<lparr>sp_generator := generator_set_increment increment (sp_generator p)\<rparr>)
             else ws)
        | PBuffer token \<Rightarrow>
            (if ident = GEN_SET_TARGET
             then let (buf, a) = activate token (w_target w, sp_target_coeffs p)
                  in (w\<lparr>w_target := buf\<rparr>, p\<lparr>sp_target_coeffs := a\<rparr>)
             else if ident = GEN_SET_FORCING
             then let (buf, a) = activate token (w_forcing w, sp_forcing_coeffs p)
                  in (w\<lparr>w_forcing := buf\<rparr>, p\<lparr>sp_forcing_coeffs := a\<rparr>)
             else ws)
        | _ \<Rightarrow> ws))"

definition map_player :: "(TablePlayer \<Rightarrow> TablePlayer) \<Rightarrow> 'c StandardProgram \<Rightarrow> 'c StandardProgram" where
  "map_player f p = p\<lparr>sp_table_player := f (sp_table_player p)\<rparr>"

definition standard_apply_table ::
  "u16 \<Rightarrow> Payload \<Rightarrow> world \<times> 'c StandardProgram \<Rightarrow> world \<times> 'c StandardProgram" where
  "standard_apply_table ident payload ws =
     (case ws of (w, p) \<Rightarrow>
       (case payload of
          PU32 v \<Rightarrow>
            (w, if ident = TBL_SET_INCREMENT then map_player (player_set_increment v) p
                else if ident = TBL_SET_INTERPOLATION then
                  (case table_interpolation_from_u32 v of
                     Some interpolation \<Rightarrow> map_player (player_set_interpolation interpolation) p
                   | None \<Rightarrow> p)
                else if ident = TBL_SET_MODE then
                  (case table_mode_from_u32 v of Some mode \<Rightarrow> map_player (player_set_mode mode) p | None \<Rightarrow> p)
                else if ident = TBL_SET_MULTIPLIER then map_player (player_set_multiplier v) p
                else if ident = TBL_SET_PHASE then map_player (player_set_phase_offset v) p
                else p)
        | PF32 gain \<Rightarrow> (w, if ident = TBL_SET_GAIN then map_player (player_set_gain gain) p else p)
        | PUnit \<Rightarrow> (w, if ident = TBL_TRIGGER then map_player player_trigger p else p)
        | PBuffer token \<Rightarrow>
            (if ident = TBL_ACTIVATE
             then let (buf, a) = activate token (w_table w, sp_active_table p);
                      live = (sh_live (w_shared w))\<lparr>lv_active_table_len := of_nat (table_len (active_get buf a))\<rparr>
                  in (w\<lparr>w_table := buf, w_shared := (w_shared w)\<lparr>sh_live := live\<rparr>\<rparr>,
                      p\<lparr>sp_active_table := a\<rparr>)
             else ws)))"

definition standard_apply ::
  "'c StandardControl \<Rightarrow> u8 \<Rightarrow> u16 \<Rightarrow> Payload \<Rightarrow> world \<times> 'c StandardProgram \<Rightarrow> world \<times> 'c StandardProgram" where
  "standard_apply C domain ident payload ws =
     (if domain = DOMAIN_GENERATOR then standard_apply_generator ident payload ws
      else if domain = DOMAIN_TABLE then standard_apply_table ident payload ws
      else if domain = DOMAIN_CONTROLLER
      then (case ws of (w, p) \<Rightarrow> (w, p\<lparr>sp_controller := c_apply C ident payload (sp_controller p)\<rparr>))
      else ws)"

definition standard_step ::
  "'c StandardControl \<Rightarrow> world \<Rightarrow> f32 list \<Rightarrow> bool \<Rightarrow> StepCtx \<Rightarrow> f32 list \<Rightarrow> 'c StandardProgram
     \<Rightarrow> ('c StandardProgram \<times> f32 list) option" where
  "standard_step C w inputs output_enabled ctx outputs p =
     (let current_increment = generator_increment (sp_generator p);
          gen = generator_step (cx_lut ctx) (sp_generator p);
          frame = hg_frame gen;
          target_coeffs = active_get (w_target w) (sp_target_coeffs p);
          target = frame_project frame target_coeffs;
          forcing = frame_project frame (active_get (w_forcing w) (sp_forcing_coeffs p));
          (player, table) = player_step (active_get (w_table w) (sp_active_table p))
                              (hf_phase frame) (hf_period_start frame) (sp_table_player p);
          c0 = sp_controller p;
          c1 = (if output_enabled \<and> \<not> sp_output_enabled p then c_reset C c0 else c0);
          c2 = c_set_output_enabled C output_enabled c1
      in case c_step C \<lparr>ci_measured = inputs, ci_reference = target,
                         ci_reference_mean = fc_mean target_coeffs, ci_forcing = forcing,
                         ci_table = table, ci_frame = frame,
                         ci_current_increment = current_increment\<rparr> ctx c2 of
           None \<Rightarrow> None
         | Some (c3, s) \<Rightarrow>
             if outputs = [] then None
             else
               let increment = (if output_enabled
                                then (case cs_next_increment s of None \<Rightarrow> sp_nominal_increment p | Some i \<Rightarrow> i)
                                else sp_nominal_increment p)
               in Some (p\<lparr>sp_controller := c3, sp_generator := generator_set_increment increment gen,
                          sp_frequency_overridden := (output_enabled \<and> cs_next_increment s \<noteq> None),
                          sp_table_player := player, sp_target := target, sp_forcing := forcing,
                          sp_table := table, sp_phase_turns := frame_phase_turns frame,
                          sp_output_enabled := output_enabled\<rparr>,
                        outputs[0 := (if output_enabled then cs_output s else f32_0)]))"

definition standard_write_signals :: "'c StandardControl \<Rightarrow> 'c StandardProgram \<Rightarrow> f32 list \<Rightarrow> f32 list" where
  "standard_write_signals C p out =
     (let telemetry = length (C_TELEMETRY C);
          out1 = copy_at out 0 (c_telemetry C (sp_controller p) (take telemetry out))
      in copy_at out1 telemetry [sp_target p, sp_forcing p, sp_table p, sp_phase_turns p])"

definition standard_signal_count :: "'c StandardControl \<Rightarrow> nat" where
  "standard_signal_count C = length (C_TELEMETRY C) + length (standard_signals C)"

definition standard_signal :: "'c StandardControl \<Rightarrow> nat \<Rightarrow> (bytes \<times> bytes) option" where
  "standard_signal C index =
     (case get_at (C_TELEMETRY C) index of
        Some s \<Rightarrow> Some s
      | None \<Rightarrow>
          (case checked_sub index (length (C_TELEMETRY C)) of
             None \<Rightarrow> None
           | Some i \<Rightarrow> get_at (standard_signals C) i))"

definition StandardProgramOf :: "'c StandardControl \<Rightarrow> 'c StandardProgram Program" where
  "StandardProgramOf C = \<lparr>P_OUTPUTS = 1, P_INPUTS_REQUIRED = C_INPUTS_REQUIRED C,
     P_DOMAINS = [DOMAIN_GENERATOR, DOMAIN_TABLE, DOMAIN_CONTROLLER],
     p_apply = standard_apply C, p_step = standard_step C, p_write_signals = standard_write_signals C,
     p_signal_count = standard_signal_count C, p_signal = standard_signal C,
     p_fault = (\<lambda>p. c_fault C (sp_controller p))\<rparr>"

subsection \<open>Stream sources (rig.rs)\<close>

definition DISCOVERY_HEADROOM :: nat where "DISCOVERY_HEADROOM = MAX_PAYLOAD * 3 div 4"

definition COMMAND_EPOCH_SOURCE :: "bytes \<times> bytes" where
  "COMMAND_EPOCH_SOURCE = (as_bytes ''cmd_epoch'', as_bytes ''count'')"

definition source_count :: "'r Rig \<Rightarrow> 'p Program \<Rightarrow> nat" where
  "source_count R P = length (R_INPUTS R) + p_signal_count P + length (R_ACTUATORS R) + 1"

definition source :: "'r Rig \<Rightarrow> 'p Program \<Rightarrow> nat \<Rightarrow> (bytes \<times> bytes) option" where
  "source R P index =
     (case get_at (R_INPUTS R) index of
        Some s \<Rightarrow> Some s
      | None \<Rightarrow>
          let index = index - length (R_INPUTS R)
          in case p_signal P index of
               Some s \<Rightarrow> Some s
             | None \<Rightarrow>
                 (case checked_sub index (p_signal_count P) of
                    None \<Rightarrow> None
                  | Some index \<Rightarrow>
                      (case get_at (R_ACTUATORS R) index of
                         Some s \<Rightarrow> Some s
                       | None \<Rightarrow>
                           (case checked_sub index (length (R_ACTUATORS R)) of
                              None \<Rightarrow> None
                            | Some k \<Rightarrow> if k = 0 then Some COMMAND_EPOCH_SOURCE else None))))"

text \<open>\<open>validate_sources\<close> panics when an assertion fails: the model says whether it returns.\<close>

definition source_texts_ok :: "'r Rig \<Rightarrow> 'p Program \<Rightarrow> bool" where
  "source_texts_ok R P \<longleftrightarrow>
     (\<forall>i \<in> set [0..<source_count R P].
        case source R P i of
          None \<Rightarrow> False
        | Some (name, unit) \<Rightarrow>
            length name \<le> MAX_NAME_LEN \<and> length unit \<le> MAX_UNIT_LEN \<and> is_ascii name \<and> is_ascii unit
            \<and> (\<forall>j \<in> set [0..<i]. map_option fst (source R P j) \<noteq> Some name))"

definition source_encoded_len :: "'r Rig \<Rightarrow> 'p Program \<Rightarrow> nat" where
  "source_encoded_len R P =
     sum_list (map (\<lambda>i. case source R P i of None \<Rightarrow> 0 | Some (name, unit) \<Rightarrow> length name + length unit + 2)
       [0..<source_count R P])"

definition validate_sources :: "'r Rig \<Rightarrow> 'p Program \<Rightarrow> bool" where
  "validate_sources R P \<longleftrightarrow>
     source_count R P \<le> MAX_STREAM_SOURCES
     \<and> P_INPUTS_REQUIRED P \<le> length (R_INPUTS R)
     \<and> P_OUTPUTS P = length (R_ACTUATORS R)
     \<and> P_OUTPUTS P \<le> MAX_ACTUATORS
     \<and> source_texts_ok R P
     \<and> source_encoded_len R P \<le> DISCOVERY_HEADROOM"

subsection \<open>Laws of controls and programmes\<close>

text \<open>
  What \<open>StandardProgram\<close> relies on of its control: the telemetry slice keeps its length, a step with
  enough inputs does not panic, and whatever makes that true survives every method.
\<close>

locale lawful_control =
  fixes C :: "'c StandardControl" and cinv :: "'c \<Rightarrow> bool"
  assumes telemetry_length: "length (c_telemetry C c out) = length out"
    and step_total: "cinv c \<Longrightarrow> C_INPUTS_REQUIRED C \<le> length (ci_measured i) \<Longrightarrow> c_step C i ctx c \<noteq> None"
    and step_inv: "cinv c \<Longrightarrow> c_step C i ctx c = Some (c', s) \<Longrightarrow> cinv c'"
    and apply_inv: "cinv c \<Longrightarrow> cinv (c_apply C ident payload c)"
    and reset_inv: "cinv c \<Longrightarrow> cinv (c_reset C c)"
    and enable_inv: "cinv c \<Longrightarrow> cinv (c_set_output_enabled C e c)"

text \<open>What the loop relies on of a programme.\<close>

locale lawful_program =
  fixes P :: "'p Program" and pinv :: "'p \<Rightarrow> bool"
  assumes signal_None: "p_signal P i = None \<longleftrightarrow> p_signal_count P \<le> i"
    and signals_length: "length out = p_signal_count P \<Longrightarrow> length (p_write_signals P p out) = p_signal_count P"
    and outputs_length: "p_step P w inputs e ctx outs p = Some (p', outs') \<Longrightarrow> length outs' = length outs"
    and step_total: "pinv p \<Longrightarrow> P_INPUTS_REQUIRED P \<le> length inputs \<Longrightarrow> length outs = P_OUTPUTS P \<Longrightarrow>
      p_step P w inputs e ctx outs p \<noteq> None"
    and step_inv: "pinv p \<Longrightarrow> p_step P w inputs e ctx outs p = Some (p', outs') \<Longrightarrow> pinv p'"
    and apply_inv: "pinv p \<Longrightarrow> pinv (snd (p_apply P domain ident payload (w, p)))"

lemma standard_apply_controller:
  "\<exists>c. sp_controller (snd (standard_apply C domain ident payload (w, p))) = c
     \<and> (c = sp_controller p \<or> c = c_apply C ident payload (sp_controller p))"
  by (auto simp: standard_apply_def standard_apply_generator_def standard_apply_table_def map_player_def
      Let_def split: Payload.splits prod.splits option.splits if_splits)

sublocale lawful_control \<subseteq> std: lawful_program "StandardProgramOf C" "\<lambda>p. cinv (sp_controller p)"
proof
  show "p_signal (StandardProgramOf C) i = None \<longleftrightarrow> p_signal_count (StandardProgramOf C) \<le> i" for i
    by (auto simp: StandardProgramOf_def standard_signal_def standard_signal_count_def get_at_def
        checked_sub_def split: option.splits)
  show "length (p_write_signals (StandardProgramOf C) p out) = p_signal_count (StandardProgramOf C)"
    if "length out = p_signal_count (StandardProgramOf C)" for out p
    using that telemetry_length [of "sp_controller p" "take (length (C_TELEMETRY C)) out"]
    by (simp add: StandardProgramOf_def standard_write_signals_def standard_signal_count_def
        standard_signals_def Let_def copy_at_def)
  show "length outs' = length outs"
    if "p_step (StandardProgramOf C) w inputs e ctx outs p = Some (p', outs')" for w inputs e ctx outs p p' outs'
    using that by (auto simp: StandardProgramOf_def standard_step_def Let_def split: option.splits prod.splits if_splits)
  show "p_step (StandardProgramOf C) w inputs e ctx outs p \<noteq> None"
    if "cinv (sp_controller p)" "P_INPUTS_REQUIRED (StandardProgramOf C) \<le> length inputs"
      "length outs = P_OUTPUTS (StandardProgramOf C)" for p inputs outs w e ctx
  proof -
    let ?c1 = "if e \<and> \<not> sp_output_enabled p then c_reset C (sp_controller p) else sp_controller p"
    have c: "cinv (c_set_output_enabled C e ?c1)" using that(1) reset_inv enable_inv by auto
    have "(c_step C i ctx (c_set_output_enabled C e ?c1) = None) = False" if "ci_measured i = inputs" for i
      using step_total [OF c, of i ctx] that \<open>P_INPUTS_REQUIRED (StandardProgramOf C) \<le> length inputs\<close>
      by (simp add: StandardProgramOf_def)
    moreover have "outs \<noteq> []" using that(3) by (auto simp: StandardProgramOf_def)
    ultimately show ?thesis
      by (cases e; cases "sp_output_enabled p")
        (auto simp: StandardProgramOf_def standard_step_def Let_def simp del: not_None_eq
          split: option.splits prod.splits)
  qed
  show "cinv (sp_controller p')"
    if "cinv (sp_controller p)" "p_step (StandardProgramOf C) w inputs e ctx outs p = Some (p', outs')"
    for p w inputs e ctx outs p' outs'
  proof -
    let ?c1 = "if e \<and> \<not> sp_output_enabled p then c_reset C (sp_controller p) else sp_controller p"
    have c: "cinv (c_set_output_enabled C e ?c1)" using that(1) reset_inv enable_inv by auto
    then show ?thesis using that(2) step_inv [OF c]
      by (auto simp: StandardProgramOf_def standard_step_def Let_def split: option.splits prod.splits if_splits)
  qed
  show "cinv (sp_controller (snd (p_apply (StandardProgramOf C) domain ident payload (w, p))))"
    if "cinv (sp_controller p)" for p domain ident payload w
    using standard_apply_controller [of C domain ident payload w p] that apply_inv
    by (auto simp: StandardProgramOf_def)
qed

interpretation pass: lawful_control PassThrough "\<lambda>_. True"
  by unfold_locales (auto simp: PassThrough_def pass_through_step_def)

definition pid_limits_ok :: "PidController \<Rightarrow> bool" where
  "pid_limits_ok c \<longleftrightarrow> f32_le (pc_out_min (pid_config (pk_pid c))) (pc_out_max (pid_config (pk_pid c)))"

lemma pid_update_config:
  "pid_update e dt p = Some (p', out) \<Longrightarrow> pid_config p' = pid_config p"
  by (auto simp: pid_update_def Let_def split: option.splits)

lemma pid_update_not_None:
  "f32_le (pc_out_min (pid_config p)) (pc_out_max (pid_config p)) \<Longrightarrow> pid_update e dt p \<noteq> None"
  using pid_update_total [of p e dt] by auto

interpretation pidc: lawful_control "PidControl F" pid_limits_ok for F
proof
  show "length (c_telemetry (PidControl F) c out) = length out" for c out
    by (simp add: PidControl_def pid_controller_telemetry_def)
  show "c_step (PidControl F) i ctx c \<noteq> None"
    if "pid_limits_ok c" "C_INPUTS_REQUIRED (PidControl F) \<le> length (ci_measured i)" for c i ctx
    using that pid_update_not_None
    by (auto simp: PidControl_def pid_controller_step_def pid_limits_ok_def get_at_def Let_def
        simp del: not_None_eq split: option.splits prod.splits)
  show "pid_limits_ok c'" if "pid_limits_ok c" "c_step (PidControl F) i ctx c = Some (c', s)" for c i ctx c' s
    using that
    by (auto simp: PidControl_def pid_controller_step_def pid_limits_ok_def Let_def dest: pid_update_config
        split: option.splits prod.splits if_splits)
  show "pid_limits_ok (c_apply (PidControl F) ident payload c)" if "pid_limits_ok c" for c ident payload
    using that by (auto simp: PidControl_def pid_controller_apply_def pid_limits_ok_def Let_def split: Payload.splits)
  show "pid_limits_ok (c_reset (PidControl F) c)" if "pid_limits_ok c" for c
    using that by (simp add: PidControl_def pid_controller_reset_def pid_limits_ok_def pid_reset_def)
  show "pid_limits_ok (c_set_output_enabled (PidControl F) e c)" if "pid_limits_ok c" for c e
    using that by (simp add: PidControl_def pid_limits_ok_def)
qed

subsection \<open>The output is released only fresh\<close>

text \<open>
  C36: while the output is disabled a standard programme commands exactly zero and its generator runs
  at the nominal increment whatever the control asked for; and the step that enables it again starts
  a PID control from its reset state: two programmes that differ only in the history of their
  controllers (integral, derivative, previous error) behave identically from there on.
\<close>

theorem reenabled_control_forgets_history:
  fixes p :: "PidController StandardProgram"
  assumes "standard_step (PidControl F) w inputs False ctx outs p = Some (p', outs')"
    and "pid_config (pk_pid c) = pid_config (pk_pid c')"
  shows "outs' ! 0 = f32_0 \<and> generator_increment (sp_generator p') = sp_nominal_increment p
    \<and> \<not> sp_frequency_overridden p' \<and> \<not> sp_output_enabled p'
    \<and> standard_step (PidControl F) w' inputs' True ctx outs (p'\<lparr>sp_controller := c\<rparr>)
        = standard_step (PidControl F) w' inputs' True ctx outs (p'\<lparr>sp_controller := c'\<rparr>)"
proof -
  have "pid_reset (pk_pid c) = pid_reset (pk_pid c')"
    using assms(2) by (cases "pk_pid c"; cases "pk_pid c'") (simp add: pid_reset_def)
  then have r: "c_set_output_enabled (PidControl F) True (c_reset (PidControl F) c)
      = c_set_output_enabled (PidControl F) True (c_reset (PidControl F) c')"
    by (cases c; cases c') (simp add: PidControl_def pid_controller_reset_def)
  have o: "outs' ! 0 = f32_0" "generator_increment (sp_generator p') = sp_nominal_increment p"
    "\<not> sp_frequency_overridden p'" "\<not> sp_output_enabled p'"
    using assms(1)
    by (auto simp: standard_step_def Let_def generator_increment_def generator_set_increment_def
        phase_set_increment_def split: option.splits prod.splits if_splits)
  moreover have "standard_step (PidControl F) w' inputs' True ctx outs (p'\<lparr>sp_controller := c\<rparr>)
      = standard_step (PidControl F) w' inputs' True ctx outs (p'\<lparr>sp_controller := c'\<rparr>)"
    using o(4) r by (auto simp: standard_step_def Let_def split: option.splits prod.splits)
  ultimately show ?thesis by blast
qed

definition example_program :: "PidController StandardProgram" where
  "example_program = the (standard_new 1 (pid_controller_new (pid_new pid_config_default))
     split_active split_active split_active)"

definition example_ctx :: StepCtx where
  "example_ctx = \<lparr>cx_lut = lut_new (\<lambda>_. f32_0), cx_sample_rate = Hz1000\<rparr>"

lemma example_program_limits: "pid_limits_ok (sp_controller example_program)"
proof -
  have "f32_le F32_MIN F32_MAX" by code_simp
  then show ?thesis
    by (simp add: example_program_def standard_new_def MAX_HARMONICS_def pid_controller_new_def pid_new_def
        pid_config_default_def pid_limits_ok_def)
qed

theorem reenabled_control_forgets_history_witness:
  "case the (standard_step (PidControl 0) example_world [f32_1] False example_ctx [f32_1] example_program) of
     (p', outs') \<Rightarrow> outs' ! 0 = f32_0
       \<and> standard_step (PidControl 0) example_world [f32_1] True example_ctx [f32_1]
            (p'\<lparr>sp_controller := pid_controller_new (pid_new pid_config_default)\<rparr>)
        = standard_step (PidControl 0) example_world [f32_1] True example_ctx [f32_1]
            (p'\<lparr>sp_controller := pid_controller_new ((pid_new pid_config_default)\<lparr>pid_integral := f32_1\<rparr>)\<rparr>)"
proof -
  have "p_step (StandardProgramOf (PidControl 0)) example_world [f32_1] False example_ctx [f32_1] example_program \<noteq> None"
    using example_program_limits
    by (intro pidc.std.step_total) (simp_all add: StandardProgramOf_def PidControl_def)
  then obtain p' outs' where r: "standard_step (PidControl 0) example_world [f32_1] False example_ctx [f32_1]
      example_program = Some (p', outs')"
    by (auto simp: StandardProgramOf_def)
  show ?thesis
    using reenabled_control_forgets_history [OF r, of "pid_controller_new (pid_new pid_config_default)"
        "pid_controller_new ((pid_new pid_config_default)\<lparr>pid_integral := f32_1\<rparr>)"] r
    by (simp add: pid_controller_new_def pid_new_def)
qed

end
