(* ===== verification/Rt_Loop.thy ===== *)
theory Rt_Loop
  imports Rt_Program
begin

text \<open>
  The real-time loop of core 1 (\<open>firmware/rt/src/rt_loop.rs\<close>). The hardware clock is an input: a tick
  takes the six values its reads of \<open>TIMER0\<close> return, and an iteration of the hot loop takes what the
  tick source's \<open>wait\<close> returned. The rig and the programme are parameters, given by their records. A
  tick is one step here; how its accesses to the safety atomics interleave with core 0 is in
  \<open>Rt_Safety\<close>, and those of the double buffers in \<open>Double_Buffer\<close>.
\<close>

definition COMMAND_EPOCH_MASK :: u32 where "COMMAND_EPOCH_MASK = push_bit 24 1 - 1"

record ('r, 'p) RtLoopState =
  rl_rig :: 'r
  rl_program :: 'p
  rl_world :: world
  rl_sample_rate :: SampleRate
  rl_commands :: "RtCommand list"
  rl_records :: "Record list"
  rl_ctx :: StepCtx
  rl_command_epoch :: u32
  rl_index :: u32
  rl_last_tick :: "u32 option"
  rl_n_inputs :: nat
  rl_n_program_signals :: nat
  rl_n_actuators :: nat
  rl_n_sources :: nat

record TickTimes =
  tt_t0 :: u32
  tt_m0 :: u32
  tt_m1 :: u32
  tt_a0 :: u32
  tt_a1 :: u32
  tt_end :: u32

subsection \<open>Updates of the shared diagnostics\<close>

definition map_diagnostics :: "(Diagnostics \<Rightarrow> Diagnostics) \<Rightarrow> world \<Rightarrow> world" where
  "map_diagnostics f w =
     w\<lparr>w_shared := (w_shared w)\<lparr>sh_diagnostics := f (sh_diagnostics (w_shared w))\<rparr>\<rparr>"

definition observe_wake :: "u32 option \<Rightarrow> Diagnostics \<Rightarrow> Diagnostics" where
  "observe_wake phase d =
     (case phase of
        None \<Rightarrow> d
      | Some ph \<Rightarrow> d\<lparr>dg_wake_phase_max_us := max (dg_wake_phase_max_us d) ph,
                       dg_wake_phase_min_us := min (dg_wake_phase_min_us d) ph\<rparr>)"

definition observe_jitter :: "SampleRate \<Rightarrow> u32 option \<Rightarrow> u32 \<Rightarrow> Diagnostics \<Rightarrow> Diagnostics" where
  "observe_jitter rate prev t0 d =
     (case prev of
        None \<Rightarrow> d
      | Some l \<Rightarrow>
          let spacing = t0 - l; nominal = ucast (sr_period_us rate)
          in if spacing > nominal
             then d\<lparr>dg_clock_jitter_us := max (dg_clock_jitter_us d) (spacing - nominal)\<rparr>
             else d)"

definition observe_backlog :: "nat \<Rightarrow> Diagnostics \<Rightarrow> Diagnostics" where
  "observe_backlog backlog d = d\<lparr>dg_command_backlog_max := max (dg_command_backlog_max d) (of_nat backlog)\<rparr>"

definition finish_tick :: "SampleRate \<Rightarrow> TickTimes \<Rightarrow> RtShared \<Rightarrow> RtShared" where
  "finish_tick rate t sh =
     (let measure_us = tt_m1 t - tt_m0 t;
          actuate_us = tt_a1 t - tt_a0 t;
          elapsed = tt_end t - tt_t0 t;
          rest = saturating_sub (saturating_sub elapsed measure_us) actuate_us;
          d = sh_diagnostics sh; lv = sh_live sh
      in sh\<lparr>sh_diagnostics :=
              d\<lparr>dg_t_measure_max_us := max (dg_t_measure_max_us d) measure_us,
                dg_t_actuate_max_us := max (dg_t_actuate_max_us d) actuate_us,
                dg_t_rest_max_us := max (dg_t_rest_max_us d) rest,
                dg_loop_time_max_us := max (dg_loop_time_max_us d) elapsed,
                dg_overruns := (if elapsed > ucast (sr_period_us rate) then dg_overruns d + 1
                                else dg_overruns d)\<rparr>,
            sh_live := lv\<lparr>lv_loop_time_last_us := elapsed, lv_ticks := lv_ticks lv + 1\<rparr>\<rparr>)"

subsection \<open>Commands, the output stage and the record\<close>

definition apply_command ::
  "'r Rig \<Rightarrow> 'p Program \<Rightarrow> RtCommand \<Rightarrow> 'r \<times> world \<times> 'p \<Rightarrow> 'r \<times> world \<times> 'p" where
  "apply_command R P command s =
     (case s of (rig, w, p) \<Rightarrow>
        if rc_domain command = DOMAIN_RIG
        then (case rc_payload command of
                PF32 v \<Rightarrow> (r_set_param R (rc_id command) v rig, w, p)
              | _ \<Rightarrow> s)
        else (rig, p_apply P (rc_domain command) (rc_id command) (rc_payload command) (w, p)))"

text \<open>The bounded dequeue loop: what is left of the queue, the new state, and how many were applied.\<close>

fun apply_commands ::
  "'r Rig \<Rightarrow> 'p Program \<Rightarrow> nat \<Rightarrow> RtCommand list \<Rightarrow> 'r \<times> world \<times> 'p
     \<Rightarrow> RtCommand list \<times> ('r \<times> world \<times> 'p) \<times> nat" where
  "apply_commands R P 0 commands s = (commands, s, 0)"
| "apply_commands R P (Suc n) commands s =
     (case dequeue commands of
        (_, None) \<Rightarrow> (commands, s, 0)
      | (rest, Some command) \<Rightarrow>
          (let (left, s', applied) = apply_commands R P n rest (apply_command R P command s)
           in (left, s', Suc applied)))"

definition safety_gate ::
  "'r Rig \<Rightarrow> SafetyInputs \<Rightarrow> f32 list \<Rightarrow> bool \<Rightarrow> f32 list \<Rightarrow> 'r \<times> RtShared \<Rightarrow> ('r \<times> RtShared) \<times> f32 list" where
  "safety_gate R safety_inputs inputs program_fault commanded s =
     (let (rig, sh) = s;
          (rig1, rig_fault) = r_output_fault R inputs rig;
          fault = (rig_fault \<or> program_fault);
          (outcome, applied) = safety_decide R rig1 safety_inputs fault commanded;
          sh1 = (if so_newly_tripped outcome then sh\<lparr>sh_safety := latch_trip (sh_safety sh)\<rparr> else sh);
          d = sh_diagnostics sh1;
          d1 = (if so_quieted outcome then d\<lparr>dg_safety_quiet_ticks := dg_safety_quiet_ticks d + 1\<rparr> else d);
          d2 = (if so_clamped outcome then d1\<lparr>dg_safety_clamp_ticks := dg_safety_clamp_ticks d1 + 1\<rparr> else d1)
      in ((rig1, sh1\<lparr>sh_diagnostics := d2\<rparr>), applied))"

definition output_enabled_for :: "'r Rig \<Rightarrow> SafetyInputs \<Rightarrow> bool" where
  "output_enabled_for R si \<longleftrightarrow> \<not> R_SAFETY_GATED R \<or> (si_armed si \<and> \<not> si_tripped si)"

text \<open>
  The values of one record: the measured inputs, the programme's signals, what was applied and the
  command epoch, in the first \<open>n_sources\<close> of \<open>MAX_SOURCES\<close> slots.
\<close>

definition record_values ::
  "'p Program \<Rightarrow> 'p \<Rightarrow> nat \<Rightarrow> nat \<Rightarrow> f32 list \<Rightarrow> f32 list \<Rightarrow> u32 \<Rightarrow> f32 list" where
  "record_values P p n_inputs n_signals values applied epoch =
     (let v1 = copy_at values n_inputs (p_write_signals P p (subslice values n_inputs (n_inputs + n_signals)));
          generated = n_inputs + n_signals;
          v2 = copy_at v1 generated applied
      in v2[generated + length applied := f32_of_word epoch])"

definition push_record :: "Record \<Rightarrow> Record list \<times> Diagnostics \<Rightarrow> Record list \<times> Diagnostics" where
  "push_record rec s =
     (let (records, d) = s; (records', ok) = enqueue RECORD_QUEUE_LEN rec records
      in (records', if ok then d else d\<lparr>dg_records_dropped := dg_records_dropped d + 1\<rparr>))"

subsection \<open>One tick\<close>

text \<open>The first part: timing, then at most \<open>COMMANDS_PER_TICK\<close> commands.\<close>

definition tick_commands ::
  "'r Rig \<Rightarrow> 'p Program \<Rightarrow> TickTimes \<Rightarrow> ('r, 'p) RtLoopState \<Rightarrow> ('r, 'p) RtLoopState" where
  "tick_commands R P t s =
     (let rig0 = r_tick_start R (rl_rig s);
          w0 = map_diagnostics (\<lambda>d. observe_jitter (rl_sample_rate s) (rl_last_tick s) (tt_t0 t)
                                  (observe_wake (r_tick_phase_us R rig0) d)) (rl_world s);
          (left, (rig1, w1, p1), applied) =
            apply_commands R P COMMANDS_PER_TICK (rl_commands s) (rig0, w0, rl_program s);
          w2 = (if applied \<noteq> 0 then map_diagnostics (observe_backlog (applied + length left)) w1 else w1);
          epoch = (if applied \<noteq> 0 then (rl_command_epoch s + of_nat applied) AND COMMAND_EPOCH_MASK
                   else rl_command_epoch s)
      in s\<lparr>rl_rig := rig1, rl_program := p1, rl_world := w2, rl_commands := left,
           rl_command_epoch := epoch, rl_last_tick := Some (tt_t0 t)\<rparr>)"

text \<open>
  The rest: measure, step, output stage, actuate, record, timing. \<open>None\<close> is a panic of the
  programme's step. The second result is what \<open>actuate\<close> was given.
\<close>

definition tick_output ::
  "'r Rig \<Rightarrow> 'p Program \<Rightarrow> TickTimes \<Rightarrow> ('r, 'p) RtLoopState \<Rightarrow> (('r, 'p) RtLoopState \<times> f32 list) option" where
  "tick_output R P t s =
     (let n = rl_n_inputs s;
          (rig1, measured) = r_measure R (replicate n f32_0) (rl_rig s);
          values = copy_at (replicate MAX_STREAM_SOURCES f32_0) 0 measured;
          sh = w_shared (rl_world s);
          si = load_inputs (sh_safety sh)
      in case p_step P (rl_world s) (take n values) (output_enabled_for R si) (rl_ctx s)
                (replicate (rl_n_actuators s) f32_0) (rl_program s) of
           None \<Rightarrow> None
         | Some (p1, commanded) \<Rightarrow>
             let ((rig2, sh1), applied) =
                   (if R_SAFETY_GATED R
                    then safety_gate R si (take n values) (p_fault P p1) commanded (rig1, sh)
                    else ((rig1, sh), commanded));
                 rig3 = r_actuate R applied rig2;
                 vs = record_values P p1 n (rl_n_program_signals s) values applied (rl_command_epoch s);
                 (records, d) = push_record
                   \<lparr>re_index = rl_index s, re_n = of_nat (rl_n_sources s), re_values = vs\<rparr>
                   (rl_records s, sh_diagnostics sh1);
                 rig4 = r_tick_end R rig3
             in Some (s\<lparr>rl_rig := rig4, rl_program := p1, rl_records := records,
                        rl_index := rl_index s + 1,
                        rl_world := (rl_world s)\<lparr>w_shared :=
                          finish_tick (rl_sample_rate s) t (sh1\<lparr>sh_diagnostics := d\<rparr>)\<rparr>\<rparr>, applied))"

definition run_rt_tick ::
  "'r Rig \<Rightarrow> 'p Program \<Rightarrow> TickTimes \<Rightarrow> ('r, 'p) RtLoopState \<Rightarrow> (('r, 'p) RtLoopState \<times> f32 list) option" where
  "run_rt_tick R P t s = tick_output R P t (tick_commands R P t s)"

subsection \<open>Start-up and the hot loop\<close>

definition run_rt_loop ::
  "'r Rig \<Rightarrow> 'p Program \<Rightarrow> (f32 \<Rightarrow> f32) \<Rightarrow> 'r \<Rightarrow> 'p \<Rightarrow> world \<Rightarrow> SampleRate \<Rightarrow> RtCommand list \<Rightarrow> Record list
     \<Rightarrow> ('r, 'p) RtLoopState option" where
  "run_rt_loop R P sinf rig p w rate commands records =
     (if \<not> source_count R P \<le> MAX_STREAM_SOURCES then None
      else if P_OUTPUTS P \<noteq> length (R_ACTUATORS R) then None
      else if \<not> length (R_ACTUATORS R) \<le> MAX_ACTUATORS then None
      else if \<not> P_INPUTS_REQUIRED P \<le> length (R_INPUTS R) then None
      else Some \<lparr>rl_rig = r_init R rig, rl_program = p, rl_world = w, rl_sample_rate = rate,
             rl_commands = commands, rl_records = records,
             rl_ctx = \<lparr>cx_lut = lut_new sinf, cx_sample_rate = rate\<rparr>,
             rl_command_epoch = 0, rl_index = 0, rl_last_tick = None,
             rl_n_inputs = length (R_INPUTS R), rl_n_program_signals = p_signal_count P,
             rl_n_actuators = length (R_ACTUATORS R), rl_n_sources = source_count R P\<rparr>)"

text \<open>One iteration of the hot loop. \<open>Quiesced\<close> is the spin after \<open>mark_quiesced\<close>.\<close>

datatype ('r, 'p) loop_state = Running "('r, 'p) RtLoopState" u8 | Quiesced "('r, 'p) RtLoopState"

definition count_timeout :: "bool \<Rightarrow> ('r, 'p) RtLoopState \<Rightarrow> ('r, 'p) RtLoopState" where
  "count_timeout ok s =
     (if ok then s
      else s\<lparr>rl_world := map_diagnostics (\<lambda>d. d\<lparr>dg_tick_timeouts := dg_tick_timeouts d + 1\<rparr>) (rl_world s)\<rparr>)"

fun hot_iteration ::
  "'r Rig \<Rightarrow> 'p Program \<Rightarrow> bool \<Rightarrow> TickTimes \<Rightarrow> ('r, 'p) loop_state \<Rightarrow> ('r, 'p) loop_state option" where
  "hot_iteration R P wait_ok t (Quiesced s) = Some (Quiesced s)"
| "hot_iteration R P wait_ok t (Running s step) =
     (let s0 = count_timeout wait_ok s; sh = w_shared (rl_world s0)
      in if reboot_is_requested (sh_reboot sh)
         then (case r_prepare_reboot R step (rl_rig s0) of
                 (rig, True) \<Rightarrow>
                   Some (Quiesced (s0\<lparr>rl_rig := rig, rl_world :=
                     (rl_world s0)\<lparr>w_shared := sh\<lparr>sh_reboot := reboot_mark_quiesced (sh_reboot sh)\<rparr>\<rparr>\<rparr>))
               | (rig, False) \<Rightarrow> Some (Running (s0\<lparr>rl_rig := rig\<rparr>) (saturating_add step 1)))
         else map_option (\<lambda>(s1, _). Running s1 step) (run_rt_tick R P t s0))"

subsection \<open>Commands are applied in order, at most two per tick\<close>

lemma apply_commands_fifo:
  "apply_commands R P n q s = (drop n q, fold (apply_command R P) (take n q) s, min n (length q))"
proof (induction n arbitrary: q s)
  case 0
  then show ?case by simp
next
  case (Suc n)
  then show ?case by (cases q) (simp_all add: Let_def)
qed

lemma epoch_mask: "unat (x AND COMMAND_EPOCH_MASK) = unat x mod 2 ^ 24"
proof -
  have "COMMAND_EPOCH_MASK = mask 24" by (simp add: COMMAND_EPOCH_MASK_def mask_eq_decr_exp)
  then have "x AND COMMAND_EPOCH_MASK = take_bit 24 x" by (simp only: take_bit_eq_mask)
  then have "unat (x AND COMMAND_EPOCH_MASK) = take_bit 24 (unat x)" by (simp only: unsigned_take_bit_eq)
  then show ?thesis by (simp only: take_bit_eq_mod)
qed

lemma tick_commands_effect:
  fixes s :: "('r, 'p) RtLoopState"
  defines "k \<equiv> min COMMANDS_PER_TICK (length (rl_commands s))"
  shows "rl_commands (tick_commands R P t s) = drop COMMANDS_PER_TICK (rl_commands s)"
    and "unat (rl_command_epoch s) < 2 ^ 24 \<Longrightarrow>
      unat (rl_command_epoch (tick_commands R P t s)) = (unat (rl_command_epoch s) + k) mod 2 ^ 24"
    and "\<exists>w0 w1. fold (apply_command R P) (take COMMANDS_PER_TICK (rl_commands s))
           (r_tick_start R (rl_rig s), w0, rl_program s)
         = (rl_rig (tick_commands R P t s), w1, rl_program (tick_commands R P t s))
       \<and> sh_safety (w_shared w0) = sh_safety (w_shared (rl_world s))
       \<and> sh_safety (w_shared w1) = sh_safety (w_shared (rl_world (tick_commands R P t s)))"
proof -
  show "rl_commands (tick_commands R P t s) = drop COMMANDS_PER_TICK (rl_commands s)"
    by (auto simp: tick_commands_def Let_def apply_commands_fifo split: prod.splits)
  show "unat (rl_command_epoch (tick_commands R P t s)) = (unat (rl_command_epoch s) + k) mod 2 ^ 24"
    if "unat (rl_command_epoch s) < 2 ^ 24"
  proof -
    have "k \<le> 2" by (simp add: k_def COMMANDS_PER_TICK_def)
    with that have "unat (rl_command_epoch s + of_nat k) = unat (rl_command_epoch s) + k"
      by (simp add: unat_word_ariths unat_of_nat)
    then show ?thesis using that
      by (auto simp: tick_commands_def Let_def apply_commands_fifo epoch_mask k_def [symmetric] split: prod.splits)
  qed
  show "\<exists>w0 w1. fold (apply_command R P) (take COMMANDS_PER_TICK (rl_commands s))
           (r_tick_start R (rl_rig s), w0, rl_program s)
         = (rl_rig (tick_commands R P t s), w1, rl_program (tick_commands R P t s))
       \<and> sh_safety (w_shared w0) = sh_safety (w_shared (rl_world s))
       \<and> sh_safety (w_shared w1) = sh_safety (w_shared (rl_world (tick_commands R P t s)))"
    by (auto simp: tick_commands_def Let_def apply_commands_fifo map_diagnostics_def split: prod.splits
        intro!: exI)
qed

lemma tick_commands_frame [simp]:
  "rl_records (tick_commands R P t s) = rl_records s" "rl_index (tick_commands R P t s) = rl_index s"
  "rl_n_inputs (tick_commands R P t s) = rl_n_inputs s" "rl_n_actuators (tick_commands R P t s) = rl_n_actuators s"
  "rl_n_program_signals (tick_commands R P t s) = rl_n_program_signals s"
  "rl_n_sources (tick_commands R P t s) = rl_n_sources s" "rl_ctx (tick_commands R P t s) = rl_ctx s"
  "rl_sample_rate (tick_commands R P t s) = rl_sample_rate s"
  by (simp_all add: tick_commands_def Let_def split: prod.splits)

lemma tick_output_frame:
  assumes "tick_output R P t s = Some (s', applied)"
  shows "rl_commands s' = rl_commands s" "rl_command_epoch s' = rl_command_epoch s"
    "rl_index s' = rl_index s + 1" "rl_n_inputs s' = rl_n_inputs s" "rl_n_actuators s' = rl_n_actuators s"
    "rl_n_program_signals s' = rl_n_program_signals s" "rl_n_sources s' = rl_n_sources s"
  using assms by (auto simp: tick_output_def Let_def split: prod.splits option.splits)

subsection \<open>Ticks do not panic\<close>

definition loop_ok :: "'r Rig \<Rightarrow> 'p Program \<Rightarrow> ('p \<Rightarrow> bool) \<Rightarrow> ('r, 'p) RtLoopState \<Rightarrow> bool" where
  "loop_ok R P pinv s \<longleftrightarrow> pinv (rl_program s)
     \<and> rl_n_inputs s = length (R_INPUTS R) \<and> rl_n_program_signals s = p_signal_count P
     \<and> rl_n_actuators s = length (R_ACTUATORS R) \<and> rl_n_sources s = source_count R P
     \<and> source_count R P \<le> MAX_STREAM_SOURCES \<and> P_OUTPUTS P = length (R_ACTUATORS R)
     \<and> P_INPUTS_REQUIRED P \<le> length (R_INPUTS R) \<and> unat (rl_command_epoch s) < 2 ^ 24"

lemma run_rt_loop_ok:
  "run_rt_loop R P sinf rig p w rate commands records = Some s \<Longrightarrow> pinv p \<Longrightarrow> loop_ok R P pinv s"
  by (auto simp: run_rt_loop_def loop_ok_def split: if_splits)

text \<open>A programme that keeps its laws on a rig that fills the slice it is given.\<close>

locale rt_node = lawful_program P pinv for P :: "'p Program" and pinv +
  fixes R :: "'r Rig"
  assumes measure_length: "length (snd (r_measure R vs rig)) = length vs"
begin

lemma fold_apply_inv: "pinv p \<Longrightarrow> pinv (snd (snd (fold (apply_command R P) cs (rig, w, p))))"
proof (induction cs arbitrary: rig w p)
  case Nil
  then show ?case by simp
next
  case (Cons c cs)
  obtain rig1 w1 p1 where a: "apply_command R P c (rig, w, p) = (rig1, w1, p1)" by (metis surj_pair)
  then have "p1 = p \<or> p1 = snd (p_apply P (rc_domain c) (rc_id c) (rc_payload c) (w, p))"
    by (auto simp: apply_command_def split: if_splits Payload.splits)
  then have "pinv p1" using Cons.prems apply_inv by auto
  then show ?case using Cons.IH a by simp
qed

lemma tick_commands_ok: "loop_ok R P pinv s \<Longrightarrow> loop_ok R P pinv (tick_commands R P t s)"
proof -
  assume ok: "loop_ok R P pinv s"
  obtain w0 w1 where f: "fold (apply_command R P) (take COMMANDS_PER_TICK (rl_commands s))
      (r_tick_start R (rl_rig s), w0, rl_program s)
    = (rl_rig (tick_commands R P t s), w1, rl_program (tick_commands R P t s))"
    using tick_commands_effect(3) by blast
  have "pinv (rl_program (tick_commands R P t s))"
    using fold_apply_inv [of "rl_program s" "take COMMANDS_PER_TICK (rl_commands s)" "r_tick_start R (rl_rig s)" w0]
      ok f by (simp add: loop_ok_def)
  then show ?thesis using ok tick_commands_effect(2) [where R = R and P = P and t = t and s = s] by (simp add: loop_ok_def)
qed

lemma measured_prefix:
  assumes "loop_ok R P pinv s" "r_measure R (replicate (rl_n_inputs s) f32_0) rig = (rig1, measured)"
  shows "length measured = rl_n_inputs s" "rl_n_inputs s \<le> MAX_STREAM_SOURCES"
    "take (rl_n_inputs s) (copy_at (replicate MAX_STREAM_SOURCES f32_0) 0 measured) = measured"
proof -
  show l: "length measured = rl_n_inputs s"
    using measure_length [of "replicate (rl_n_inputs s) f32_0" rig] assms(2) by simp
  show "rl_n_inputs s \<le> MAX_STREAM_SOURCES" using assms(1) by (simp add: loop_ok_def source_count_def)
  show "take (rl_n_inputs s) (copy_at (replicate MAX_STREAM_SOURCES f32_0) 0 measured) = measured"
    using l by (simp add: copy_at_def)
qed

lemma tick_output_total:
  assumes "loop_ok R P pinv s"
  shows "\<exists>s' applied. tick_output R P t s = Some (s', applied) \<and> loop_ok R P pinv s'
    \<and> length applied = rl_n_actuators s"
proof -
  obtain rig1 measured where m: "r_measure R (replicate (rl_n_inputs s) f32_0) (rl_rig s) = (rig1, measured)"
    by (metis surj_pair)
  note ml = measured_prefix [OF assms m]
  let ?en = "output_enabled_for R (load_inputs (sh_safety (w_shared (rl_world s))))"
  have "p_step P (rl_world s) measured ?en (rl_ctx s) (replicate (rl_n_actuators s) f32_0) (rl_program s) \<noteq> None"
    using assms ml(1) by (intro step_total) (auto simp: loop_ok_def)
  then obtain p1 commanded where p: "p_step P (rl_world s) measured ?en (rl_ctx s)
      (replicate (rl_n_actuators s) f32_0) (rl_program s) = Some (p1, commanded)"
    by auto
  have "length commanded = rl_n_actuators s" using outputs_length [OF p] by simp
  moreover have "pinv p1" using step_inv [OF _ p] assms by (simp add: loop_ok_def)
  ultimately show ?thesis
    using assms m ml(3) p
    by (auto simp: tick_output_def Let_def loop_ok_def safety_gate_def split: prod.splits
        dest: arg_cong [of _ _ "\<lambda>x. length (snd x)"])
qed

lemma run_rt_tick_total:
  assumes "loop_ok R P pinv s"
  shows "\<exists>s' applied. run_rt_tick R P t s = Some (s', applied) \<and> loop_ok R P pinv s'
    \<and> length applied = rl_n_actuators s"
  using tick_output_total [OF tick_commands_ok [OF assms, of t]] by (simp add: run_rt_tick_def)

end

fun run_ticks ::
  "'r Rig \<Rightarrow> 'p Program \<Rightarrow> TickTimes list \<Rightarrow> ('r, 'p) RtLoopState \<Rightarrow> ('r, 'p) RtLoopState option" where
  "run_ticks R P [] s = Some s"
| "run_ticks R P (t # ts) s =
     Option.bind (run_rt_tick R P t s) (\<lambda>(s', _). run_ticks R P ts s')"

context rt_node
begin

lemma run_ticks_drain:
  "loop_ok R P pinv s \<Longrightarrow> \<exists>s'. run_ticks R P ts s = Some s' \<and> loop_ok R P pinv s'
     \<and> rl_commands s' = drop (COMMANDS_PER_TICK * length ts) (rl_commands s)
     \<and> unat (rl_command_epoch s')
         = (unat (rl_command_epoch s) + min (COMMANDS_PER_TICK * length ts) (length (rl_commands s))) mod 2 ^ 24
     \<and> rl_index s' = rl_index s + of_nat (length ts)"
proof (induction ts arbitrary: s)
  case Nil
  then show ?case by (simp add: loop_ok_def)
next
  case (Cons t ts)
  obtain s1 applied where r: "run_rt_tick R P t s = Some (s1, applied)" "loop_ok R P pinv s1"
    using run_rt_tick_total [OF Cons.prems] by blast
  have t: "tick_output R P t (tick_commands R P t s) = Some (s1, applied)" using r(1) by (simp add: run_rt_tick_def)
  have e: "unat (rl_command_epoch s) < 2 ^ 24" using Cons.prems by (simp add: loop_ok_def)
  let ?k = "min COMMANDS_PER_TICK (length (rl_commands s))"
  have s1: "rl_commands s1 = drop COMMANDS_PER_TICK (rl_commands s)"
    "unat (rl_command_epoch s1) = (unat (rl_command_epoch s) + ?k) mod 2 ^ 24" "rl_index s1 = rl_index s + 1"
    using tick_output_frame [OF t] tick_commands_effect(1,2) [where R = R and P = P and t = t and s = s] e by simp_all
  obtain s' where s': "run_ticks R P ts s1 = Some s'" "loop_ok R P pinv s'"
    "rl_commands s' = drop (COMMANDS_PER_TICK * length ts) (rl_commands s1)"
    "unat (rl_command_epoch s')
         = (unat (rl_command_epoch s1) + min (COMMANDS_PER_TICK * length ts) (length (rl_commands s1))) mod 2 ^ 24"
    "rl_index s' = rl_index s1 + of_nat (length ts)"
    using Cons.IH [OF r(2)] by blast
  have "unat (rl_command_epoch s')
      = (unat (rl_command_epoch s) + ?k + min (COMMANDS_PER_TICK * length ts) (length (rl_commands s1))) mod 2 ^ 24"
    unfolding s'(4) s1(2) by (rule mod_add_left_eq)
  moreover have "?k + min (COMMANDS_PER_TICK * length ts) (length (rl_commands s1))
      = min (COMMANDS_PER_TICK * length (t # ts)) (length (rl_commands s))"
    by (simp add: s1(1))
  ultimately show ?case using r(1) s' s1 by (simp add: add.assoc add.commute)
qed

end

subsection \<open>What a record holds\<close>

lemma record_values_layout:
  assumes "length values = N" "length measured = n" "values = copy_at (replicate N f32_0) 0 measured"
    and "length (p_write_signals P p (subslice values n (n + k))) = k" "n + k + length applied + 1 \<le> N"
  shows "record_values P p n k values applied epoch = measured
    @ p_write_signals P p (subslice values n (n + k)) @ applied @ [f32_of_word epoch]
    @ replicate (N - (n + k + length applied + 1)) f32_0"
proof -
  let ?sig = "p_write_signals P p (subslice values n (n + k))"
  have v: "values = copy_at (replicate N f32_0) 0 measured" by (rule assms(3))
  have 1: "copy_at values n ?sig = copy_at (replicate N f32_0) 0 (measured @ ?sig)"
    by (subst v, rule copy_at_extend) (use assms in auto)
  have 2: "copy_at (copy_at values n ?sig) (n + k) applied
      = copy_at (replicate N f32_0) 0 (measured @ ?sig @ applied)"
    unfolding 1 using assms copy_at_extend [of "n + k" "measured @ ?sig" applied "replicate N f32_0"] by simp
  have 3: "(copy_at (copy_at values n ?sig) (n + k) applied)[n + k + length applied := f32_of_word epoch]
      = copy_at (replicate N f32_0) 0 (measured @ ?sig @ applied @ [f32_of_word epoch])"
    unfolding 2
    using assms update_copy_at_extend [of "n + k + length applied" "measured @ ?sig @ applied" "replicate N f32_0"]
    by simp
  show ?thesis
    unfolding record_values_def Let_def 3 using assms by (simp add: copy_at_def)
qed

lemma source_registry:
  assumes "\<And>i. p_signal P i = None \<longleftrightarrow> p_signal_count P \<le> i"
  shows "map (source R P) [0..<source_count R P]
    = map Some (R_INPUTS R) @ map (p_signal P) [0..<p_signal_count P] @ map Some (R_ACTUATORS R)
      @ [Some COMMAND_EPOCH_SOURCE]"
proof (rule nth_equalityI)
  let ?l = "map Some (R_INPUTS R) @ map (p_signal P) [0..<p_signal_count P] @ map Some (R_ACTUATORS R)
      @ [Some COMMAND_EPOCH_SOURCE]"
  let ?n = "length (R_INPUTS R)" and ?k = "p_signal_count P" and ?a = "length (R_ACTUATORS R)"
  show "length (map (source R P) [0..<source_count R P]) = length ?l" by (simp add: source_count_def)
  fix i assume i: "i < length (map (source R P) [0..<source_count R P])"
  have "source R P i = ?l ! i"
  proof -
    consider "i < ?n" | "?n \<le> i" "i < ?n + ?k" | "?n + ?k \<le> i" "i < ?n + ?k + ?a" | "i = ?n + ?k + ?a"
      using i by (simp add: source_count_def) linarith
    then show ?thesis
    proof cases
      case 1
      then show ?thesis by (simp add: source_def get_at_def nth_append)
    next
      case 2
      then have "p_signal P (i - ?n) \<noteq> None" using assms [of "i - ?n"] by auto
      with 2 show ?thesis by (auto simp: source_def get_at_def nth_append Let_def)
    next
      case 3
      then have "p_signal P (i - ?n) = None" using assms [of "i - ?n"] by auto
      with 3 show ?thesis by (auto simp: source_def get_at_def nth_append Let_def checked_sub_def)
    next
      case 4
      then have "p_signal P (i - ?n) = None" using assms [of "i - ?n"] by auto
      with 4 show ?thesis by (auto simp: source_def get_at_def nth_append Let_def checked_sub_def)
    qed
  qed
  then show "map (source R P) [0..<source_count R P] ! i = ?l ! i" using i by simp
qed

text \<open>The pieces of a tick that returned.\<close>

lemma tick_output_pieces:
  assumes "tick_output R P t s = Some (s', applied)"
  obtains rig1 measured p1 commanded rig2 sh1 d where
    "r_measure R (replicate (rl_n_inputs s) f32_0) (rl_rig s) = (rig1, measured)"
    "p_step P (rl_world s) (take (rl_n_inputs s) (copy_at (replicate MAX_STREAM_SOURCES f32_0) 0 measured))
       (output_enabled_for R (load_inputs (sh_safety (w_shared (rl_world s))))) (rl_ctx s)
       (replicate (rl_n_actuators s) f32_0) (rl_program s) = Some (p1, commanded)"
    "(if R_SAFETY_GATED R
      then safety_gate R (load_inputs (sh_safety (w_shared (rl_world s))))
             (take (rl_n_inputs s) (copy_at (replicate MAX_STREAM_SOURCES f32_0) 0 measured))
             (p_fault P p1) commanded (rig1, w_shared (rl_world s))
      else ((rig1, w_shared (rl_world s)), commanded)) = ((rig2, sh1), applied)"
    "rl_records s' = fst (enqueue RECORD_QUEUE_LEN
       \<lparr>re_index = rl_index s, re_n = of_nat (rl_n_sources s),
        re_values = record_values P p1 (rl_n_inputs s) (rl_n_program_signals s)
          (copy_at (replicate MAX_STREAM_SOURCES f32_0) 0 measured) applied (rl_command_epoch s)\<rparr> (rl_records s))"
    "rl_world s' = (rl_world s)\<lparr>w_shared := finish_tick (rl_sample_rate s) t (sh1\<lparr>sh_diagnostics := d\<rparr>)\<rparr>"
    "rl_rig s' = r_tick_end R (r_actuate R applied rig2)"
proof -
  obtain rig1 measured where m: "r_measure R (replicate (rl_n_inputs s) f32_0) (rl_rig s) = (rig1, measured)"
    by (metis surj_pair)
  obtain p1 commanded where p: "p_step P (rl_world s)
       (take (rl_n_inputs s) (copy_at (replicate MAX_STREAM_SOURCES f32_0) 0 measured))
       (output_enabled_for R (load_inputs (sh_safety (w_shared (rl_world s))))) (rl_ctx s)
       (replicate (rl_n_actuators s) f32_0) (rl_program s) = Some (p1, commanded)"
    using assms m by (auto simp: tick_output_def Let_def split: option.splits)
  obtain rig2 sh1 ap where g: "(if R_SAFETY_GATED R
      then safety_gate R (load_inputs (sh_safety (w_shared (rl_world s))))
             (take (rl_n_inputs s) (copy_at (replicate MAX_STREAM_SOURCES f32_0) 0 measured))
             (p_fault P p1) commanded (rig1, w_shared (rl_world s))
      else ((rig1, w_shared (rl_world s)), commanded)) = ((rig2, sh1), ap)"
    by (metis surj_pair)
  obtain records d where q: "push_record
       \<lparr>re_index = rl_index s, re_n = of_nat (rl_n_sources s),
        re_values = record_values P p1 (rl_n_inputs s) (rl_n_program_signals s)
          (copy_at (replicate MAX_STREAM_SOURCES f32_0) 0 measured) ap (rl_command_epoch s)\<rparr>
       (rl_records s, sh_diagnostics sh1) = (records, d)"
    by (metis surj_pair)
  have r: "records = fst (enqueue RECORD_QUEUE_LEN
       \<lparr>re_index = rl_index s, re_n = of_nat (rl_n_sources s),
        re_values = record_values P p1 (rl_n_inputs s) (rl_n_program_signals s)
          (copy_at (replicate MAX_STREAM_SOURCES f32_0) 0 measured) ap (rl_command_epoch s)\<rparr> (rl_records s))"
    using q by (auto simp: push_record_def split_def Let_def)
  have "applied = ap" "rl_records s' = records"
    "rl_world s' = (rl_world s)\<lparr>w_shared := finish_tick (rl_sample_rate s) t (sh1\<lparr>sh_diagnostics := d\<rparr>)\<rparr>"
    "rl_rig s' = r_tick_end R (r_actuate R ap rig2)"
    using assms m p g q unfolding tick_output_def by (simp_all add: Let_def) auto
  then show thesis using that [OF m p] g r by simp
qed

context rt_node
begin

lemma tick_record:
  assumes "loop_ok R P pinv s" "run_rt_tick R P t s = Some (s', applied)"
  shows "\<exists>measured signals. length measured = rl_n_inputs s \<and> length signals = rl_n_program_signals s
    \<and> length applied = rl_n_actuators s
    \<and> rl_records s' = fst (enqueue RECORD_QUEUE_LEN
        \<lparr>re_index = rl_index s, re_n = of_nat (source_count R P),
         re_values = measured @ signals @ applied @ [f32_of_word (rl_command_epoch s')]
           @ replicate (MAX_STREAM_SOURCES - source_count R P) f32_0\<rparr> (rl_records s))"
proof -
  let ?s = "tick_commands R P t s"
  note ok = tick_commands_ok [OF assms(1), of t]
  have t: "tick_output R P t ?s = Some (s', applied)" using assms(2) by (simp add: run_rt_tick_def)
  obtain rig1 measured p1 where m': "r_measure R (replicate (rl_n_inputs ?s) f32_0) (rl_rig ?s) = (rig1, measured)"
    and r: "rl_records s' = fst (enqueue RECORD_QUEUE_LEN
       \<lparr>re_index = rl_index ?s, re_n = of_nat (rl_n_sources ?s),
        re_values = record_values P p1 (rl_n_inputs ?s) (rl_n_program_signals ?s)
          (copy_at (replicate MAX_STREAM_SOURCES f32_0) 0 measured) applied (rl_command_epoch ?s)\<rparr> (rl_records ?s))"
    by (rule tick_output_pieces [OF t])
  note ml = measured_prefix [OF ok m']
  let ?vals = "copy_at (replicate MAX_STREAM_SOURCES f32_0) 0 measured"
  have len: "length applied = rl_n_actuators s"
    using tick_output_total [OF ok, of t] t by auto
  have n: "rl_n_inputs s + rl_n_program_signals s + length applied + 1 = source_count R P"
    "source_count R P \<le> MAX_STREAM_SOURCES" "rl_n_program_signals s = p_signal_count P" "rl_n_sources s = source_count R P"
    using assms(1) len by (simp_all add: loop_ok_def source_count_def)
  let ?sig = "p_write_signals P p1 (subslice ?vals (rl_n_inputs s) (rl_n_inputs s + rl_n_program_signals s))"
  have vl: "length ?vals = MAX_STREAM_SOURCES" using ml by simp
  have sl: "length ?sig = rl_n_program_signals s" using n signals_length vl by simp
  note lay = record_values_layout [OF vl _ refl sl, of applied "rl_command_epoch ?s"]
  have "record_values P p1 (rl_n_inputs s) (rl_n_program_signals s) ?vals applied (rl_command_epoch ?s)
      = measured @ ?sig @ applied @ [f32_of_word (rl_command_epoch s')]
        @ replicate (MAX_STREAM_SOURCES - source_count R P) f32_0"
    using lay ml(1) n tick_output_frame(2) [OF t] by simp
  then have "rl_records s' = fst (enqueue RECORD_QUEUE_LEN
        \<lparr>re_index = rl_index s, re_n = of_nat (source_count R P),
         re_values = measured @ ?sig @ applied @ [f32_of_word (rl_command_epoch s')]
           @ replicate (MAX_STREAM_SOURCES - source_count R P) f32_0\<rparr> (rl_records s))"
    using r n(4) by simp
  then show ?thesis using ml(1) sl len by (intro exI [of _ measured] exI [of _ ?sig]) simp
qed

end

subsection \<open>A tick performs the abstract output stage\<close>

lemma safety_gate_run:
  assumes "safety_gate R si inputs pf commanded (rig, sh) = ((rig', sh'), applied)"
    and "si = load_inputs (sh_safety sh)"
  shows "\<exists>es fault. safety_run R rig' \<lparr>co_safety = sh_safety sh, co_pc0 = ArmIdle, co_pc1 = TickIdle\<rparr>
      (Load_Armed # Load_Tripped # Decide fault commanded # es)
      \<lparr>co_safety = sh_safety sh', co_pc0 = ArmIdle, co_pc1 = TickIdle\<rparr>
    \<and> (es = [Actuate applied] \<or> es = [Latch, Actuate applied])
    \<and> fault = (snd (r_output_fault R inputs rig) \<or> pf) \<and> rig' = fst (r_output_fault R inputs rig)"
proof -
  obtain rig1 rf where f: "r_output_fault R inputs rig = (rig1, rf)" by (metis surj_pair)
  let ?fault = "rf \<or> pf"
  obtain outcome ap where d: "safety_decide R rig1 si ?fault commanded = (outcome, ap)" by (metis surj_pair)
  have r: "rig' = rig1" "applied = ap"
    "sh_safety sh' = (if so_newly_tripped outcome then latch_trip (sh_safety sh) else sh_safety sh)"
    using assms(1) f d by (auto simp: safety_gate_def Let_def)
  let ?s = "\<lparr>co_safety = sh_safety sh, co_pc0 = ArmIdle, co_pc1 = TickIdle\<rparr>"
  let ?s1 = "?s\<lparr>co_pc1 := ArmedLoaded (si_armed si)\<rparr>" and ?s2 = "?s\<lparr>co_pc1 := InputsLoaded si\<rparr>"
  have 1: "safety_step R rig1 ?s Load_Armed ?s1" using load_armed [of ?s R rig1] assms(2) by simp
  have 2: "safety_step R rig1 ?s1 Load_Tripped ?s2"
    using load_tripped [of ?s1 "si_armed si" R rig1] assms(2) by (simp add: load_inputs_def)
  let ?s3 = "?s\<lparr>co_pc1 := (if so_newly_tripped outcome then MustLatch ap else Ready ap)\<rparr>"
  have 3: "safety_step R rig1 ?s2 (Decide ?fault commanded) ?s3"
    using decide [of ?s2 si R rig1 ?fault commanded outcome ap] d by simp
  let ?e = "\<lparr>co_safety = sh_safety sh', co_pc0 = ArmIdle, co_pc1 = TickIdle\<rparr>"
  show ?thesis
  proof (cases "so_newly_tripped outcome")
    case True
    let ?s4 = "?s\<lparr>co_safety := latch_trip (sh_safety sh), co_pc1 := Ready ap\<rparr>"
    have 4: "safety_step R rig1 ?s3 Latch ?s4" using latch [of ?s3 ap R rig1] True by simp
    have 5: "safety_step R rig1 ?s4 (Actuate ap) ?e" using actuate [of ?s4 ap R rig1] r True by simp
    have "safety_run R rig1 ?s [Load_Armed, Load_Tripped, Decide ?fault commanded, Latch, Actuate ap] ?e"
      by (rule run_cons [OF 1 run_cons [OF 2 run_cons [OF 3 run_cons [OF 4 run_cons [OF 5 run_nil]]]]])
    then show ?thesis using r f by (intro exI [of _ "[Latch, Actuate ap]"] exI [of _ ?fault]) simp
  next
    case False
    have 4: "safety_step R rig1 ?s3 (Actuate ap) ?e" using actuate [of ?s3 ap R rig1] r False by simp
    have "safety_run R rig1 ?s [Load_Armed, Load_Tripped, Decide ?fault commanded, Actuate ap] ?e"
      by (rule run_cons [OF 1 run_cons [OF 2 run_cons [OF 3 run_cons [OF 4 run_nil]]]])
    then show ?thesis using r f by (intro exI [of _ "[Actuate ap]"] exI [of _ ?fault]) simp
  qed
qed

lemma finish_tick_safety [simp]: "sh_safety (finish_tick rate t sh) = sh_safety sh"
  by (simp add: finish_tick_def Let_def)

lemma tick_output_safety:
  assumes "R_SAFETY_GATED R" "tick_output R P t s = Some (s', applied)"
  shows "\<exists>rig fault commanded es.
    safety_run R rig \<lparr>co_safety = sh_safety (w_shared (rl_world s)), co_pc0 = ArmIdle, co_pc1 = TickIdle\<rparr>
      (Load_Armed # Load_Tripped # Decide fault commanded # es)
      \<lparr>co_safety = sh_safety (w_shared (rl_world s')), co_pc0 = ArmIdle, co_pc1 = TickIdle\<rparr>
    \<and> (es = [Actuate applied] \<or> es = [Latch, Actuate applied])"
proof -
  obtain rig1 measured p1 commanded rig2 sh1 d where
    g: "(if R_SAFETY_GATED R
      then safety_gate R (load_inputs (sh_safety (w_shared (rl_world s))))
             (take (rl_n_inputs s) (copy_at (replicate MAX_STREAM_SOURCES f32_0) 0 measured))
             (p_fault P p1) commanded (rig1, w_shared (rl_world s))
      else ((rig1, w_shared (rl_world s)), commanded)) = ((rig2, sh1), applied)"
    and w: "rl_world s' = (rl_world s)\<lparr>w_shared := finish_tick (rl_sample_rate s) t (sh1\<lparr>sh_diagnostics := d\<rparr>)\<rparr>"
    by (rule tick_output_pieces [OF assms(2)])
  have "sh_safety (w_shared (rl_world s')) = sh_safety sh1" by (simp add: w)
  then show ?thesis using safety_gate_run [OF _ refl] g assms(1) by fastforce
qed

subsection \<open>Properties of the loop with the standard programme\<close>

abbreviation pid_program :: "nat \<Rightarrow> PidController StandardProgram Program" where
  "pid_program F \<equiv> StandardProgramOf (PidControl F)"

abbreviation pid_loop_ok :: "'r Rig \<Rightarrow> nat \<Rightarrow> ('r, PidController StandardProgram) RtLoopState \<Rightarrow> bool" where
  "pid_loop_ok R F \<equiv> loop_ok R (pid_program F) (\<lambda>p. pid_limits_ok (sp_controller p))"

lemma pid_rt_node:
  assumes "\<And>vs rig. length (snd (r_measure R vs rig)) = length vs"
  shows "rt_node (pid_program F) (\<lambda>p. pid_limits_ok (sp_controller p)) R"
  using pidc.std.lawful_program_axioms assms by (intro rt_node.intro rt_node_axioms.intro) auto

interpretation vector_node: rt_node "pid_program F" "\<lambda>p. pid_limits_ok (sp_controller p)" vector_rig for F
  by (rule pid_rt_node) (simp add: vector_rig_def)


text \<open>A loop at its start, on a one-input, one-actuator gated rig, with three commands queued.\<close>

definition demo_rig :: "unit Rig" where
  "demo_rig = vector_rig\<lparr>R_INPUTS := [(as_bytes ''x'', as_bytes ''V'')],
     R_ACTUATORS := [(as_bytes ''out'', as_bytes ''V'')]\<rparr>"

definition demo_loop :: "(unit, PidController StandardProgram) RtLoopState" where
  "demo_loop = the (run_rt_loop demo_rig (pid_program 0) (\<lambda>_. f32_0) () example_program example_world Hz1000
     (replicate 3 \<lparr>rc_domain = DOMAIN_TABLE, rc_id = TBL_TRIGGER, rc_payload = PUnit\<rparr>) [])"

definition demo_times :: TickTimes where
  "demo_times = \<lparr>tt_t0 = 0, tt_m0 = 1, tt_m1 = 5, tt_a0 = 7, tt_a1 = 9, tt_end = 12\<rparr>"

lemma demo_measure: "length (snd (r_measure demo_rig vs rig)) = length vs"
  by (simp add: demo_rig_def vector_rig_def)

lemma demo_shape: "source_count demo_rig (pid_program 0) = 8" "P_OUTPUTS (pid_program 0) = 1"
  "length (R_ACTUATORS demo_rig) = 1" "length (R_INPUTS demo_rig) = 1" "P_INPUTS_REQUIRED (pid_program 0) = 1"
  "standard_signal_count (PidControl 0) = 5"
  by (simp_all add: demo_rig_def vector_rig_def StandardProgramOf_def standard_signal_count_def PidControl_def
      standard_signals_def source_count_def)

lemma demo_started: "run_rt_loop demo_rig (pid_program 0) (\<lambda>_. f32_0) () example_program example_world Hz1000
     (replicate 3 \<lparr>rc_domain = DOMAIN_TABLE, rc_id = TBL_TRIGGER, rc_payload = PUnit\<rparr>) [] = Some demo_loop"
  by (simp add: demo_loop_def run_rt_loop_def demo_shape MAX_STREAM_SOURCES_def MAX_ACTUATORS_def)

lemma demo_ok: "pid_loop_ok demo_rig 0 demo_loop"
  by (rule run_rt_loop_ok [OF demo_started]) (rule example_program_limits)

lemma demo_queue: "length (rl_commands demo_loop) = 3" "rl_records demo_loop = []"
  "unat (rl_command_epoch demo_loop) = 0" "sf_armed (sh_safety (w_shared (rl_world demo_loop))) = 0"
  by (simp_all add: demo_loop_def run_rt_loop_def demo_shape MAX_STREAM_SOURCES_def MAX_ACTUATORS_def
      example_world_def shared_new_def safety_new_def)

lemma demo_tick:
  "\<exists>s' applied. run_rt_tick demo_rig (pid_program 0) demo_times demo_loop = Some (s', applied)"
  using rt_node.run_rt_tick_total [OF pid_rt_node [OF demo_measure] demo_ok] by blast




lemma standard_apply_safety:
  "sh_safety (w_shared (fst (standard_apply C domain ident payload (w, p)))) = sh_safety (w_shared w)"
  by (auto simp: standard_apply_def standard_apply_generator_def standard_apply_table_def Let_def
      split: Payload.splits prod.splits)

lemma fold_apply_safety:
  "sh_safety (w_shared (fst (snd (fold (apply_command R (StandardProgramOf C)) cs (rig, w, p)))))
     = sh_safety (w_shared w)"
proof (induction cs arbitrary: rig w p)
  case Nil
  then show ?case by simp
next
  case (Cons c cs)
  obtain rig1 w1 p1 where a: "apply_command R (StandardProgramOf C) c (rig, w, p) = (rig1, w1, p1)"
    by (metis surj_pair)
  have "sh_safety (w_shared w1) = sh_safety (w_shared w)"
    using a standard_apply_safety [of C "rc_domain c" "rc_id c" "rc_payload c" w p]
    by (auto simp: apply_command_def StandardProgramOf_def split: if_splits Payload.splits)
  with Cons.IH [of rig1 w1 p1] a show ?case by simp
qed

lemma tick_commands_safety:
  "sh_safety (w_shared (rl_world (tick_commands R (StandardProgramOf C) t s))) = sh_safety (w_shared (rl_world s))"
  using tick_commands_effect(3) [where R = R and P = "StandardProgramOf C" and t = t and s = s]
    fold_apply_safety [of R C "take COMMANDS_PER_TICK (rl_commands s)" "r_tick_start R (rl_rig s)" _ "rl_program s"]
  by (metis fst_conv snd_conv)



end
