(* ===== verification/Proto_Stream.thy ===== *)
theory Proto_Stream
  imports Proto_Payload
begin

text \<open>
  The fixed-layout messages of \<open>helic-proto\<close>: the UDP stream packet header (\<open>stream.rs\<close>), the
  discovery beacon (\<open>beacon.rs\<close>) and the broker extension (\<open>broker.rs\<close>). The locale \<open>wire_codec\<close>
  states what a pair of encoder and decoder promises; each message interprets it.
\<close>

subsection \<open>What a codec promises\<close>

locale wire_codec =
  fixes enc :: "'a \<Rightarrow> bytes" and dec :: "bytes \<Rightarrow> 'a option" and valid :: "'a \<Rightarrow> bool"
  assumes roundtrip: "valid x \<Longrightarrow> dec (enc x) = Some x"
    and sound: "dec bs = Some x \<Longrightarrow> valid x \<and> take (length (enc x)) bs = enc x"
begin

lemma enc_inject: "valid x \<Longrightarrow> valid y \<Longrightarrow> enc x = enc y \<longleftrightarrow> x = y"
  using roundtrip by (metis option.inject)

lemma dec_image: "(\<exists>bs. dec bs = Some x) \<longleftrightarrow> valid x"
  using roundtrip sound by metis

lemma dec_reencode: "dec bs = Some x \<Longrightarrow> dec (enc x) = Some x"
  using roundtrip sound by metis

end

subsection \<open>Stream packet header (stream.rs)\<close>

definition STREAM_HEADER_LEN :: nat where "STREAM_HEADER_LEN = 20"

record StreamHeader =
  sh_n_sources :: u8
  sh_seq :: u32
  sh_first_index :: u32
  sh_dropped :: u32
  sh_decimation :: u16
  sh_n_records :: u16

definition stream_header_encode :: "StreamHeader \<Rightarrow> bytes \<Rightarrow> bytes" where
  "stream_header_encode h buf =
     (let b0 = copy_at buf 0 (u16_to_le MAGIC);
          b1 = b0[2 := VERSION];
          b2 = b1[3 := sh_n_sources h];
          b3 = copy_at b2 4 (u32_to_le (sh_seq h));
          b4 = copy_at b3 8 (u32_to_le (sh_first_index h));
          b5 = copy_at b4 12 (u32_to_le (sh_dropped h));
          b6 = copy_at b5 16 (u16_to_le (sh_decimation h))
      in copy_at b6 18 (u16_to_le (sh_n_records h)))"

definition stream_header_decode :: "bytes \<Rightarrow> StreamHeader option" where
  "stream_header_decode buf =
     (if length buf < STREAM_HEADER_LEN \<or> subslice buf 0 2 \<noteq> u16_to_le MAGIC \<or> buf ! 2 \<noteq> VERSION
      then None
      else Some \<lparr>sh_n_sources = buf ! 3,
                 sh_seq = u32_from_le (buf ! 4) (buf ! 5) (buf ! 6) (buf ! 7),
                 sh_first_index = u32_from_le (buf ! 8) (buf ! 9) (buf ! 10) (buf ! 11),
                 sh_dropped = u32_from_le (buf ! 12) (buf ! 13) (buf ! 14) (buf ! 15),
                 sh_decimation = u16_from_le (buf ! 16) (buf ! 17),
                 sh_n_records = u16_from_le (buf ! 18) (buf ! 19)\<rparr>)"

subsection \<open>Discovery beacon (beacon.rs)\<close>

definition REQUEST :: bytes where "REQUEST = [ucast MAGIC, ucast (drop_bit 8 MAGIC), 0x01]"
definition RESPONSE_LEN :: nat where "RESPONSE_LEN = 44"

datatype BeaconError = BeaconBadLength | BeaconBadMagic | BeaconBadKind

record BeaconResponse =
  br_version :: u8
  br_control_port :: u16
  br_mac :: bytes
  br_experiment :: bytes
  br_firmware :: bytes

definition fixed_string :: "bytes \<Rightarrow> bytes" where
  "fixed_string value =
     (let out = replicate 16 0; len = min (length value) (length out)
      in copy_at out 0 (take len value))"

definition beacon_new :: "bytes \<Rightarrow> bytes \<Rightarrow> bytes \<Rightarrow> BeaconResponse" where
  "beacon_new mac experiment firmware =
     \<lparr>br_version = VERSION, br_control_port = CONTROL_PORT, br_mac = mac,
      br_experiment = fixed_string experiment, br_firmware = fixed_string firmware\<rparr>"

definition beacon_encode :: "BeaconResponse \<Rightarrow> bytes \<Rightarrow> bytes" where
  "beacon_encode r out =
     (let o0 = copy_at out 0 (u16_to_le MAGIC);
          o1 = o0[2 := 0x02];
          o2 = o1[3 := br_version r];
          o3 = copy_at o2 4 (u16_to_le (br_control_port r));
          o4 = copy_at o3 6 (br_mac r);
          o5 = copy_at o4 12 (br_experiment r)
      in copy_at o5 28 (br_firmware r))"

definition beacon_decode :: "bytes \<Rightarrow> BeaconError + BeaconResponse" where
  "beacon_decode input =
     (if length input \<noteq> RESPONSE_LEN then Inl BeaconBadLength
      else if u16_from_le (input ! 0) (input ! 1) \<noteq> MAGIC then Inl BeaconBadMagic
      else if input ! 2 \<noteq> 0x02 then Inl BeaconBadKind
      else Inr \<lparr>br_version = input ! 3,
                br_control_port = u16_from_le (input ! 4) (input ! 5),
                br_mac = subslice input 6 12,
                br_experiment = subslice input 12 28,
                br_firmware = subslice input 28 44\<rparr>)"

subsection \<open>Broker extension (broker.rs)\<close>

definition EXTENSION_VERSION :: u8 where "EXTENSION_VERSION = 1"
definition BROKER_INFO :: u8 where "BROKER_INFO = 0x80"
definition QUIET_STREAM_START :: u8 where "QUIET_STREAM_START = 0x81"
definition GET_RECENT :: u8 where "GET_RECENT = 0x82"
definition SET_CLIENT_QUIET :: u8 where "SET_CLIENT_QUIET = 0x83"

definition CAP_QUIET_START :: u16 where "CAP_QUIET_START = push_bit 0 1"
definition CAP_RECENT :: u16 where "CAP_RECENT = push_bit 1 1"
definition CAP_SET_QUIET :: u16 where "CAP_SET_QUIET = push_bit 2 1"
definition CAP_SHARED_CONFIG :: u16 where "CAP_SHARED_CONFIG = push_bit 3 1"
definition CAPABILITIES :: u16 where
  "CAPABILITIES = CAP_QUIET_START OR CAP_RECENT OR CAP_SET_QUIET OR CAP_SHARED_CONFIG"

definition STATE_UPSTREAM_CONNECTED :: u8 where "STATE_UPSTREAM_CONNECTED = push_bit 0 1"
definition STATE_CONFIGURED :: u8 where "STATE_CONFIGURED = push_bit 1 1"
definition STATE_RUNNING :: u8 where "STATE_RUNNING = push_bit 2 1"
definition STATE_CLIENT_ATTACHED :: u8 where "STATE_CLIENT_ATTACHED = push_bit 3 1"
definition STATE_CLIENT_QUIET :: u8 where "STATE_CLIENT_QUIET = push_bit 4 1"
definition STATE_TABLE_TRANSACTION :: u8 where "STATE_TABLE_TRANSACTION = push_bit 5 1"

definition INFO_HEADER_LEN :: nat where "INFO_HEADER_LEN = 21"
definition MAX_SOURCES :: nat where "MAX_SOURCES = 24"

datatype BrokerError = NotAttached | NotQuiet | NoActiveStream | InsufficientHistory

fun broker_error_u8 :: "BrokerError \<Rightarrow> u8" where
  "broker_error_u8 NotAttached = 8"
| "broker_error_u8 NotQuiet = 9"
| "broker_error_u8 NoActiveStream = 10"
| "broker_error_u8 InsufficientHistory = 11"

datatype BrokerPayloadError = BrokerBadLength | BrokerBadValue

record BrokerInfo =
  bi_state :: u8
  bi_capabilities :: u16
  bi_history_capacity_ms :: u32
  bi_history_available_records :: u32
  bi_decimation :: u16
  bi_count :: u32
  bi_connected_clients :: u16
  bi_n_sources :: u8
  bi_sources :: bytes

definition broker_info_encode :: "BrokerInfo \<Rightarrow> bytes \<Rightarrow> BrokerPayloadError + (bytes \<times> nat)" where
  "broker_info_encode info out =
     (let n_sources = unat (bi_n_sources info)
      in if n_sources > MAX_SOURCES \<or> length out < INFO_HEADER_LEN + n_sources
         then Inl BrokerBadLength
         else
           let o0 = out[0 := EXTENSION_VERSION];
               o1 = o0[1 := bi_state info];
               o2 = copy_at o1 2 (u16_to_le (bi_capabilities info));
               o3 = copy_at o2 4 (u32_to_le (bi_history_capacity_ms info));
               o4 = copy_at o3 8 (u32_to_le (bi_history_available_records info));
               o5 = copy_at o4 12 (u16_to_le (bi_decimation info));
               o6 = copy_at o5 14 (u32_to_le (bi_count info));
               o7 = copy_at o6 18 (u16_to_le (bi_connected_clients info));
               o8 = o7[20 := bi_n_sources info];
               o9 = copy_at o8 INFO_HEADER_LEN (take n_sources (bi_sources info))
           in Inr (o9, INFO_HEADER_LEN + n_sources))"

definition broker_info_decode :: "bytes \<Rightarrow> BrokerPayloadError + BrokerInfo" where
  "broker_info_decode payload =
     (if length payload < INFO_HEADER_LEN \<or> payload ! 0 \<noteq> EXTENSION_VERSION then Inl BrokerBadLength
      else
        let n_sources = unat (payload ! 20)
        in if n_sources > MAX_SOURCES \<or> length payload \<noteq> INFO_HEADER_LEN + n_sources
           then Inl BrokerBadLength
           else Inr \<lparr>bi_state = payload ! 1,
             bi_capabilities = u16_from_le (payload ! 2) (payload ! 3),
             bi_history_capacity_ms =
               u32_from_le (payload ! 4) (payload ! 5) (payload ! 6) (payload ! 7),
             bi_history_available_records =
               u32_from_le (payload ! 8) (payload ! 9) (payload ! 10) (payload ! 11),
             bi_decimation = u16_from_le (payload ! 12) (payload ! 13),
             bi_count = u32_from_le (payload ! 14) (payload ! 15) (payload ! 16) (payload ! 17),
             bi_connected_clients = u16_from_le (payload ! 18) (payload ! 19),
             bi_n_sources = of_nat n_sources,
             bi_sources = copy_at (replicate MAX_SOURCES 0) 0 (drop INFO_HEADER_LEN payload)\<rparr>)"

subsection \<open>Layouts as byte strings, and the codec laws\<close>

lemmas stream_consts = STREAM_HEADER_LEN_def RESPONSE_LEN_def INFO_HEADER_LEN_def MAX_SOURCES_def

definition stream_header_bytes :: "StreamHeader \<Rightarrow> bytes" where
  "stream_header_bytes h = u16_to_le MAGIC @ [VERSION, sh_n_sources h] @ u32_to_le (sh_seq h)
     @ u32_to_le (sh_first_index h) @ u32_to_le (sh_dropped h) @ u16_to_le (sh_decimation h)
     @ u16_to_le (sh_n_records h)"

definition beacon_bytes :: "BeaconResponse \<Rightarrow> bytes" where
  "beacon_bytes r = u16_to_le MAGIC @ [0x02, br_version r] @ u16_to_le (br_control_port r)
     @ br_mac r @ br_experiment r @ br_firmware r"

fun beacon_valid :: "BeaconResponse \<Rightarrow> bool" where
  "beacon_valid r \<longleftrightarrow> length (br_mac r) = 6 \<and> length (br_experiment r) = 16 \<and> length (br_firmware r) = 16"

definition broker_info_bytes :: "BrokerInfo \<Rightarrow> bytes" where
  "broker_info_bytes i = [EXTENSION_VERSION, bi_state i] @ u16_to_le (bi_capabilities i)
     @ u32_to_le (bi_history_capacity_ms i) @ u32_to_le (bi_history_available_records i)
     @ u16_to_le (bi_decimation i) @ u32_to_le (bi_count i) @ u16_to_le (bi_connected_clients i)
     @ [bi_n_sources i] @ take (unat (bi_n_sources i)) (bi_sources i)"

text \<open>The unused tail of the fixed source array is zero in every decoded or broker-built value.\<close>

fun broker_info_valid :: "BrokerInfo \<Rightarrow> bool" where
  "broker_info_valid i \<longleftrightarrow> length (bi_sources i) = MAX_SOURCES
     \<and> unat (bi_n_sources i) \<le> MAX_SOURCES
     \<and> drop (unat (bi_n_sources i)) (bi_sources i) = replicate (MAX_SOURCES - unat (bi_n_sources i)) 0"

lemma stream_header_encode_bytes:
  assumes "STREAM_HEADER_LEN \<le> length buf"
  shows "stream_header_encode h buf = copy_at buf 0 (stream_header_bytes h)"
  using assms
  by (simp add: stream_header_encode_def Let_def copy_at_extend update_copy_at_extend
      stream_header_bytes_def stream_consts)

lemma beacon_encode_bytes:
  assumes "length out = RESPONSE_LEN" "beacon_valid r"
  shows "beacon_encode r out = beacon_bytes r"
proof -
  have "beacon_encode r out = copy_at out 0 (beacon_bytes r)"
    using assms
    by (simp add: beacon_encode_def Let_def copy_at_extend update_copy_at_extend
        beacon_bytes_def stream_consts)
  also have "\<dots> = beacon_bytes r"
    using assms by (simp add: copy_at_def beacon_bytes_def stream_consts)
  finally show ?thesis .
qed

lemma broker_info_encode_bytes:
  assumes "broker_info_valid i" "INFO_HEADER_LEN + unat (bi_n_sources i) \<le> length out"
  shows "broker_info_encode i out =
    Inr (copy_at out 0 (broker_info_bytes i), INFO_HEADER_LEN + unat (bi_n_sources i))"
proof -
  have "0 < length out" using assms(2) by (cases out) (simp_all add: stream_consts)
  then show ?thesis using assms
    by (simp add: broker_info_encode_def Let_def copy_at_extend update_copy_at_extend
      update_0_copy_at broker_info_bytes_def stream_consts)
qed

lemma stream_header_decode_bytes:
  "stream_header_decode (stream_header_bytes h @ rest) = Some h"
  by (simp add: stream_header_decode_def stream_header_bytes_def stream_consts subslice_def
      u16_to_le_def u32_to_le_def)

lemma stream_header_decode_sound:
  assumes "stream_header_decode bs = Some h"
  shows "take STREAM_HEADER_LEN bs = stream_header_bytes h"
  using assms
  by (auto simp: stream_header_decode_def stream_header_bytes_def stream_consts
      take_conv_map_nth subslice_conv_map_nth upt_eval split: if_splits)

interpretation stream_codec: wire_codec stream_header_bytes stream_header_decode "\<lambda>_. True"
proof
  show "stream_header_decode (stream_header_bytes h) = Some h" for h
    using stream_header_decode_bytes [of h "[]"] by simp
  show "True \<and> take (length (stream_header_bytes h)) bs = stream_header_bytes h"
    if "stream_header_decode bs = Some h" for bs h
    using stream_header_decode_sound [OF that]
    by (simp add: stream_header_bytes_def stream_consts)
qed

lemma length_stream_header_bytes [simp]: "length (stream_header_bytes h) = 20"
  by (simp add: stream_header_bytes_def)

lemma length_beacon_bytes [simp]: "beacon_valid r \<Longrightarrow> length (beacon_bytes r) = 44"
  by (simp add: beacon_bytes_def)

lemma length_broker_info_bytes [simp]:
  "broker_info_valid i \<Longrightarrow> length (broker_info_bytes i) = INFO_HEADER_LEN + unat (bi_n_sources i)"
  by (simp add: broker_info_bytes_def stream_consts)

lemma beacon_decode_bytes:
  assumes "beacon_valid r"
  shows "beacon_decode (beacon_bytes r) = Inr r"
proof -
  have split: "beacon_bytes r = (u16_to_le MAGIC @ [0x02, br_version r] @ u16_to_le (br_control_port r))
      @ br_mac r @ (br_experiment r @ br_firmware r)"
    by (simp add: beacon_bytes_def)
  have "subslice (beacon_bytes r) 6 12 = br_mac r"
    unfolding split using assms by (intro subslice_append) simp_all
  moreover have "subslice (beacon_bytes r) 12 28 = br_experiment r"
    using assms subslice_append [of 12 "take 12 (beacon_bytes r)" 28 "br_experiment r" "br_firmware r"]
    by (simp add: beacon_bytes_def u16_to_le_def)
  moreover have "subslice (beacon_bytes r) 28 44 = br_firmware r"
    using assms by (simp add: beacon_bytes_def u16_to_le_def subslice_def)
  ultimately show ?thesis using assms
    by (simp add: beacon_decode_def stream_consts)
      (simp add: beacon_bytes_def u16_to_le_def)
qed

lemma beacon_decode_sound:
  assumes "beacon_decode bs = Inr r"
  shows "beacon_valid r" "bs = beacon_bytes r"
proof -
  have d: "length bs = 44" "u16_from_le (bs ! 0) (bs ! 1) = MAGIC" "bs ! 2 = 2"
    "r = \<lparr>br_version = bs ! 3, br_control_port = u16_from_le (bs ! 4) (bs ! 5),
          br_mac = subslice bs 6 12, br_experiment = subslice bs 12 28,
          br_firmware = subslice bs 28 44\<rparr>"
    using assms by (auto simp: beacon_decode_def stream_consts split: if_splits)
  then show "beacon_valid r" by simp
  have "bs = subslice bs 0 44" using d(1) subslice_all [of bs] by simp
  also have "\<dots> = subslice bs 0 6 @ subslice bs 6 12 @ subslice bs 12 28 @ subslice bs 28 44"
    using subslice_split [of 0 6 44 bs] subslice_split [of 6 12 44 bs] subslice_split [of 12 28 44 bs]
    by simp
  also have "subslice bs 0 6 = u16_to_le MAGIC @ [2, bs ! 3, bs ! 4, bs ! 5]"
    using d(1,3) by (simp add: d(2) [symmetric] subslice_conv_map_nth upt_eval)
  finally show "bs = beacon_bytes r" by (simp add: beacon_bytes_def d(4))
qed

interpretation beacon_codec: wire_codec beacon_bytes "\<lambda>bs. result_ok (beacon_decode bs)" beacon_valid
proof
  show "result_ok (beacon_decode (beacon_bytes r)) = Some r" if "beacon_valid r" for r
    using beacon_decode_bytes [OF that] by simp
  show "beacon_valid r \<and> take (length (beacon_bytes r)) bs = beacon_bytes r"
    if "result_ok (beacon_decode bs) = Some r" for bs r
    using that beacon_decode_sound [of bs r] by (cases "beacon_decode bs") auto
qed

lemma broker_info_decode_bytes:
  assumes "broker_info_valid i"
  shows "broker_info_decode (broker_info_bytes i) = Inr i"
proof -
  let ?n = "unat (bi_n_sources i)"
  have n: "?n \<le> 24" using assms by (simp add: stream_consts)
  have nth: "broker_info_bytes i ! 20 = bi_n_sources i"
    by (simp add: broker_info_bytes_def u16_to_le_def u32_to_le_def)
  have "drop 21 (broker_info_bytes i) = take ?n (bi_sources i)"
    by (simp add: broker_info_bytes_def u16_to_le_def u32_to_le_def)
  moreover have "copy_at (replicate 24 0) 0 (take ?n (bi_sources i)) = bi_sources i"
  proof -
    have "copy_at (replicate 24 0) 0 (take ?n (bi_sources i))
        = take ?n (bi_sources i) @ drop ?n (bi_sources i)"
      using assms n by (simp add: copy_at_def stream_consts)
    then show ?thesis by simp
  qed
  ultimately show ?thesis using assms n nth
    by (simp add: broker_info_decode_def Let_def stream_consts)
      (simp add: broker_info_bytes_def u16_to_le_def u32_to_le_def)
qed

lemma broker_info_decode_sound:
  assumes "broker_info_decode bs = Inr i"
  shows "broker_info_valid i" "bs = broker_info_bytes i"
proof -
  define n where "n = unat (bs ! 20)"
  have d: "bs ! 0 = EXTENSION_VERSION" "n \<le> 24" "length bs = 21 + n"
    "bi_n_sources i = of_nat n" "bi_sources i = copy_at (replicate 24 0) 0 (drop 21 bs)"
    "bi_state i = bs ! 1" "u16_to_le (bi_capabilities i) = [bs ! 2, bs ! 3]"
    "u32_to_le (bi_history_capacity_ms i) = [bs ! 4, bs ! 5, bs ! 6, bs ! 7]"
    "u32_to_le (bi_history_available_records i) = [bs ! 8, bs ! 9, bs ! 10, bs ! 11]"
    "u16_to_le (bi_decimation i) = [bs ! 12, bs ! 13]"
    "u32_to_le (bi_count i) = [bs ! 14, bs ! 15, bs ! 16, bs ! 17]"
    "u16_to_le (bi_connected_clients i) = [bs ! 18, bs ! 19]"
    using assms by (auto simp: broker_info_decode_def Let_def stream_consts n_def split: if_splits)
  have un: "unat (bi_n_sources i) = n" and b20: "bi_n_sources i = bs ! 20"
    using d(4) by (simp_all add: n_def)
  have src: "take n (bi_sources i) = drop 21 bs" "drop n (bi_sources i) = replicate (24 - n) 0"
    using d(2,3,5) by (simp_all add: copy_at_def)
  show "broker_info_valid i" using d(2,3,5) src un by (simp add: stream_consts)
  have "bs = subslice bs 0 21 @ drop 21 bs" by (simp add: subslice_def)
  also have "subslice bs 0 21 = map ((!) bs) [0..<21]"
    using d(3) by (simp add: subslice_conv_map_nth)
  finally show "bs = broker_info_bytes i"
    unfolding broker_info_bytes_def un using d b20 src(1) by (simp add: upt_eval)
qed

interpretation info_codec:
  wire_codec broker_info_bytes "\<lambda>bs. result_ok (broker_info_decode bs)" broker_info_valid
proof
  show "result_ok (broker_info_decode (broker_info_bytes r)) = Some r" if "broker_info_valid r" for r
    using broker_info_decode_bytes [OF that] by simp
  show "broker_info_valid r \<and> take (length (broker_info_bytes r)) bs = broker_info_bytes r"
    if "result_ok (broker_info_decode bs) = Some r" for bs r
    using that broker_info_decode_sound [of bs r] by (cases "broker_info_decode bs") auto
qed

interpretation frame_codec:
  wire_codec "\<lambda>(ty, seq, pl). frame_bytes ty seq pl" "\<lambda>bs. result_ok (decode bs)"
    "\<lambda>(ty, seq, pl). length pl \<le> MAX_PAYLOAD"
proof
  show "result_ok (decode (case m of (ty, seq, pl) \<Rightarrow> frame_bytes ty seq pl)) = Some m"
    if "case m of (ty, seq, pl) \<Rightarrow> length pl \<le> MAX_PAYLOAD" for m
    using that decode_frame_bytes by (auto split: prod.splits)
  show "(case m of (ty, seq, pl) \<Rightarrow> length pl \<le> MAX_PAYLOAD) \<and>
      take (length (case m of (ty, seq, pl) \<Rightarrow> frame_bytes ty seq pl)) bs =
      (case m of (ty, seq, pl) \<Rightarrow> frame_bytes ty seq pl)"
    if "result_ok (decode bs) = Some m" for bs m
    using that decode_sound [of bs] by (auto split: prod.splits)
qed

subsection \<open>Properties of the fixed-layout messages\<close>

text \<open>
  A stream header written into any buffer of at least \<open>STREAM_HEADER_LEN\<close> bytes decodes back to
  every one of its fields and leaves the payload area after it untouched, and no other header has
  the same bytes.
\<close>

theorem stream_header_roundtrip:
  assumes "STREAM_HEADER_LEN \<le> length buf"
  shows "stream_header_decode (stream_header_encode h buf) = Some h
    \<and> drop STREAM_HEADER_LEN (stream_header_encode h buf) = drop STREAM_HEADER_LEN buf
    \<and> (stream_header_encode h buf = stream_header_encode h' buf \<longleftrightarrow> h = h')"
proof -
  have e: "stream_header_encode k buf = stream_header_bytes k @ drop 20 buf" for k
    using stream_header_encode_bytes [OF assms, of k] by (simp add: copy_at_def)
  then show ?thesis using stream_header_decode_bytes stream_codec.enc_inject
    by (simp add: stream_consts)
qed

theorem stream_header_roundtrip_witness:
  "stream_header_decode (stream_header_encode
      \<lparr>sh_n_sources = 3, sh_seq = 9, sh_first_index = 70000, sh_dropped = 1, sh_decimation = 2,
       sh_n_records = 5\<rparr> (replicate 24 7))
    = Some \<lparr>sh_n_sources = 3, sh_seq = 9, sh_first_index = 70000, sh_dropped = 1, sh_decimation = 2,
       sh_n_records = 5\<rparr>"
  using stream_header_roundtrip [of "replicate 24 7"] by (simp add: stream_consts)

text \<open>
  The discovery response built for a device decodes to the same device on the host, with both
  names cut or zero-padded to sixteen bytes, and \<open>decode\<close> accepts exactly the 44-byte images of
  responses with arrays of the declared sizes.
\<close>

theorem beacon_roundtrip:
  assumes "length mac = 6" "length out = RESPONSE_LEN"
  shows "beacon_decode (beacon_encode (beacon_new mac ex fw) out) = Inr (beacon_new mac ex fw)
    \<and> take (min 16 (length ex)) (br_experiment (beacon_new mac ex fw)) = take 16 ex
    \<and> (beacon_decode bs = Inr r \<longleftrightarrow> beacon_valid r \<and> bs = beacon_bytes r)"
proof -
  have len: "length (fixed_string x) = 16" for x by (simp add: fixed_string_def Let_def)
  then have v: "beacon_valid (beacon_new mac ex fw)" using assms(1) by (simp add: beacon_new_def)
  have "take (min 16 (length ex)) (fixed_string ex) = take 16 ex"
    by (simp add: fixed_string_def Let_def copy_at_def min_def)
  then show ?thesis
    using beacon_encode_bytes [OF assms(2) v] beacon_decode_bytes beacon_decode_sound v
    by (auto simp: beacon_new_def)
qed

theorem beacon_roundtrip_witness:
  "beacon_decode (beacon_encode (beacon_new [1,2,3,4,5,6] (as_bytes ''rig'') (as_bytes ''0.1'')) (replicate 44 0))
    = Inr (beacon_new [1,2,3,4,5,6] (as_bytes ''rig'') (as_bytes ''0.1''))"
  using beacon_roundtrip [of "[1,2,3,4,5,6]" "replicate 44 0" "as_bytes ''rig''" "as_bytes ''0.1''"]
  by (simp add: stream_consts)

text \<open>
  The broker status payload round-trips: for a value with at most \<open>MAX_SOURCES\<close> sources and a
  zeroed array tail, \<open>encode\<close> succeeds in every buffer large enough, and \<open>decode\<close> of the written
  bytes is that value; nothing but such images is accepted.
\<close>

theorem broker_info_roundtrip:
  assumes "broker_info_valid i" "INFO_HEADER_LEN + unat (bi_n_sources i) \<le> length out"
  shows "\<exists>out' n. broker_info_encode i out = Inr (out', n) \<and> broker_info_decode (take n out') = Inr i
    \<and> drop n out' = drop n out
    \<and> (broker_info_decode bs = Inr j \<longleftrightarrow> broker_info_valid j \<and> bs = broker_info_bytes j)"
proof -
  have "take (INFO_HEADER_LEN + unat (bi_n_sources i)) (copy_at out 0 (broker_info_bytes i))
      = broker_info_bytes i"
    using take_copy_at_0 [of "broker_info_bytes i" out] assms(1) by simp
  then show ?thesis
    using broker_info_encode_bytes [OF assms] broker_info_decode_bytes broker_info_decode_sound assms(1)
    by (auto simp: copy_at_def)
qed

definition sample_info :: BrokerInfo where
  "sample_info = \<lparr>bi_state = 7, bi_capabilities = 15, bi_history_capacity_ms = 10000,
     bi_history_available_records = 42, bi_decimation = 4, bi_count = 0, bi_connected_clients = 2,
     bi_n_sources = 3, bi_sources = [0, 8, 12] @ replicate 21 0\<rparr>"

theorem broker_info_roundtrip_witness:
  "\<exists>out' n. broker_info_encode sample_info (replicate 45 0) = Inr (out', n)
    \<and> broker_info_decode (take n out') = Inr sample_info"
proof -
  have "broker_info_valid sample_info"
    "INFO_HEADER_LEN + unat (bi_n_sources sample_info) \<le> length (replicate 45 (0 :: u8))"
    by (simp_all add: stream_consts sample_info_def)
  from broker_info_roundtrip [OF this] show ?thesis by blast
qed

end
