(* ===== verification/Comms_Control.thy ===== *)
theory Comms_Control
  imports Rt_Store Rt_Loop Proto_Stream
begin

text \<open>
  The control server of \<open>firmware/support/src/comms/tcp.rs\<close> with the stream session state of
  \<open>comms/mod.rs\<close>. The socket is the bytes the peer still sends and the address it connected from; the
  clock, the outcome of the ROM reboot call and what core 1 does while the server waits are arguments.
  A panic is \<open>None\<close>. Each request is served between two awaits, so a request is one step.
\<close>

subsection \<open>Session state (comms/mod.rs)\<close>

record StreamState =
  ss_target :: "(u32 \<times> u16) option"
  ss_enabled :: bool
  ss_sources :: "u8 list"
  ss_decimation :: u16
  ss_count :: u32
  ss_generation :: u32
  ss_control_connected :: bool

definition stream_initial :: StreamState where
  "stream_initial = \<lparr>ss_target = None, ss_enabled = False, ss_sources = [], ss_decimation = 1, ss_count = 0,
     ss_generation = 0, ss_control_connected = False\<rparr>"

definition stream_setup :: "bytes \<Rightarrow> u16 \<Rightarrow> u32 \<Rightarrow> StreamState \<Rightarrow> StreamState \<times> (ErrorCode + unit)" where
  "stream_setup sources decimation count s =
     (if ss_enabled s then (s, Inl Busy)
      else if length sources > MAX_STREAM_SOURCES then (s\<lparr>ss_sources := []\<rparr>, Inl BadValue)
      else (s\<lparr>ss_sources := sources, ss_decimation := decimation, ss_count := count\<rparr>, Inr ()))"

definition stream_start :: "u32 \<Rightarrow> u16 \<Rightarrow> StreamState \<Rightarrow> StreamState \<times> (ErrorCode + unit)" where
  "stream_start addr port s =
     (if ss_sources s = [] then (s, Inl BadValue)
      else (s\<lparr>ss_target := Some (addr, port), ss_enabled := True, ss_generation := ss_generation s + 1\<rparr>, Inr ()))"

definition stream_stop :: "StreamState \<Rightarrow> StreamState" where
  "stream_stop s = s\<lparr>ss_enabled := False\<rparr>"

definition stream_connected :: "StreamState \<Rightarrow> StreamState" where
  "stream_connected s = s\<lparr>ss_control_connected := True\<rparr>"

definition stream_disconnected :: "StreamState \<Rightarrow> StreamState" where
  "stream_disconnected s = s\<lparr>ss_enabled := False, ss_control_connected := False\<rparr>"

subsection \<open>Dispatch of one request\<close>

text \<open>What \<open>handle\<close> can change: shared memory, the parameter store, the session and the response buffer.\<close>

record control =
  cl_world :: world
  cl_store :: ParamStore
  cl_stream :: StreamState
  cl_resp :: bytes

definition page_entry :: "ParamStore \<Rightarrow> u16 \<Rightarrow> param_entry option" where
  "page_entry s index =
     map_option (\<lambda>d. (pd_name d, pd_ty d, pd_count d, pd_writable d)) (Option.bind (store_def s (unat index)) (\<lambda>d. d))"

definition page_error :: "PayloadError \<Rightarrow> ErrorCode" where
  "page_error e = (if e = InvalidIndex then BadIndex else BadLength)"

definition handle_get_params :: "bytes \<Rightarrow> ParamStore \<Rightarrow> bytes \<Rightarrow> (bytes \<times> (ErrorCode + nat)) option" where
  "handle_get_params payload s resp =
     (case decode_param_page_request payload of
        Inl _ \<Rightarrow> Some (resp, Inl BadLength)
      | Inr start \<Rightarrow>
          (case store_count s of
             None \<Rightarrow> None
           | Some n \<Rightarrow>
               if n > 65535 then Some (resp, Inl BadLength)
               else if start > of_nat n then Some (resp, Inl BadIndex)
               else (case encode_param_page resp start (of_nat n) (page_entry s) of
                       Inl e \<Rightarrow> Some (resp, Inl (page_error e))
                     | Inr (resp', len) \<Rightarrow> Some (resp', Inr len))))"

fun encode_sources ::
  "(nat \<Rightarrow> (bytes \<times> bytes) option) \<Rightarrow> nat list \<Rightarrow> nat \<Rightarrow> bytes \<Rightarrow> (bytes \<times> (ErrorCode + nat)) option" where
  "encode_sources src [] off resp = Some (resp, Inr off)"
| "encode_sources src (i # is) off resp =
     (case src i of
        None \<Rightarrow> None
      | Some (name, unit) \<Rightarrow>
          (case encode_source (drop off resp) name unit of
             Inl _ \<Rightarrow> Some (resp, Inl BadLength)
           | Inr (rest, n) \<Rightarrow> encode_sources src is (off + n) (take off resp @ rest)))"

fun get_pairs :: "world \<Rightarrow> ParamStore \<Rightarrow> bytes \<Rightarrow> nat \<Rightarrow> bytes \<Rightarrow> (bytes \<times> (ErrorCode + nat)) option" where
  "get_pairs w s (lo # hi # rest) off resp =
     (case store_get w s (unat (u16_from_le lo hi)) (length resp - off) of
        None \<Rightarrow> None
      | Some (Inl e) \<Rightarrow> Some (resp, Inl e)
      | Some (Inr bs) \<Rightarrow> get_pairs w s rest (off + length bs) (copy_at resp off bs))"
| "get_pairs w s _ off resp = Some (resp, Inr off)"

definition handle_get_par :: "bytes \<Rightarrow> world \<Rightarrow> ParamStore \<Rightarrow> bytes \<Rightarrow> (bytes \<times> (ErrorCode + nat)) option" where
  "handle_get_par payload w s resp =
     (if payload = [] \<or> length payload mod 2 \<noteq> 0 then Some (resp, Inl BadLength)
      else get_pairs w s payload 0 resp)"

definition handle_stream_setup ::
  "nat \<Rightarrow> bytes \<Rightarrow> StreamState \<Rightarrow> StreamState \<times> (ErrorCode + nat)" where
  "handle_stream_setup n_sources payload s =
     (if length payload < 7 then (s, Inl BadLength)
      else
        let decimation = u16_from_le (payload ! 0) (payload ! 1);
            count = u32_from_le (payload ! 2) (payload ! 3) (payload ! 4) (payload ! 5);
            n = unat (payload ! 6);
            sources = subslice payload 7 (7 + n)
        in if decimation = 0 \<or> n = 0 \<or> n > MAX_STREAM_SOURCES \<or> length payload \<noteq> 7 + n then (s, Inl BadValue)
           else if list_ex (\<lambda>src. unat src \<ge> n_sources) sources then (s, Inl BadValue)
           else let (s', r) = stream_setup sources decimation count s
                in (s', try_bind r (\<lambda>_. Inr 0)))"

definition handle_stream_start :: "u32 option \<Rightarrow> bytes \<Rightarrow> StreamState \<Rightarrow> StreamState \<times> (ErrorCode + nat)" where
  "handle_stream_start remote payload s =
     (if length payload \<noteq> 2 then (s, Inl BadLength)
      else case remote of
             None \<Rightarrow> (s, Inl BadValue)
           | Some addr \<Rightarrow>
               let (s', r) = stream_start addr (u16_from_le (payload ! 0) (payload ! 1)) s
               in (s', try_bind r (\<lambda>_. Inr 0)))"

definition handle_status ::
  "nat \<Rightarrow> u32 \<Rightarrow> ParamStore \<Rightarrow> bytes \<Rightarrow> (bytes \<times> (ErrorCode + nat)) option" where
  "handle_status n_sources uptime_ms s resp =
     (case store_count s of
        None \<Rightarrow> None
      | Some n \<Rightarrow>
          if n > 65535 then None
          else
            let r0 = resp[0 := VERSION];
                r1 = copy_at r0 1 (u16_to_le (of_nat n));
                r2 = r1[3 := of_nat n_sources];
                r3 = copy_at r2 4 (f32_to_le (sr_hz (ps_sample_rate s)));
                r4 = copy_at r3 8 (u32_to_le uptime_ms)
            in Some (r4, Inr 12))"

text \<open>A handler that only fills the response buffer.\<close>

definition respond :: "(bytes \<times> (ErrorCode + nat)) option \<Rightarrow> control \<Rightarrow> (control \<times> (ErrorCode + nat) \<times> ParamAction) option" where
  "respond r c = map_option (\<lambda>(resp, res). (c\<lparr>cl_resp := resp\<rparr>, res, ActNone)) r"

text \<open>A handler that goes through the parameter store.\<close>

definition via_store ::
  "((world \<times> ParamStore) \<times> (ErrorCode + 'a)) option \<Rightarrow> ('a \<Rightarrow> ParamAction) \<Rightarrow> control
     \<Rightarrow> (control \<times> (ErrorCode + nat) \<times> ParamAction) option" where
  "via_store r act c =
     map_option (\<lambda>((w, s), res).
        (c\<lparr>cl_world := w, cl_store := s\<rparr>,
         case res of Inl e \<Rightarrow> (Inl e, ActNone) | Inr a \<Rightarrow> (Inr 0, act a))) r"

definition via_stream :: "StreamState \<times> (ErrorCode + nat) \<Rightarrow> control \<Rightarrow> (control \<times> (ErrorCode + nat) \<times> ParamAction) option" where
  "via_stream r c = (case r of (ss, res) \<Rightarrow> Some (c\<lparr>cl_stream := ss\<rparr>, res, ActNone))"

definition handle ::
  "'r Rig \<Rightarrow> 'p Program \<Rightarrow> u32 option \<Rightarrow> u32 \<Rightarrow> u8 \<Rightarrow> bytes \<Rightarrow> control
     \<Rightarrow> (control \<times> (ErrorCode + nat) \<times> ParamAction) option" where
  "handle R P remote uptime_ms ty payload c =
     (case msg_type_from_u8 ty of
        None \<Rightarrow> Some (c, Inl UnknownType, ActNone)
      | Some msg \<Rightarrow>
          (case msg of
             GetParams \<Rightarrow> respond (handle_get_params payload (cl_store c) (cl_resp c)) c
           | GetSources \<Rightarrow> respond (encode_sources (source R P) [0..<source_count R P] 0 (cl_resp c)) c
           | GetPar \<Rightarrow> respond (handle_get_par payload (cl_world c) (cl_store c) (cl_resp c)) c
           | SetPar \<Rightarrow>
               if length payload < 2 then Some (c, Inl BadLength, ActNone)
               else via_store (store_set (unat (u16_from_le (payload ! 0) (payload ! 1))) (drop 2 payload)
                                 (cl_world c) (cl_store c)) (\<lambda>a. a) c
           | SetBlock \<Rightarrow>
               (case decode_set_block payload of
                  Inl _ \<Rightarrow> Some (c, Inl BadLength, ActNone)
                | Inr (index, offset, data) \<Rightarrow>
                    via_store (store_set_block (unat index) offset data (cl_world c) (cl_store c)) (\<lambda>_. ActNone) c)
           | Commit \<Rightarrow>
               (case decode_commit payload of
                  Inl _ \<Rightarrow> Some (c, Inl BadLength, ActNone)
                | Inr (index, len) \<Rightarrow>
                    via_store (store_commit (unat index) len (cl_world c) (cl_store c)) (\<lambda>_. ActNone) c)
           | StreamSetup \<Rightarrow> via_stream (handle_stream_setup (source_count R P) payload (cl_stream c)) c
           | StreamStart \<Rightarrow> via_stream (handle_stream_start remote payload (cl_stream c)) c
           | StreamStop \<Rightarrow> via_stream (stream_stop (cl_stream c), Inr 0) c
           | Status \<Rightarrow> respond (handle_status (source_count R P) uptime_ms (cl_store c) (cl_resp c)) c
           | MsgError \<Rightarrow> Some (c, Inl UnknownType, ActNone)))"

subsection \<open>The connection\<close>

text \<open>
  What the environment does around one request: \<open>se_others\<close> is the streamer and core 1 running while
  the server awaits the request, \<open>se_wait\<close> is core 1 running during the bounded wait for quiescence, \<open>se_rom_status\<close> the status of \<open>rom_data::reboot\<close>, \<open>se_write_ok\<close> whether
  the response could be written.
\<close>

record serve_env =
  se_others :: "control \<Rightarrow> control"
  se_remote :: "u32 option"
  se_uptime_ms :: u32
  se_wait :: "world \<Rightarrow> world"
  se_rom_status :: int
  se_write_ok :: bool

datatype served =
    Closed control
  | Answered control bytes bytes
  | Rebooting control "bytes option"

definition map_safety :: "(Safety \<Rightarrow> Safety) \<Rightarrow> world \<Rightarrow> world" where
  "map_safety f w = w\<lparr>w_shared := (w_shared w)\<lparr>sh_safety := f (sh_safety (w_shared w))\<rparr>\<rparr>"

definition map_reboot :: "(RebootShared \<Rightarrow> RebootShared) \<Rightarrow> world \<Rightarrow> world" where
  "map_reboot f w = w\<lparr>w_shared := (w_shared w)\<lparr>sh_reboot := f (sh_reboot (w_shared w))\<rparr>\<rparr>"

definition perform_reboot ::
  "serve_env \<Rightarrow> control \<Rightarrow> (ErrorCode + nat) \<Rightarrow> ParamAction \<Rightarrow> control \<times> (ErrorCode + nat) \<times> bool" where
  "perform_reboot env c result action =
     (case result of
        Inr n \<Rightarrow>
          if action = ActReboot
          then let c1 = c\<lparr>cl_stream := stream_stop (cl_stream c),
                          cl_world := se_wait env (map_reboot reboot_request (map_safety disarm (cl_world c)))\<rparr>
               in if se_rom_status env < 0 then (c1, Inl Busy, False) else (c1, Inr n, True)
          else (c, result, False)
      | Inl _ \<Rightarrow> (c, result, False))"

definition encode_response :: "bytes \<Rightarrow> u8 \<Rightarrow> u8 \<Rightarrow> bytes \<Rightarrow> ErrorCode + nat \<Rightarrow> FrameError + (bytes \<times> nat)" where
  "encode_response resp_frame ty seq resp result =
     (case result of
        Inr n \<Rightarrow> encode resp_frame ty seq (take n resp)
      | Inl code \<Rightarrow> encode resp_frame (msg_type_u8 MsgError) seq [error_code_u8 code, ty])"

text \<open>
  One pass of the \<open>serve\<close> loop, once a frame was decoded: \<open>&resp_payload[..n]\<close> panics beyond the
  buffer; \<open>rest\<close> is what the peer still sends.
\<close>

definition serve_frame ::
  "'r Rig \<Rightarrow> 'p Program \<Rightarrow> serve_env \<Rightarrow> control \<Rightarrow> u8 \<Rightarrow> u8 \<Rightarrow> bytes \<Rightarrow> bytes \<Rightarrow> served option" where
  "serve_frame R P env c ty seq payload rest =
     (case handle R P (se_remote env) (se_uptime_ms env) ty payload c of
        None \<Rightarrow> None
      | Some (c1, result, action) \<Rightarrow>
          let (c2, result2, reboot_scheduled) = perform_reboot env c1 result action
          in if (case result2 of Inr n \<Rightarrow> n > length (cl_resp c2) | Inl _ \<Rightarrow> False) then None
             else
               case encode_response (replicate MAX_FRAME 0) ty seq (cl_resp c2) result2 of
                 Inl _ \<Rightarrow> None
               | Inr (frm, n) \<Rightarrow>
                   if \<not> se_write_ok env
                   then Some (if reboot_scheduled then Rebooting c2 None else Closed c2)
                   else if reboot_scheduled then Some (Rebooting c2 (Some (take n frm)))
                   else Some (Answered c2 (take n frm) rest))"

text \<open>Reading the frame: \<open>read_exact\<close> fails when the peer closes before enough bytes came.\<close>

definition serve_request ::
  "'r Rig \<Rightarrow> 'p Program \<Rightarrow> serve_env \<Rightarrow> control \<Rightarrow> bytes \<Rightarrow> served option" where
  "serve_request R P env c input =
     (if length input < HEADER_LEN then Some (Closed c)
      else if subslice input 0 2 \<noteq> u16_to_le MAGIC then Some (Closed c)
      else
        let len = unat (u16_from_le (input ! 4) (input ! 5));
            tot = HEADER_LEN + len + TRAILER_LEN
        in if len > MAX_PAYLOAD then Some (Closed c)
           else if length input < tot then Some (Closed c)
           else
             case decode (take tot input) of
               Inl _ \<Rightarrow> Some (Closed c)
             | Inr (ty, seq, payload) \<Rightarrow> serve_frame R P env c ty seq payload (drop tot input))"

text \<open>The loop: it ends because every request takes bytes; each pass meets its own environment.\<close>

function serve ::
  "'r Rig \<Rightarrow> 'p Program \<Rightarrow> (nat \<Rightarrow> serve_env) \<Rightarrow> nat \<Rightarrow> control \<Rightarrow> bytes \<Rightarrow> (served \<times> bytes list) option" where
  "serve R P env k c input =
     (case serve_request R P (env k) (se_others (env k) c) input of
        None \<Rightarrow> None
      | Some (Answered c' frm rest) \<Rightarrow>
          (if length rest < length input
           then map_option (\<lambda>(r, sent). (r, frm # sent)) (serve R P env (Suc k) c' rest)
           else None)
      | Some (Closed c') \<Rightarrow> Some (Closed c', [])
      | Some (Rebooting c' frm) \<Rightarrow> Some (Rebooting c' frm, case frm of None \<Rightarrow> [] | Some f \<Rightarrow> [f]))"
  by pat_completeness auto
termination
  by (relation "measure (\<lambda>(_, _, _, _, _, input). length input)") auto

declare serve.simps [simp del]

text \<open>One turn of \<open>control_run\<close>, from \<open>accept\<close> to \<open>close\<close>; after a scheduled reboot it never returns.\<close>

definition control_connection ::
  "'r Rig \<Rightarrow> 'p Program \<Rightarrow> (nat \<Rightarrow> serve_env) \<Rightarrow> control \<Rightarrow> bytes \<Rightarrow> (served \<times> bytes list) option" where
  "control_connection R P env c input =
     map_option (\<lambda>(r, sent).
        (case r of
           Closed c' \<Rightarrow> Closed (c'\<lparr>cl_stream := stream_disconnected (cl_stream c'),
                                  cl_world := map_safety disarm (cl_world c')\<rparr>)
         | _ \<Rightarrow> r, sent))
       (serve R P env 0 (c\<lparr>cl_stream := stream_connected (cl_stream c), cl_resp := replicate MAX_PAYLOAD 0\<rparr>) input)"

subsection \<open>Responses fit the buffer\<close>

lemma length_encode_param:
  "encode_param out name ty count wr = Inr (out', n) \<Longrightarrow> length out' = length out \<and> n = length name + 5 \<and> n \<le> length out"
  by (auto simp: encode_param_def Let_def split: if_splits)

lemma length_encode_source:
  "encode_source out name unit = Inr (out', n) \<Longrightarrow> length out' = length out \<and> n \<le> length out"
  by (auto simp: encode_source_def Let_def split: if_splits)

lemma length_param_page_loop:
  assumes "param_page_loop defn tot nxt offset out = Inr (out', nxt', offset')" "offset \<le> length out"
  shows "length out' = length out \<and> offset' \<le> length out"
  using assms
proof (induction defn tot nxt offset out rule: param_page_loop.induct)
  case (1 defn tot nxt offset out)
  show ?case
  proof (cases "\<exists>name ty count wr rest n. nxt < tot \<and> defn nxt = Some (name, ty, count, wr)
      \<and> length name \<le> MAX_PARAM_NAME_LEN \<and> is_ascii name \<and> \<not> length out - offset < length name + 5
      \<and> encode_param (drop offset out) name ty count wr = Inr (rest, n)")
    case True
    then obtain name ty count wr rest n where e: "nxt < tot" "defn nxt = Some (name, ty, count, wr)"
      "length name \<le> MAX_PARAM_NAME_LEN" "is_ascii name" "\<not> length out - offset < length name + 5"
      "encode_param (drop offset out) name ty count wr = Inr (rest, n)" by blast
    note l = length_encode_param [OF e(6)]
    have r: "param_page_loop defn tot (nxt + 1) (offset + n) (take offset out @ rest) = Inr (out', nxt', offset')"
      using 1(2) e by (simp add: param_page_loop.simps [of defn tot nxt])
    have "length (take offset out @ rest) = length out" using l 1(3) by simp
    moreover have "offset + n \<le> length out" using l 1(3) by auto
    ultimately show ?thesis using 1(1) [OF e(1,2) refl refl refl _ e(5,6) refl r] e(3,4) by simp
  next
    case False
    then have "out' = out" "offset' = offset"
      using 1(2) by (auto simp: param_page_loop.simps [of defn tot nxt] split: if_splits option.splits sum.splits)
    with 1(3) show ?thesis by simp
  qed
qed

lemma length_encode_param_page:
  assumes "encode_param_page out start tot defn = Inr (out', n)"
  shows "length out' = length out \<and> n \<le> length out"
proof -
  obtain out1 nxt where p: "4 \<le> length out"
    "param_page_loop defn tot start 4 (copy_at out 0 (u16_to_le start)) = Inr (out1, nxt, n)"
    "out' = copy_at out1 2 (u16_to_le nxt)"
    using assms by (auto simp: encode_param_page_def payload_consts try_bind_Inr_iff split: if_splits)
  with length_param_page_loop [OF p(2)] show ?thesis by simp
qed

lemma length_handle_get_params:
  assumes "handle_get_params payload s resp = Some (resp', r)"
  shows "length resp' = length resp \<and> (\<forall>n. r = Inr n \<longrightarrow> n \<le> length resp)"
  using assms length_encode_param_page [of resp _ _ "page_entry s"]
  by (fastforce simp: handle_get_params_def split: sum.splits option.splits if_splits prod.splits)

lemma encode_sources_total:
  assumes "\<forall>i \<in> set is. src i \<noteq> None" "off \<le> length resp"
  shows "\<exists>resp' r. encode_sources src is off resp = Some (resp', r) \<and> length resp' = length resp
    \<and> (\<forall>n. r = Inr n \<longrightarrow> n \<le> length resp)"
  using assms
proof (induction "is" arbitrary: off resp)
  case Nil
  then show ?case by simp
next
  case (Cons i "is")
  obtain name unit where s: "src i = Some (name, unit)" using Cons.prems(1) by auto
  show ?case
  proof (cases "encode_source (drop off resp) name unit")
    case (Inl e)
    then show ?thesis using s by simp
  next
    case (Inr p)
    then obtain rest n where e: "encode_source (drop off resp) name unit = Inr (rest, n)" by (cases p) auto
    note l = length_encode_source [OF e]
    then have "length (take off resp @ rest) = length resp" "off + n \<le> length resp" using Cons.prems(2) by auto
    then show ?thesis using Cons.IH [of "off + n" "take off resp @ rest"] Cons.prems(1) s e by simp
  qed
qed


lemma length_serialize_coeffs:
  assumes "4 + 8 * length (fc_a c) \<le> length out"
  shows "length (serialize_coeffs c out) = length out"
proof -
  let ?H = "length (fc_a c)"
  let ?f = "\<lambda>o1 h. copy_at (copy_at o1 (4 + 4 * h) (f32_to_le (fc_a c ! h))) (4 + 4 * (?H + h)) (f32_to_le (fc_b c ! h))"
  have fl: "length (foldl ?f o1 hs) = length o1" if "4 + 8 * ?H \<le> length o1" "set hs \<subseteq> {..<?H}" for o1 hs
    using that by (induction hs arbitrary: o1) (auto simp: length_f32_to_le)
  have c: "length (copy_at out 0 (f32_to_le (fc_mean c))) = length out"
    using assms by (simp add: length_f32_to_le)
  show ?thesis using fl [of "copy_at out 0 (f32_to_le (fc_mean c))" "[0..<?H]"] assms c
    by (simp add: serialize_coeffs_def Let_def atLeast0LessThan)
qed

lemma checked_output_size:
  "checked_output defs ident n = Inr sz \<Longrightarrow> \<exists>d. get_at defs (unat ident) = Some d
     \<and> sz = param_type_size (pd_ty d) * unat (pd_count d) \<and> sz \<le> n"
  by (auto simp: checked_output_def Let_def split: option.splits if_splits)

lemma length_scalar_get:
  assumes "list_all (\<lambda>d. pd_ty d = TF32 \<and> pd_count d = 1) (sg_defs g)" "scalar_get g ident n = Inr bs"
  shows "length bs \<le> n"
  using assms
  by (auto simp: scalar_get_def try_bind_Inr_iff list_all_length get_at_Some_iff length_f32_to_le
      dest!: checked_output_size)

lemma length_telemetry_get:
  assumes "group_wf (GTelemetry g)" "telemetry_get w g ident n = Inr bs"
  shows "length bs \<le> n"
  using assms
  by (auto simp: telemetry_get_def try_bind_Inr_iff list_all_length get_at_Some_iff extra_get_def extra_def_def
      param_read_only_def dest!: checked_output_size)

lemma length_table_get:
  assumes "group_wf (GTable g)" "table_group_get g ident n = Inr bs"
  shows "length bs \<le> n"
  using assms
  by (auto simp: table_group_get_def try_bind_Inr_iff table_params_simps param_writable_def length_f32_to_le
      dest!: checked_output_size split: if_splits)

lemma length_generator_get:
  assumes "group_wf (GGenerator g)" "generator_get g ident n = Inr bs"
  shows "length bs \<le> n"
proof -
  have "1 + 2 * gg_H g < 65536" using assms(1) by (simp add: MAX_HARMONICS_def)
  then have "unat (of_nat (1 + 2 * gg_H g) :: u16) = 1 + 2 * gg_H g" by (rule u16_of_nat_le_roundtrip)
  then have "unat (1 + 2 * of_nat (gg_H g) :: u16) = 1 + 2 * gg_H g" by simp
  then show ?thesis using assms
    by (auto simp: generator_get_def try_bind_Inr_iff generator_params_simps param_writable_def length_f32_to_le
        length_serialize_coeffs dest!: checked_output_size split: if_splits)
qed


lemma platform_sizes:
  "\<forall>i \<in> set [2..<20]. param_type_size (pd_ty (PLATFORM_PARAMS ! i)) * unat (pd_count (PLATFORM_PARAMS ! i)) = 4"
  "param_type_size (pd_ty (PLATFORM_PARAMS ! 20)) * unat (pd_count (PLATFORM_PARAMS ! 20)) = 2"
  by (simp_all add: PLATFORM_PARAMS_def param_read_only_def param_writable_def upt_rec)

lemma length_platform_get:
  assumes "platform_get w g ident n = Inr bs"
  shows "length bs \<le> n"
proof -
  obtain sz where s: "checked_output PLATFORM_PARAMS ident n = Inr sz"
    using assms by (auto simp: platform_get_def try_bind_Inr_iff)
  from checked_output_size [OF this] have sz: "unat ident < length PLATFORM_PARAMS" "sz \<le> n"
    "sz = param_type_size (pd_ty (PLATFORM_PARAMS ! unat ident)) * unat (pd_count (PLATFORM_PARAMS ! unat ident))"
    by (auto simp: get_at_Some_iff)
  have len: "length bs \<le> sz \<or> length bs = 4 \<and> 2 \<le> unat ident \<and> unat ident < 20
      \<or> length bs = 2 \<and> unat ident = 20"
    using assms s
    by (auto simp: platform_get_def Let_def write_string_def PLATFORM_DIAG_RESET_def PLATFORM_ARM_def
        PLATFORM_MCU_REBOOT_def PLATFORM_TABLE_LEN_def split: if_splits)
  have "sz = 4" if "2 \<le> unat ident" "unat ident < 20"
  proof -
    have "unat ident \<in> set [2..<20]" using that by (simp only: set_upt atLeastLessThan_iff)
    from bspec [OF platform_sizes(1) this] show ?thesis using sz(3) by simp
  qed
  with len sz platform_sizes(2) show ?thesis by auto
qed

lemma length_store_get:
  assumes "store_ok w s" "store_get w s index n = Some (Inr bs)"
  shows "length bs \<le> n"
proof -
  obtain gi ident where l: "locate s index = Some (gi, ident)" "group_get w (fst (ps_entries s ! gi)) ident n = Inr bs"
    using assms(2) by (auto simp: store_get_def try_bind_Inr_iff ok_or_Inr_iff split: if_splits)
  have "group_wf (fst (ps_entries s ! gi))"
    using store_ok_nth [OF assms(1)] locate_in_range [OF l(1)] by blast
  with l(2) show ?thesis
    by (cases "fst (ps_entries s ! gi)")
      (auto intro: length_scalar_get length_telemetry_get length_table_get length_generator_get length_platform_get
       simp del: group_wf.simps(2-4))
qed

lemma get_pairs_total:
  assumes "store_ok w s" "off \<le> length resp"
  shows "\<exists>resp' r. get_pairs w s payload off resp = Some (resp', r) \<and> length resp' = length resp
    \<and> (\<forall>n. r = Inr n \<longrightarrow> n \<le> length resp)"
  using assms
proof (induction w s payload off resp rule: get_pairs.induct)
  case (1 w s lo hi rest off resp)
  obtain r where g: "store_get w s (unat (u16_from_le lo hi)) (length resp - off) = Some r"
    using 1(2) by (auto simp: store_get_def store_ok_def)
  show ?case
  proof (cases r)
    case (Inl e)
    then show ?thesis using g by simp
  next
    case (Inr bs)
    have "length bs \<le> length resp - off" using length_store_get [OF 1(2)] g Inr by simp
    then show ?thesis using 1 g Inr by simp
  qed
qed simp_all

subsection \<open>Every request keeps the server's invariant\<close>

definition stream_ok :: "nat \<Rightarrow> StreamState \<Rightarrow> bool" where
  "stream_ok n s \<longleftrightarrow> (ss_enabled s \<longrightarrow> ss_sources s \<noteq> [] \<and> ss_target s \<noteq> None)
     \<and> length (ss_sources s) \<le> MAX_STREAM_SOURCES \<and> list_all (\<lambda>src. unat src < n) (ss_sources s)
     \<and> ss_decimation s \<noteq> 0"

definition control_ok :: "'r Rig \<Rightarrow> 'p Program \<Rightarrow> control \<Rightarrow> bool" where
  "control_ok R P c \<longleftrightarrow> store_ok (cl_world c) (cl_store c) \<and> stream_ok (source_count R P) (cl_stream c)
     \<and> length (cl_resp c) = MAX_PAYLOAD"

lemma stream_initial_ok: "stream_ok n stream_initial"
  by (simp add: stream_ok_def stream_initial_def)

lemma stream_ops_ok:
  "stream_ok n s \<Longrightarrow> stream_ok n (stream_stop s)"
  "stream_ok n s \<Longrightarrow> stream_ok n (stream_connected s)"
  "stream_ok n s \<Longrightarrow> stream_ok n (stream_disconnected s)"
  "stream_ok n s \<Longrightarrow> stream_ok n (fst (handle_stream_start remote payload s))"
  by (auto simp: stream_ok_def stream_stop_def stream_connected_def stream_disconnected_def
      handle_stream_start_def stream_start_def split: option.splits)

lemma handle_stream_setup_ok:
  assumes "stream_ok n s" shows "stream_ok n (fst (handle_stream_setup n payload s))"
  using assms
  by (auto simp: stream_ok_def handle_stream_setup_def stream_setup_def Let_def list_ex_iff list_all_iff length_subslice
      split: if_splits)

lemma stream_results:
  "snd (handle_stream_setup n payload s) = Inr k \<Longrightarrow> k = 0"
  "snd (handle_stream_start remote payload s) = Inr k \<Longrightarrow> k = 0"
  by (auto simp: handle_stream_setup_def handle_stream_start_def stream_setup_def stream_start_def Let_def
      try_bind_Inr_iff split: if_splits option.splits)

lemma handle_get_params_total:
  assumes "store_ok w s"
  shows "\<exists>resp' r. handle_get_params payload s resp = Some (resp', r) \<and> length resp' = length resp
    \<and> (\<forall>n. r = Inr n \<longrightarrow> n \<le> length resp)"
proof -
  have "handle_get_params payload s resp \<noteq> None"
    using assms by (auto simp: handle_get_params_def store_count_def store_ok_def simp del: not_None_eq split: sum.splits)
  then obtain p where "handle_get_params payload s resp = Some p" by auto
  with length_handle_get_params show ?thesis by (cases p) blast
qed

lemma handle_status_total:
  assumes "store_ok w s" "12 \<le> length resp"
  shows "\<exists>resp' r. handle_status n_sources up s resp = Some (resp', r) \<and> length resp' = length resp
    \<and> (\<forall>n. r = Inr n \<longrightarrow> n \<le> length resp)"
  using assms by (auto simp: handle_status_def store_count_def store_ok_def Let_def length_f32_to_le)

text \<open>What every dispatched request owes: no panic, the invariant, and a response that fits.\<close>

definition handled :: "'r Rig \<Rightarrow> 'p Program \<Rightarrow> (control \<times> (ErrorCode + nat) \<times> ParamAction) option \<Rightarrow> bool" where
  "handled R P q \<longleftrightarrow> (case q of None \<Rightarrow> False
     | Some (c', r, _) \<Rightarrow> control_ok R P c' \<and> (case r of Inl _ \<Rightarrow> True | Inr n \<Rightarrow> n \<le> MAX_PAYLOAD))"

lemma handled_refused: "control_ok R P c \<Longrightarrow> handled R P (Some (c, Inl e, a))"
  by (simp add: handled_def)

lemma handled_respond:
  assumes "control_ok R P c" "\<exists>resp r. q = Some (resp, r) \<and> length resp = length (cl_resp c) \<and> (\<forall>n. r = Inr n \<longrightarrow> n \<le> length (cl_resp c))"
  shows "handled R P (respond q c)"
  using assms by (auto simp: respond_def control_ok_def handled_def split: sum.splits)

lemma handled_via_store:
  assumes "control_ok R P c" "q \<noteq> None" "\<And>w s r. q = Some ((w, s), r) \<Longrightarrow> store_ok w s"
  shows "handled R P (via_store q act c)"
  using assms by (auto simp: via_store_def control_ok_def handled_def split: sum.splits)

lemma handled_via_stream:
  assumes "control_ok R P c" "stream_ok (source_count R P) (fst q)" "\<And>n. snd q = Inr n \<Longrightarrow> n = 0"
  shows "handled R P (via_stream q c)"
  using assms by (auto simp: via_stream_def control_ok_def handled_def split: prod.splits sum.splits)

lemma handled_store:
  assumes "control_ok R P c"
  shows "handled R P (via_store (store_set i d (cl_world c) (cl_store c)) act1 c)"
    and "handled R P (via_store (store_set_block i off d (cl_world c) (cl_store c)) act2 c)"
    and "handled R P (via_store (store_commit i len (cl_world c) (cl_store c)) act2 c)"
proof -
  have ok: "store_ok (cl_world c) (cl_store c)" "ps_validated (cl_store c)"
    using assms by (simp_all add: control_ok_def store_ok_def)
  show "handled R P (via_store (store_set i d (cl_world c) (cl_store c)) act1 c)"
    by (rule handled_via_store [OF assms _ store_set_keeps [OF ok(1)]]) (simp_all add: store_set_def ok(2))
  show "handled R P (via_store (store_set_block i off d (cl_world c) (cl_store c)) act2 c)"
    by (rule handled_via_store [OF assms _ conjunct1 [OF store_set_block_keeps [OF ok(1)]]])
      (simp_all add: store_set_block_def ok(2))
  show "handled R P (via_store (store_commit i len (cl_world c) (cl_store c)) act2 c)"
    by (rule handled_via_store [OF assms _ store_commit_keeps [OF ok(1)]]) (simp_all add: store_commit_def ok(2))
qed

lemma handled_responses:
  assumes "control_ok R P c"
  shows "handled R P (respond (handle_get_params payload (cl_store c) (cl_resp c)) c)"
    and "handled R P (respond (handle_get_par payload (cl_world c) (cl_store c) (cl_resp c)) c)"
    and "handled R P (respond (handle_status n up (cl_store c) (cl_resp c)) c)"
    and "validate_sources R P \<Longrightarrow>
      handled R P (respond (encode_sources (source R P) [0..<source_count R P] 0 (cl_resp c)) c)"
proof -
  have ok: "store_ok (cl_world c) (cl_store c)" "12 \<le> length (cl_resp c)"
    using assms by (simp_all add: control_ok_def MAX_PAYLOAD_def)
  show "handled R P (respond (handle_get_params payload (cl_store c) (cl_resp c)) c)"
    by (rule handled_respond [OF assms handle_get_params_total [OF ok(1)]])
  show "handled R P (respond (handle_get_par payload (cl_world c) (cl_store c) (cl_resp c)) c)"
    using get_pairs_total [OF ok(1), of 0 "cl_resp c" payload]
    by (intro handled_respond [OF assms]) (simp add: handle_get_par_def)
  show "handled R P (respond (handle_status n up (cl_store c) (cl_resp c)) c)"
    by (rule handled_respond [OF assms handle_status_total [OF ok]])
  show "handled R P (respond (encode_sources (source R P) [0..<source_count R P] 0 (cl_resp c)) c)"
    if "validate_sources R P"
    using that
    by (intro handled_respond [OF assms encode_sources_total])
      (auto simp: validate_sources_def source_texts_ok_def simp del: not_None_eq split: option.splits)
qed

lemma handle_ok:
  assumes "control_ok R P c" "validate_sources R P"
  shows "handled R P (handle R P remote up ty payload c)"
proof -
  have s: "stream_ok (source_count R P) (cl_stream c)" using assms(1) by (simp add: control_ok_def)
  note streams = handled_via_stream [OF assms(1) handle_stream_setup_ok [OF s] stream_results(1)]
    handled_via_stream [OF assms(1) stream_ops_ok(4) [OF s] stream_results(2)]
    handled_via_stream [OF assms(1), of "(stream_stop (cl_stream c), Inr 0)"]
  show ?thesis
    unfolding handle_def
    using handled_refused [OF assms(1)] handled_responses [OF assms(1)] handled_store [OF assms(1)] streams
      stream_ops_ok(1) [OF s] assms(2)
    by (auto split: option.splits MsgType.splits sum.splits)
qed

subsection \<open>Serving a request\<close>

definition world_armed :: "world \<Rightarrow> bool" where
  "world_armed w \<longleftrightarrow> si_armed (load_inputs (sh_safety (w_shared w)))"

definition world_rebooting :: "world \<Rightarrow> bool" where
  "world_rebooting w \<longleftrightarrow> reboot_is_requested (sh_reboot (w_shared w))"

text \<open>
  What the server relies on of the others: the streamer and core 1 keep the shared invariants, and core
  1 neither arms the output nor takes back a reboot request.
\<close>

definition env_ok :: "'r Rig \<Rightarrow> 'p Program \<Rightarrow> serve_env \<Rightarrow> bool" where
  "env_ok R P env \<longleftrightarrow> (\<forall>c. control_ok R P c \<longrightarrow> control_ok R P (se_others env c))
     \<and> (\<forall>w s. store_ok w s \<longrightarrow> store_ok (se_wait env w) s)
     \<and> (\<forall>w. \<not> world_armed w \<longrightarrow> \<not> world_armed (se_wait env w))
     \<and> (\<forall>w. world_rebooting w \<longrightarrow> world_rebooting (se_wait env w))"

lemma store_ok_shared:
  "store_ok (map_safety f w) s = store_ok w s" "store_ok (map_reboot h w) s = store_ok w s"
  by (simp_all add: store_ok_def world_ok_def map_safety_def map_reboot_def)

lemma disarm_request_effect:
  "\<not> world_armed (map_safety disarm w)" "\<not> world_armed (map_reboot reboot_request (map_safety disarm w))"
  "world_rebooting (map_reboot reboot_request w)"
proof -
  have "1 \<le> x" if "x \<noteq> 0" for x :: u32 using that by (simp add: word_le_nat_alt Suc_leI unat_gt_0)
  then show "world_rebooting (map_reboot reboot_request w)"
    by (auto simp: world_rebooting_def map_reboot_def reboot_request_def reboot_is_requested_def
        REBOOT_REQUESTED_def REBOOT_IDLE_def)
qed (simp_all add: world_armed_def map_safety_def map_reboot_def disarm_def load_inputs_def)

lemma perform_reboot_ok:
  assumes "control_ok R P c" "env_ok R P env" "perform_reboot env c r a = (c', r', scheduled)"
    and "\<forall>n. r = Inr n \<longrightarrow> n \<le> MAX_PAYLOAD"
  shows "control_ok R P c' \<and> (\<forall>n. r' = Inr n \<longrightarrow> n \<le> MAX_PAYLOAD)
    \<and> (scheduled \<longrightarrow> \<not> ss_enabled (cl_stream c') \<and> \<not> world_armed (cl_world c') \<and> world_rebooting (cl_world c')
         \<and> a = ActReboot)
    \<and> (a \<noteq> ActReboot \<longrightarrow> c' = c \<and> r' = r)"
  using assms stream_ops_ok(1) [of "source_count R P" "cl_stream c"]
  by (auto simp: perform_reboot_def env_ok_def control_ok_def store_ok_shared disarm_request_effect Let_def
      stream_stop_def split: sum.splits if_splits)

lemma encode_response_ok:
  assumes "\<forall>n. r = Inr n \<longrightarrow> n \<le> MAX_PAYLOAD" "length resp = MAX_PAYLOAD"
  shows "\<exists>buf n. encode_response (replicate MAX_FRAME 0) ty seq resp r = Inr (buf, n)
    \<and> decode (take n buf) = (case r of Inr k \<Rightarrow> Inr (ty, seq, take k resp)
        | Inl e \<Rightarrow> Inr (msg_type_u8 MsgError, seq, [error_code_u8 e, ty]))"
proof -
  have enc: "\<exists>buf n. encode (replicate MAX_FRAME 0) t seq p = Inr (buf, n) \<and> decode (take n buf) = Inr (t, seq, p)"
    if "length p \<le> MAX_PAYLOAD" for t p
  proof -
    have fits: "HEADER_LEN + length p + TRAILER_LEN \<le> length (replicate MAX_FRAME (0 :: u8))"
      using that by (simp add: frame_consts)
    have "take (HEADER_LEN + length p + TRAILER_LEN) (copy_at (replicate MAX_FRAME 0) 0 (frame_bytes t seq p))
        = frame_bytes t seq p"
      using take_copy_at_0 [of "frame_bytes t seq p" "replicate MAX_FRAME 0"] fits
      by (simp add: length_frame_bytes frame_consts add.commute)
    with encode_ok [OF that fits] decode_frame_bytes [OF that] show ?thesis by simp
  qed
  show ?thesis
  proof (cases r)
    case (Inl e)
    then show ?thesis using enc [of "[error_code_u8 e, ty]"] by (simp add: encode_response_def MAX_PAYLOAD_def)
  next
    case (Inr k)
    then show ?thesis using enc [of "take k resp"] assms by (simp add: encode_response_def)
  qed
qed

lemma serve_request_frame:
  assumes "length payload \<le> MAX_PAYLOAD"
  shows "serve_request R P env c (frame_bytes ty seq payload @ rest) = serve_frame R P env c ty seq payload rest"
proof -
  let ?f = "frame_bytes ty seq payload"
  have dec: "decode ?f = Inr (ty, seq, payload)" by (rule decode_frame_bytes [OF assms])
  then have d: "unat (u16_from_le (?f ! 4) (?f ! 5)) = length payload" "subslice ?f 0 2 = u16_to_le MAGIC"
    by (auto simp: decode_def Let_def frame_consts split: if_splits)
  have l: "length ?f = 8 + length payload" by (simp add: frame_consts)
  have t: "take (8 + length payload) (?f @ rest) = ?f" "drop (8 + length payload) (?f @ rest) = rest"
    using l by simp_all
  have "subslice (?f @ rest) 0 2 = u16_to_le MAGIC" using d(2) l by (simp add: subslice_def)
  moreover have "(?f @ rest) ! 4 = ?f ! 4" "(?f @ rest) ! 5 = ?f ! 5" using l by (simp_all add: nth_append)
  ultimately show ?thesis
    using assms dec d(1) t by (simp add: serve_request_def Let_def frame_consts add.commute)
qed


lemma handled_obtain:
  assumes "control_ok R P c" "validate_sources R P"
  obtains c1 r a where "handle R P remote up ty payload c = Some (c1, r, a)" "control_ok R P c1"
    "\<forall>n. r = Inr n \<longrightarrow> n \<le> MAX_PAYLOAD"
  using handle_ok [OF assms, of remote up ty payload]
  by (auto simp: handled_def split: option.splits sum.splits)

text \<open>How a reply relates to what the handler returned.\<close>

definition reply_message :: "u8 \<Rightarrow> u8 \<Rightarrow> bytes \<Rightarrow> ErrorCode + nat \<Rightarrow> u8 \<times> u8 \<times> bytes" where
  "reply_message ty seq resp r =
     (case r of Inr n \<Rightarrow> (ty, seq, take n resp) | Inl e \<Rightarrow> (msg_type_u8 MsgError, seq, [error_code_u8 e, ty]))"

lemma serve_frame_ok:
  assumes "control_ok R P c" "validate_sources R P" "env_ok R P env"
    and h: "handle R P (se_remote env) (se_uptime_ms env) ty payload c = Some (c1, r, a)"
    and p: "perform_reboot env c1 r a = (c2, r2, scheduled)"
  shows "\<exists>f. decode f = Inr (reply_message ty seq (cl_resp c2) r2)
    \<and> serve_frame R P env c ty seq payload rest =
      Some (if scheduled then Rebooting c2 (if se_write_ok env then Some f else None)
            else if se_write_ok env then Answered c2 f rest else Closed c2)"
proof -
  have c1: "control_ok R P c1" "\<forall>n. r = Inr n \<longrightarrow> n \<le> MAX_PAYLOAD"
    using handled_obtain [OF assms(1,2), of "se_remote env" "se_uptime_ms env" ty payload] h by auto
  from perform_reboot_ok [OF c1(1) assms(3) p c1(2)] have c2: "control_ok R P c2" "\<forall>n. r2 = Inr n \<longrightarrow> n \<le> MAX_PAYLOAD"
    by blast+
  then have l: "length (cl_resp c2) = MAX_PAYLOAD" by (simp add: control_ok_def)
  obtain buf n where e: "encode_response (replicate MAX_FRAME 0) ty seq (cl_resp c2) r2 = Inr (buf, n)"
    "decode (take n buf) = Inr (reply_message ty seq (cl_resp c2) r2)"
    using encode_response_ok [OF c2(2) l, of ty seq] by (auto simp: reply_message_def split: sum.splits)
  then show ?thesis using h p c2(2) l
    by (intro exI [of _ "take n buf"]) (auto simp: serve_frame_def split: sum.splits)
qed

text \<open>A connection in which nothing else happens, to the demonstration rig.\<close>

definition quiet_env :: serve_env where
  "quiet_env = \<lparr>se_others = (\<lambda>c. c), se_remote = Some 0x0A000002, se_uptime_ms = 5, se_wait = (\<lambda>w. w),
     se_rom_status = 0, se_write_ok = True\<rparr>"

definition demo_control :: control where
  "demo_control = \<lparr>cl_world = example_world, cl_store = free_store, cl_stream = stream_initial,
     cl_resp = replicate MAX_PAYLOAD 0\<rparr>"

lemma quiet_env_ok: "env_ok R P quiet_env"
  by (simp add: env_ok_def quiet_env_def)

lemma demo_control_ok: "control_ok R P demo_control"
  by (simp add: control_ok_def demo_control_def free_store_ok stream_initial_ok)

lemma demo_source:
  "source demo_rig (pid_program 0) 0 = Some (as_bytes ''x'', as_bytes ''V'')"
  "source demo_rig (pid_program 0) (Suc 0) = Some (as_bytes ''error'', as_bytes ''V'')"
  "source demo_rig (pid_program 0) 2 = Some (as_bytes ''target'', as_bytes ''V'')"
  "source demo_rig (pid_program 0) 3 = Some (as_bytes ''forcing'', as_bytes ''V'')"
  "source demo_rig (pid_program 0) 4 = Some (as_bytes ''table'', as_bytes ''V'')"
  "source demo_rig (pid_program 0) 5 = Some (as_bytes ''phase'', as_bytes ''turn'')"
  "source demo_rig (pid_program 0) 6 = Some (as_bytes ''out'', as_bytes ''V'')"
  "source demo_rig (pid_program 0) 7 = Some COMMAND_EPOCH_SOURCE"
  by (simp_all add: source_def demo_rig_def vector_rig_def StandardProgramOf_def standard_signal_def
      standard_signal_count_def PidControl_def standard_signals_def get_at_def checked_sub_def Let_def)

lemma demo_sources: "validate_sources demo_rig (pid_program 0)"
  by (simp add: validate_sources_def demo_shape source_texts_ok_def source_encoded_len_def upt_eval demo_source
      MAX_STREAM_SOURCES_def MAX_ACTUATORS_def payload_consts is_ascii_def as_bytes_def COMMAND_EPOCH_SOURCE_def
      DISCOVERY_HEADROOM_def MAX_PAYLOAD_def of_char_of)

text \<open>
  C5: a control frame with any type byte and payload is answered by exactly one reply, with the same
  sequence number: the handler's response under the request's type, or an error frame naming the code and
  the request's type. Nothing panics, the reply fits its buffer, exactly the frame's bytes are consumed,
  and the invariant of store and stream session survives. An accepted reboot disarms the output and
  stops the stream before the reply.
\<close>

theorem every_request_is_answered:
  assumes "control_ok R P c" "validate_sources R P" "env_ok R P env" "se_write_ok env" "length payload \<le> MAX_PAYLOAD"
  shows "\<exists>c1 r a c2 r2 f.
    handle R P (se_remote env) (se_uptime_ms env) ty payload c = Some (c1, r, a)
    \<and> (a \<noteq> ActReboot \<longrightarrow> c2 = c1 \<and> r2 = r) \<and> control_ok R P c2
    \<and> decode f = Inr (reply_message ty seq (cl_resp c2) r2)
    \<and> (serve_request R P env c (frame_bytes ty seq payload @ rest) = Some (Answered c2 f rest)
       \<or> a = ActReboot \<and> \<not> ss_enabled (cl_stream c2) \<and> \<not> world_armed (cl_world c2)
         \<and> serve_request R P env c (frame_bytes ty seq payload @ rest) = Some (Rebooting c2 (Some f)))"
proof -
  obtain c1 r a where h: "handle R P (se_remote env) (se_uptime_ms env) ty payload c = Some (c1, r, a)"
    "control_ok R P c1" "\<forall>n. r = Inr n \<longrightarrow> n \<le> MAX_PAYLOAD"
    using handled_obtain [OF assms(1,2)] by blast
  obtain c2 r2 scheduled where p: "perform_reboot env c1 r a = (c2, r2, scheduled)" by (metis prod_cases3)
  note ok = perform_reboot_ok [OF h(2) assms(3) p h(3)]
  obtain f where f: "decode f = Inr (reply_message ty seq (cl_resp c2) r2)"
    "serve_frame R P env c ty seq payload rest = Some (if scheduled then Rebooting c2 (Some f) else Answered c2 f rest)"
    using serve_frame_ok [OF assms(1-3) h(1) p, of seq rest] assms(4) by auto
  show ?thesis
    using h(1) ok f serve_request_frame [OF assms(5), of R P env c ty seq rest] by (cases scheduled) auto
qed

theorem every_request_is_answered_witness:
  "\<exists>c2 f. serve_request demo_rig (pid_program 0) quiet_env demo_control
       (frame_bytes (msg_type_u8 StreamStop) 7 [] @ [1, 2]) = Some (Answered c2 f [1, 2])
     \<and> decode f = Inr (msg_type_u8 StreamStop, 7, [])"
proof -
  have h: "handle demo_rig (pid_program 0) (se_remote quiet_env) (se_uptime_ms quiet_env) (msg_type_u8 StreamStop) [] demo_control
      = Some (demo_control\<lparr>cl_stream := stream_stop (cl_stream demo_control)\<rparr>, Inr 0, ActNone)"
    by (simp only: handle_def msg_type_roundtrip option.case MsgType.case via_stream_def prod.case)
  have w: "se_write_ok quiet_env" by (simp add: quiet_env_def)
  from every_request_is_answered [OF demo_control_ok demo_sources quiet_env_ok w, of "[]" "msg_type_u8 StreamStop" 7 "[1, 2]"] h
  show ?thesis by (auto simp: reply_message_def)
qed

lemma serve_request_cases:
  assumes "control_ok R P c" "validate_sources R P" "env_ok R P env"
  shows "\<exists>c'. control_ok R P c' \<and>
    (serve_request R P env c input = Some (Closed c')
     \<or> (\<exists>f rest. serve_request R P env c input = Some (Answered c' f rest) \<and> length rest < length input
          \<and> \<not> isl (decode f))
     \<or> (\<exists>f. serve_request R P env c input = Some (Rebooting c' f) \<and> \<not> ss_enabled (cl_stream c')
          \<and> \<not> world_armed (cl_world c') \<and> world_rebooting (cl_world c') \<and> (\<forall>g. f = Some g \<longrightarrow> \<not> isl (decode g))))"
proof (cases "serve_request R P env c input = Some (Closed c)")
  case True
  then show ?thesis using assms(1) by blast
next
  case False
  define tot where "tot = HEADER_LEN + unat (u16_from_le (input ! 4) (input ! 5)) + TRAILER_LEN"
  from False obtain ty seq payload where d: "tot \<le> length input" "decode (take tot input) = Inr (ty, seq, payload)"
    and r: "serve_request R P env c input = serve_frame R P env c ty seq payload (drop tot input)"
    by (fastforce simp: serve_request_def Let_def tot_def split: if_splits sum.splits)
  obtain c1 r a where h: "handle R P (se_remote env) (se_uptime_ms env) ty payload c = Some (c1, r, a)"
    "control_ok R P c1" "\<forall>n. r = Inr n \<longrightarrow> n \<le> MAX_PAYLOAD"
    using handled_obtain [OF assms(1,2)] by blast
  obtain c2 r2 scheduled where p: "perform_reboot env c1 r a = (c2, r2, scheduled)" by (metis prod_cases3)
  note ok = perform_reboot_ok [OF h(2) assms(3) p h(3)]
  have "length (drop tot input) < length input" using d(1) by (simp add: tot_def frame_consts)
  with r ok serve_frame_ok [OF assms h(1) p, of seq "drop tot input"] show ?thesis
    by (intro exI [of _ c2]) (auto split: if_splits)
qed


lemma serve_ends:
  assumes "control_ok R P c" "validate_sources R P" "\<forall>k. env_ok R P (env k)"
  shows "\<exists>r sent. serve R P env k c input = Some (r, sent) \<and> list_all (\<lambda>f. \<not> isl (decode f)) sent
    \<and> ((\<exists>c'. r = Closed c' \<and> control_ok R P c')
       \<or> (\<exists>c' f. r = Rebooting c' f \<and> control_ok R P c' \<and> \<not> ss_enabled (cl_stream c')
             \<and> \<not> world_armed (cl_world c') \<and> world_rebooting (cl_world c')))"
  using assms(1)
proof (induction "length input" arbitrary: k c input rule: less_induct)
  case less
  let ?c = "se_others (env k) c"
  have ok: "control_ok R P ?c" using less.prems spec [OF assms(3), of k] by (simp add: env_ok_def)
  from serve_request_cases [OF this assms(2) spec [OF assms(3), of k], of input] obtain c' where c': "control_ok R P c'" and
    "serve_request R P (env k) ?c input = Some (Closed c')
     \<or> (\<exists>f rest. serve_request R P (env k) ?c input = Some (Answered c' f rest) \<and> length rest < length input
          \<and> \<not> isl (decode f))
     \<or> (\<exists>f. serve_request R P (env k) ?c input = Some (Rebooting c' f) \<and> \<not> ss_enabled (cl_stream c')
          \<and> \<not> world_armed (cl_world c') \<and> world_rebooting (cl_world c') \<and> (\<forall>g. f = Some g \<longrightarrow> \<not> isl (decode g)))"
    by blast
  then consider (closed) "serve_request R P (env k) ?c input = Some (Closed c')"
    | (answered) f rest where "serve_request R P (env k) ?c input = Some (Answered c' f rest)"
        "length rest < length input" "\<not> isl (decode f)"
    | (rebooting) f where "serve_request R P (env k) ?c input = Some (Rebooting c' f)" "\<not> ss_enabled (cl_stream c')"
        "\<not> world_armed (cl_world c')" "world_rebooting (cl_world c')" "\<forall>g. f = Some g \<longrightarrow> \<not> isl (decode g)"
    by blast
  then show ?case
  proof cases
    case closed
    then show ?thesis using c' by (simp add: serve.simps [of R P env k])
  next
    case answered
    from less.hyps [OF answered(2) c', of "Suc k"] show ?thesis
      using answered by (auto simp: serve.simps [of R P env k])
  next
    case rebooting
    then show ?thesis using c' by (auto simp: serve.simps [of R P env k] split: option.splits)
  qed
qed

text \<open>
  C6: whatever bytes a host sends, hostile ones included, the connection ends without a panic, every
  frame sent back is well formed, and at the end the stream is stopped and the output disarmed: either
  the connection is recorded as gone, with the store invariant intact for the next one, or a reboot is
  under way.
\<close>

theorem connection_end_quiets:
  assumes "control_ok R P c" "validate_sources R P" "\<forall>k. env_ok R P (env k)"
  shows "\<exists>r sent. control_connection R P env c input = Some (r, sent) \<and> list_all (\<lambda>f. \<not> isl (decode f)) sent
    \<and> (case r of
         Closed c' \<Rightarrow> control_ok R P c' \<and> \<not> ss_enabled (cl_stream c') \<and> \<not> ss_control_connected (cl_stream c')
           \<and> \<not> world_armed (cl_world c')
       | Rebooting c' _ \<Rightarrow> \<not> ss_enabled (cl_stream c') \<and> \<not> world_armed (cl_world c') \<and> world_rebooting (cl_world c')
       | Answered _ _ _ \<Rightarrow> False)"
proof -
  let ?c = "c\<lparr>cl_stream := stream_connected (cl_stream c), cl_resp := replicate MAX_PAYLOAD 0\<rparr>"
  have "control_ok R P ?c" using assms(1) stream_ops_ok(2) by (simp add: control_ok_def)
  from serve_ends [OF this assms(2,3), where k = 0 and input = input] obtain r sent where
    s: "serve R P env 0 ?c input = Some (r, sent)" "list_all (\<lambda>f. \<not> isl (decode f)) sent"
    "(\<exists>c'. r = Closed c' \<and> control_ok R P c')
       \<or> (\<exists>c' f. r = Rebooting c' f \<and> control_ok R P c' \<and> \<not> ss_enabled (cl_stream c')
             \<and> \<not> world_armed (cl_world c') \<and> world_rebooting (cl_world c'))"
    by blast
  from s(3) show ?thesis
  proof (elim disjE exE conjE)
    fix c' assume c': "r = Closed c'" "control_ok R P c'"
    let ?d = "c'\<lparr>cl_stream := stream_disconnected (cl_stream c'), cl_world := map_safety disarm (cl_world c')\<rparr>"
    have "control_ok R P ?d" using c'(2) stream_ops_ok(3) by (simp add: control_ok_def store_ok_shared)
    then show ?thesis using s(1,2) c'(1) disarm_request_effect(1)
      by (intro exI [of _ "Closed ?d"] exI [of _ sent]) (simp add: control_connection_def stream_disconnected_def)
  next
    fix c' f assume "r = Rebooting c' f" "\<not> ss_enabled (cl_stream c')" "\<not> world_armed (cl_world c')"
      "world_rebooting (cl_world c')"
    then show ?thesis using s(1,2)
      by (intro exI [of _ r] exI [of _ sent]) (simp add: control_connection_def)
  qed
qed


theorem connection_end_quiets_witness:
  "\<exists>r sent. control_connection demo_rig (pid_program 0) (\<lambda>_. quiet_env) demo_control [0x48, 0x44, 9, 9, 9] = Some (r, sent)
     \<and> (\<forall>c'. r = Closed c' \<longrightarrow> \<not> ss_enabled (cl_stream c') \<and> \<not> world_armed (cl_world c'))"
  using connection_end_quiets [OF demo_control_ok demo_sources allI [OF quiet_env_ok], of "[0x48, 0x44, 9, 9, 9]"]
  by auto

end
