(* ===== verification/Comms_Stream.thy ===== *)
theory Comms_Stream
  imports Comms_Control
begin

text \<open>
  The UDP streamer of \<open>firmware/support/src/comms/udp.rs\<close>. The task is a state machine with one state
  per await: at the ticker, or at a send whose completion resumes the flush loop. Between two
  resumptions the control task may change the session and core 1 may push records. A resumption takes
  the records that \<open>dequeue\<close> yields before it first finds the ring empty. A panic, a division by an
  empty record size or a subtraction below zero is \<open>None\<close>.
\<close>

definition MAX_PACKET :: nat where "MAX_PACKET = 1472"

definition record_value :: "Record \<Rightarrow> u8 \<Rightarrow> f32 option" where
  "record_value r src = (if src < re_n r then get_at (re_values r) (unat src) else Some f32_0)"

text \<open>The locals that live across iterations of the task, and the snapshot of one flush.\<close>

record Streamer =
  su_packet :: bytes
  su_seq :: u32
  su_remaining :: u32
  su_generation :: u32
  su_suppressed :: bool

record session =
  sn_endpoint :: "u32 \<times> u16"
  sn_sources :: "u8 list"
  sn_decimation :: u32
  sn_count :: u32

definition streamer_new :: Streamer where
  "streamer_new = \<lparr>su_packet = replicate MAX_PACKET 0, su_seq = 0, su_remaining = 0, su_generation = 0, su_suppressed = False\<rparr>"

definition rearm :: "StreamState \<Rightarrow> Streamer \<Rightarrow> Streamer" where
  "rearm s t =
     (let t1 = (if ss_generation s \<noteq> su_generation t
                then t\<lparr>su_generation := ss_generation s, su_seq := 0, su_remaining := ss_count s\<rparr> else t)
      in t1\<lparr>su_suppressed := ss_enabled s \<and> \<not> ss_control_connected s\<rparr>)"

definition snapshot :: "StreamState \<Rightarrow> session option" where
  "snapshot s =
     (case ss_target s of
        None \<Rightarrow> None
      | Some endpoint \<Rightarrow>
          if ss_enabled s \<and> ss_control_connected s
          then Some \<lparr>sn_endpoint = endpoint, sn_sources = ss_sources s,
                     sn_decimation = ucast (max (ss_decimation s) 1), sn_count = ss_count s\<rparr>
          else None)"

definition rec_size :: "session \<Rightarrow> nat" where
  "rec_size sn = 4 * length (sn_sources sn)"

definition max_records :: "session \<Rightarrow> nat option" where
  "max_records sn =
     (if rec_size sn = 0 then None else Some (min ((MAX_PACKET - STREAM_HEADER_LEN) div rec_size sn) 65535))"

fun put_values :: "Record \<Rightarrow> u8 list \<Rightarrow> nat \<Rightarrow> bytes \<Rightarrow> bytes option" where
  "put_values r [] pos packet = Some packet"
| "put_values r (src # srcs) pos packet =
     (case record_value r src of
        None \<Rightarrow> None
      | Some v \<Rightarrow> if length packet < pos + 4 then None
                 else put_values r srcs (pos + 4) (copy_at packet pos (f32_to_le v)))"

text \<open>The inner loop: what is left in the ring, the records packed, their first index, what remains.\<close>

fun fill_packet ::
  "session \<Rightarrow> nat \<Rightarrow> Record list \<Rightarrow> nat \<Rightarrow> u32 \<Rightarrow> u32 \<Rightarrow> bytes \<Rightarrow> (Record list \<times> nat \<times> u32 \<times> u32 \<times> bytes) option" where
  "fill_packet sn mx [] n first_index remaining packet = Some ([], n, first_index, remaining, packet)"
| "fill_packet sn mx (r # records) n first_index remaining packet =
     (if \<not> n < mx then Some (r # records, n, first_index, remaining, packet)
      else if re_index r mod sn_decimation sn \<noteq> 0 then fill_packet sn mx records n first_index remaining packet
      else
        case put_values r (sn_sources sn) (STREAM_HEADER_LEN + n * rec_size sn) packet of
          None \<Rightarrow> None
        | Some packet' \<Rightarrow>
            let first' = (if n = 0 then re_index r else first_index)
            in if sn_count sn = 0 then fill_packet sn mx records (n + 1) first' remaining packet'
               else if remaining = 0 then None
               else if remaining - 1 = 0 then Some (records, n + 1, first', remaining - 1, packet')
               else fill_packet sn mx records (n + 1) first' (remaining - 1) packet')"

text \<open>One pass of \<open>'flush\<close> up to the send; no packet when nothing was selected.\<close>

definition flush_packet ::
  "session \<Rightarrow> u32 \<Rightarrow> Record list \<Rightarrow> Streamer \<Rightarrow> (Streamer \<times> Record list \<times> (nat \<times> bytes) option) option" where
  "flush_packet sn dropped records t =
     (case max_records sn of
        None \<Rightarrow> None
      | Some mx \<Rightarrow>
          (case fill_packet sn mx records 0 0 (su_remaining t) (su_packet t) of
             None \<Rightarrow> None
           | Some (left, n, first_index, remaining, packet) \<Rightarrow>
               if n = 0 then Some (t\<lparr>su_remaining := remaining, su_packet := packet\<rparr>, left, None)
               else
                 let packet' = stream_header_encode
                       \<lparr>sh_n_sources = of_nat (length (sn_sources sn)), sh_seq = su_seq t, sh_first_index = first_index,
                        sh_dropped = dropped, sh_decimation = ucast (sn_decimation sn), sh_n_records = of_nat n\<rparr> packet
                 in Some (t\<lparr>su_remaining := remaining, su_packet := packet', su_seq := su_seq t + 1\<rparr>, left,
                          Some (n, take (STREAM_HEADER_LEN + n * rec_size sn) packet'))))"

text \<open>After the send: a finite capture that is complete stops the session; a full packet goes round again.\<close>

definition after_send :: "session \<Rightarrow> nat \<Rightarrow> Streamer \<Rightarrow> StreamState \<Rightarrow> StreamState \<times> bool" where
  "after_send sn n t s =
     (if sn_count sn \<noteq> 0 \<and> su_remaining t = 0 then (stream_stop s, False)
      else (s, \<not> n < the (max_records sn)))"

datatype stream_pc = AtTicker | AtSend session nat

record stream_node =
  nd_stream :: StreamState
  nd_records :: "Record list"
  nd_task :: Streamer
  nd_pc :: stream_pc

type_synonym datagram = "(u32 \<times> u16) \<times> bytes"

definition flush_from :: "session \<Rightarrow> u32 \<Rightarrow> stream_node \<Rightarrow> (stream_node \<times> datagram option) option" where
  "flush_from sn dropped nd =
     (case flush_packet sn dropped (nd_records nd) (nd_task nd) of
        None \<Rightarrow> None
      | Some (t, left, None) \<Rightarrow> Some (nd\<lparr>nd_task := t, nd_records := left, nd_pc := AtTicker\<rparr>, None)
      | Some (t, left, Some (n, packet)) \<Rightarrow>
          Some (nd\<lparr>nd_task := t, nd_records := left, nd_pc := AtSend sn n\<rparr>, Some (sn_endpoint sn, packet)))"

definition stream_resume :: "u32 \<Rightarrow> stream_node \<Rightarrow> (stream_node \<times> datagram option) option" where
  "stream_resume dropped nd =
     (case nd_pc nd of
        AtTicker \<Rightarrow>
          (let nd1 = nd\<lparr>nd_task := rearm (nd_stream nd) (nd_task nd)\<rparr>
           in case snapshot (nd_stream nd) of
                None \<Rightarrow> Some (nd1\<lparr>nd_records := []\<rparr>, None)
              | Some sn \<Rightarrow> flush_from sn dropped nd1)
      | AtSend sn n \<Rightarrow>
          (let (s, again) = after_send sn n (nd_task nd) (nd_stream nd);
               nd1 = nd\<lparr>nd_stream := s\<rparr>
           in if again then flush_from sn dropped nd1 else Some (nd1\<lparr>nd_pc := AtTicker\<rparr>, None)))"

subsection \<open>What one packet holds\<close>

definition record_ok :: "Record \<Rightarrow> bool" where
  "record_ok r \<longleftrightarrow> length (re_values r) = MAX_STREAM_SOURCES \<and> unat (re_n r) \<le> MAX_STREAM_SOURCES"

definition session_ok :: "session \<Rightarrow> bool" where
  "session_ok sn \<longleftrightarrow> sn_sources sn \<noteq> [] \<and> length (sn_sources sn) \<le> MAX_STREAM_SOURCES \<and> sn_decimation sn \<noteq> 0"

definition selected :: "session \<Rightarrow> Record list \<Rightarrow> Record list" where
  "selected sn = filter (\<lambda>r. re_index r mod sn_decimation sn = 0)"

definition record_bytes :: "session \<Rightarrow> Record \<Rightarrow> bytes" where
  "record_bytes sn r = concat (map (\<lambda>src. f32_to_le (the (record_value r src))) (sn_sources sn))"

definition records_bytes :: "session \<Rightarrow> Record list \<Rightarrow> bytes" where
  "records_bytes sn rs = concat (map (record_bytes sn) rs)"

lemma record_value_Some: "record_ok r \<Longrightarrow> record_value r src = Some (the (record_value r src))"
  by (auto simp: record_value_def record_ok_def get_at_def word_less_nat_alt)

lemma length_record_bytes [simp]: "length (record_bytes sn r) = rec_size sn"
  by (simp add: record_bytes_def rec_size_def length_concat comp_def length_f32_to_le sum_list_triv)

lemma length_records_bytes [simp]: "length (records_bytes sn rs) = length rs * rec_size sn"
  by (induction rs) (simp_all add: records_bytes_def)

lemma copy_at_append:
  "off + length xs + length ys \<le> length out \<Longrightarrow> copy_at (copy_at out off xs) (off + length xs) ys = copy_at out off (xs @ ys)"
  by (simp add: copy_at_def ac_simps)

lemma put_values_spec:
  assumes "record_ok r" "pos + 4 * length srcs \<le> length packet"
  shows "put_values r srcs pos packet
    = Some (copy_at packet pos (concat (map (\<lambda>src. f32_to_le (the (record_value r src))) srcs)))"
  using assms(2)
proof (induction srcs arbitrary: pos packet)
  case Nil
  then show ?case by (simp add: copy_at_def)
next
  case (Cons src srcs)
  obtain v where v: "record_value r src = Some v" using record_value_Some [OF assms(1)] by blast
  let ?rest = "concat (map (\<lambda>src. f32_to_le (the (record_value r src))) srcs)"
  have l: "length ?rest = 4 * length srcs" by (induction srcs) (simp_all add: length_f32_to_le)
  have "put_values r srcs (pos + 4) (copy_at packet pos (f32_to_le v))
      = Some (copy_at (copy_at packet pos (f32_to_le v)) (pos + 4) ?rest)"
    using Cons.prems by (intro Cons.IH) (simp add: length_f32_to_le)
  also have "copy_at (copy_at packet pos (f32_to_le v)) (pos + 4) ?rest = copy_at packet pos (f32_to_le v @ ?rest)"
    using copy_at_append [of pos "f32_to_le v" ?rest packet] Cons.prems l by (simp add: length_f32_to_le)
  finally show ?case using v Cons.prems by simp
qed

text \<open>
  How a pass splits the ring: \<open>ys\<close> are the selected records packed, in order, \<open>left\<close> is what stays, and the
  pass stopped because the ring was empty, the packet full or the capture complete.
\<close>

definition packs :: "session \<Rightarrow> nat \<Rightarrow> Record list \<Rightarrow> nat \<Rightarrow> u32 \<Rightarrow> Record list \<Rightarrow> Record list \<Rightarrow> u32 \<Rightarrow> bool" where
  "packs sn mx q n remaining ys left remaining' \<longleftrightarrow>
     selected sn q = ys @ selected sn left \<and> set left \<subseteq> set q \<and> length left + length ys \<le> length q \<and> n + length ys \<le> mx
     \<and> (if sn_count sn = 0 then remaining' = remaining
        else length ys \<le> unat remaining \<and> unat remaining' = unat remaining - length ys)
     \<and> (left = [] \<or> n + length ys = mx \<or> sn_count sn \<noteq> 0 \<and> remaining' = 0)"

definition filled :: "session \<Rightarrow> nat \<Rightarrow> u32 \<Rightarrow> bytes \<Rightarrow> Record list \<Rightarrow> Record list \<Rightarrow> u32 \<Rightarrow> Record list \<times> nat \<times> u32 \<times> u32 \<times> bytes" where
  "filled sn n fi packet ys left remaining' =
     (left, n + length ys, if n = 0 \<and> ys \<noteq> [] then re_index (hd ys) else fi, remaining',
      copy_at packet (STREAM_HEADER_LEN + n * rec_size sn) (records_bytes sn ys))"

lemma records_bytes_Cons: "records_bytes sn (r # ys) = record_bytes sn r @ records_bytes sn ys"
  by (simp add: records_bytes_def)

lemma filled_Cons:
  assumes "STREAM_HEADER_LEN + (n + 1 + length ys) * rec_size sn \<le> length packet"
  shows "filled sn (n + 1) (if n = 0 then re_index r else fi)
      (copy_at packet (STREAM_HEADER_LEN + n * rec_size sn) (record_bytes sn r)) ys left remaining'
    = filled sn n fi packet (r # ys) left remaining'"
  using copy_at_append [of "STREAM_HEADER_LEN + n * rec_size sn" "record_bytes sn r" "records_bytes sn ys" packet] assms
  by (simp add: filled_def records_bytes_Cons algebra_simps)

lemma fill_packet_spec:
  assumes "\<forall>r \<in> set q. record_ok r" "n \<le> mx" "STREAM_HEADER_LEN + mx * rec_size sn \<le> length packet"
    and "sn_count sn \<noteq> 0 \<Longrightarrow> remaining \<noteq> 0"
  shows "\<exists>ys left remaining'. fill_packet sn mx q n fi remaining packet = Some (filled sn n fi packet ys left remaining')
    \<and> packs sn mx q n remaining ys left remaining'"
  using assms
proof (induction q arbitrary: n fi remaining packet)
  case Nil
  then show ?case
    by (intro exI [of _ "[]"]) (simp add: filled_def packs_def records_bytes_def selected_def copy_at_def)
next
  case (Cons r q)
  have rest: "\<forall>r \<in> set q. record_ok r" "record_ok r" using Cons.prems(1) by simp_all
  consider (full) "\<not> n < mx" | (skip) "n < mx" "re_index r mod sn_decimation sn \<noteq> 0"
    | (take) "n < mx" "re_index r mod sn_decimation sn = 0" by metis
  then show ?case
  proof cases
    case full
    then show ?thesis using Cons.prems(2)
      by (intro exI [of _ "[]"] exI [of _ "r # q"] exI [of _ remaining])
        (simp add: filled_def packs_def records_bytes_def copy_at_def)
  next
    case skip
    with Cons.IH [OF rest(1) Cons.prems(2-4), of fi] show ?thesis by (fastforce simp: packs_def selected_def)
  next
    case take
    let ?at = "STREAM_HEADER_LEN + n * rec_size sn" and ?p = "copy_at packet (STREAM_HEADER_LEN + n * rec_size sn) (record_bytes sn r)"
    let ?fi = "if n = 0 then re_index r else fi" and ?rem = "if sn_count sn = 0 then remaining else remaining - 1"
    have room: "?at + rec_size sn \<le> length packet"
      using Cons.prems(3) mult_le_mono1 [of "Suc n" mx "rec_size sn"] take(1) by simp
    have put: "put_values r (sn_sources sn) ?at packet = Some ?p"
      using put_values_spec [OF rest(2), of ?at "sn_sources sn" packet] room by (simp add: rec_size_def record_bytes_def)
    show ?thesis
    proof (cases "sn_count sn \<noteq> 0 \<and> remaining - 1 = 0")
      case stop: True
      then have "remaining = 1" by simp
      with stop take put show ?thesis
        by (intro exI [of _ "[r]"] exI [of _ q] exI [of _ 0])
          (auto simp: filled_def packs_def records_bytes_def selected_def)
    next
      case go: False
      have "\<exists>ys left rem'. fill_packet sn mx q (n + 1) ?fi ?rem ?p = Some (filled sn (n + 1) ?fi ?p ys left rem')
          \<and> packs sn mx q (n + 1) ?rem ys left rem'"
        using go Cons.prems(3,4) room take(1) by (intro Cons.IH [OF rest(1)]) auto
      then obtain ys left rem' where i: "fill_packet sn mx q (n + 1) ?fi ?rem ?p = Some (filled sn (n + 1) ?fi ?p ys left rem')"
        "packs sn mx q (n + 1) ?rem ys left rem'" by blast
      have "n + 1 + length ys \<le> mx" using i(2) by (simp add: packs_def)
      then have "STREAM_HEADER_LEN + (n + 1 + length ys) * rec_size sn \<le> length packet"
        using Cons.prems(3) mult_le_mono1 [of "n + 1 + length ys" mx "rec_size sn"] by simp
      with i(1) take put go Cons.prems(4)
      have f: "fill_packet sn mx (r # q) n fi remaining packet = Some (filled sn n fi packet (r # ys) left rem')"
        by (auto simp: filled_Cons [symmetric] split: if_splits)
      have "sn_count sn \<noteq> 0 \<Longrightarrow> unat ?rem = unat remaining - 1 \<and> 0 < unat remaining"
        using Cons.prems(4) by (auto simp: unat_minus_one unat_gt_0)
      then have "packs sn mx (r # q) n remaining (r # ys) left rem'"
        using i(2) take(2) by (auto simp: packs_def selected_def split: if_splits)
      with f show ?thesis by blast
    qed
  qed
qed

subsection \<open>What one flush sends\<close>

definition packet_image :: "session \<Rightarrow> u32 \<Rightarrow> u32 \<Rightarrow> Record list \<Rightarrow> bytes" where
  "packet_image sn seq dropped ys =
     stream_header_bytes \<lparr>sh_n_sources = of_nat (length (sn_sources sn)), sh_seq = seq, sh_first_index = re_index (hd ys),
       sh_dropped = dropped, sh_decimation = ucast (sn_decimation sn), sh_n_records = of_nat (length ys)\<rparr>
     @ records_bytes sn ys"

definition task_ok :: "session \<Rightarrow> Streamer \<Rightarrow> bool" where
  "task_ok sn t \<longleftrightarrow> session_ok sn \<and> length (su_packet t) = MAX_PACKET \<and> (sn_count sn \<noteq> 0 \<longrightarrow> su_remaining t \<noteq> 0)"

lemma max_records_Some:
  assumes "session_ok sn"
  obtains mx where "max_records sn = Some mx" "0 < mx" "mx \<le> 65535" "STREAM_HEADER_LEN + mx * rec_size sn \<le> MAX_PACKET"
proof -
  let ?rs = "rec_size sn" and ?mx = "min ((MAX_PACKET - STREAM_HEADER_LEN) div rec_size sn) 65535"
  have rs: "4 \<le> ?rs" "?rs \<le> 96" using assms by (auto simp: session_ok_def rec_size_def MAX_STREAM_SOURCES_def Suc_le_eq)
  then have "1452 div 96 \<le> (1452 :: nat) div ?rs" by (intro div_le_mono2) simp_all
  then have "0 < ?mx" by (simp add: MAX_PACKET_def STREAM_HEADER_LEN_def)
  moreover have "?mx * ?rs \<le> 1452 div ?rs * ?rs" by (rule mult_le_mono1) (simp add: MAX_PACKET_def STREAM_HEADER_LEN_def)
  then have "?mx * ?rs \<le> 1452" using div_times_less_eq_dividend [of 1452 ?rs] by (rule order_trans)
  ultimately show thesis using rs that [of ?mx] by (simp add: max_records_def MAX_PACKET_def STREAM_HEADER_LEN_def)
qed

lemma header_then_records:
  assumes "length packet = MAX_PACKET" "STREAM_HEADER_LEN + length ys * rec_size sn \<le> MAX_PACKET"
  shows "take (STREAM_HEADER_LEN + length ys * rec_size sn)
      (stream_header_encode h (copy_at packet STREAM_HEADER_LEN (records_bytes sn ys)))
    = stream_header_bytes h @ records_bytes sn ys"
    and "length (stream_header_encode h (copy_at packet STREAM_HEADER_LEN (records_bytes sn ys))) = MAX_PACKET"
proof -
  let ?c = "copy_at packet STREAM_HEADER_LEN (records_bytes sn ys)"
  have l: "length ?c = MAX_PACKET" using assms by simp
  have e: "stream_header_encode h ?c = stream_header_bytes h @ drop STREAM_HEADER_LEN ?c"
    using stream_header_encode_bytes [of ?c h] l assms by (simp add: copy_at_def length_stream_header_bytes STREAM_HEADER_LEN_def MAX_PACKET_def)
  moreover have "drop STREAM_HEADER_LEN ?c = records_bytes sn ys @ drop (STREAM_HEADER_LEN + length ys * rec_size sn) packet"
    using assms by (simp add: copy_at_def add.commute)
  ultimately show "take (STREAM_HEADER_LEN + length ys * rec_size sn) (stream_header_encode h ?c)
    = stream_header_bytes h @ records_bytes sn ys" by (simp add: length_stream_header_bytes STREAM_HEADER_LEN_def)
  show "length (stream_header_encode h ?c) = MAX_PACKET"
    using e l assms by (simp add: length_stream_header_bytes STREAM_HEADER_LEN_def MAX_PACKET_def)
qed

lemma flush_packet_spec:
  assumes "task_ok sn t" "\<forall>r \<in> set q. record_ok r" "max_records sn = Some mx"
  shows "\<exists>ys left remaining' packet'. packs sn mx q 0 (su_remaining t) ys left remaining' \<and> length packet' = MAX_PACKET
    \<and> flush_packet sn dropped q t =
      Some (t\<lparr>su_remaining := remaining', su_packet := packet', su_seq := su_seq t + (if ys = [] then 0 else 1)\<rparr>, left,
            if ys = [] then None else Some (length ys, packet_image sn (su_seq t) dropped ys))"
proof -
  have ok: "session_ok sn" "length (su_packet t) = MAX_PACKET" "sn_count sn \<noteq> 0 \<Longrightarrow> su_remaining t \<noteq> 0"
    using assms(1) by (simp_all add: task_ok_def)
  obtain mx' where "max_records sn = Some mx'" "STREAM_HEADER_LEN + mx' * rec_size sn \<le> MAX_PACKET"
    by (rule max_records_Some [OF ok(1)])
  with assms(3) have mx: "STREAM_HEADER_LEN + mx * rec_size sn \<le> length (su_packet t)" using ok(2) by simp
  obtain ys left rem' where f: "fill_packet sn mx q 0 0 (su_remaining t) (su_packet t)
      = Some (filled sn 0 0 (su_packet t) ys left rem')" "packs sn mx q 0 (su_remaining t) ys left rem'"
    using fill_packet_spec [OF assms(2) _ mx ok(3), of 0 0] by auto
  have "length ys \<le> mx" using f(2) by (simp add: packs_def)
  then have fits: "STREAM_HEADER_LEN + length ys * rec_size sn \<le> MAX_PACKET"
    using mult_le_mono1 [of "length ys" mx "rec_size sn"] mx ok(2) by linarith
  let ?c = "copy_at (su_packet t) STREAM_HEADER_LEN (records_bytes sn ys)"
  let ?h = "\<lparr>sh_n_sources = of_nat (length (sn_sources sn)), sh_seq = su_seq t, sh_first_index = re_index (hd ys),
       sh_dropped = dropped, sh_decimation = ucast (sn_decimation sn), sh_n_records = of_nat (length ys)\<rparr>"
  let ?p = "if ys = [] then ?c else stream_header_encode ?h ?c"
  have "length ?p = MAX_PACKET" using header_then_records(2) [OF ok(2) fits] ok(2) fits by simp
  moreover have "flush_packet sn dropped q t =
      Some (t\<lparr>su_remaining := rem', su_packet := ?p, su_seq := su_seq t + (if ys = [] then 0 else 1)\<rparr>, left,
            if ys = [] then None else Some (length ys, packet_image sn (su_seq t) dropped ys))"
    using f(1) assms(3) header_then_records(1) [OF ok(2) fits, of ?h]
    by (simp add: flush_packet_def filled_def packet_image_def Let_def)
  ultimately show ?thesis using f(2) by blast
qed

text \<open>Resumptions with nothing in between, and the datagrams they send.\<close>

fun drive :: "nat \<Rightarrow> u32 \<Rightarrow> stream_node \<Rightarrow> (stream_node \<times> datagram list) option" where
  "drive 0 dropped nd = Some (nd, [])"
| "drive (Suc k) dropped nd =
     Option.bind (stream_resume dropped nd) (\<lambda>(nd1, d).
       map_option (\<lambda>(nd2, ds). (nd2, case d of None \<Rightarrow> ds | Some x \<Rightarrow> x # ds)) (drive k dropped nd1))"

fun datagrams :: "session \<Rightarrow> u32 \<Rightarrow> u32 \<Rightarrow> Record list list \<Rightarrow> datagram list" where
  "datagrams sn seq dropped [] = []"
| "datagrams sn seq dropped (g # gs) = (sn_endpoint sn, packet_image sn seq dropped g) # datagrams sn (seq + 1) dropped gs"

definition quota :: "session \<Rightarrow> u32 \<Rightarrow> Record list \<Rightarrow> Record list" where
  "quota sn remaining q = (if sn_count sn = 0 then selected sn q else take (unat remaining) (selected sn q))"

text \<open>What is sent for a ring, cut into packets of at most \<open>mx\<close> records, all but the last of them full.\<close>

definition batches :: "session \<Rightarrow> nat \<Rightarrow> u32 \<Rightarrow> Record list \<Rightarrow> Record list list \<Rightarrow> bool" where
  "batches sn mx remaining q gs \<longleftrightarrow> concat gs = quota sn remaining q
     \<and> (\<forall>g \<in> set gs. g \<noteq> [] \<and> length g \<le> mx) \<and> (\<forall>g \<in> set (butlast gs). length g = mx)"

definition flush_ends :: "session \<Rightarrow> u32 \<Rightarrow> stream_node \<Rightarrow> stream_node \<Rightarrow> bool" where
  "flush_ends sn remaining nd nd' \<longleftrightarrow> nd_pc nd' = AtTicker
     \<and> (if sn_count sn = 0 then nd_records nd' = [] \<and> nd_stream nd' = nd_stream nd
        else if unat remaining \<le> length (selected sn (nd_records nd)) then nd_stream nd' = stream_stop (nd_stream nd)
        else nd_records nd' = [] \<and> nd_stream nd' = nd_stream nd)"

lemma packs_quota:
  assumes "packs sn mx q 0 remaining ys left remaining'" "\<not> (sn_count sn \<noteq> 0 \<and> remaining' = 0)"
  shows "quota sn remaining q = ys @ quota sn remaining' left"
    and "sn_count sn \<noteq> 0 \<Longrightarrow> (unat remaining \<le> length (selected sn q)) = (unat remaining' \<le> length (selected sn left))"
  using assms by (auto simp: packs_def quota_def split: if_splits)

lemma packs_complete:
  assumes "packs sn mx q 0 remaining ys left remaining'" "sn_count sn \<noteq> 0" "remaining' = 0"
  shows "quota sn remaining q = ys" "unat remaining \<le> length (selected sn q)"
  using assms by (auto simp: packs_def quota_def)

definition flushes :: "session \<Rightarrow> nat \<Rightarrow> u32 \<Rightarrow> stream_node \<Rightarrow> bool" where
  "flushes sn mx dropped nd \<longleftrightarrow> (\<exists>nd1 d k nd' ds gs. flush_from sn dropped nd = Some (nd1, d)
     \<and> k \<le> Suc (length (nd_records nd)) \<and> drive k dropped nd1 = Some (nd', ds)
     \<and> (case d of None \<Rightarrow> ds | Some x \<Rightarrow> x # ds) = datagrams sn (su_seq (nd_task nd)) dropped gs
     \<and> batches sn mx (su_remaining (nd_task nd)) (nd_records nd) gs
     \<and> flush_ends sn (su_remaining (nd_task nd)) nd nd')"

lemma flushesI:
  assumes "flush_from sn dropped nd = Some (nd1, d)" "drive k dropped nd1 = Some (nd', ds)"
    "k \<le> Suc (length (nd_records nd))"
    "(case d of None \<Rightarrow> ds | Some x \<Rightarrow> x # ds) = datagrams sn (su_seq (nd_task nd)) dropped gs"
    "batches sn mx (su_remaining (nd_task nd)) (nd_records nd) gs"
    "flush_ends sn (su_remaining (nd_task nd)) nd nd'"
  shows "flushes sn mx dropped nd"
  using assms unfolding flushes_def by blast

lemma drive_once: "stream_resume dropped nd = Some (nd', None) \<Longrightarrow> drive 1 dropped nd = Some (nd', [])"
  by simp

lemma flush_drive:
  assumes "task_ok sn (nd_task nd)" "\<forall>r \<in> set (nd_records nd). record_ok r" "max_records sn = Some mx"
  shows "flushes sn mx dropped nd"
  using assms(1,2)
proof (induction "length (nd_records nd)" arbitrary: nd rule: less_induct)
  case less
  let ?t = "nd_task nd" and ?q = "nd_records nd"
  obtain ys left rem' p' where f: "packs sn mx ?q 0 (su_remaining ?t) ys left rem'" "length p' = MAX_PACKET"
    "flush_packet sn dropped ?q ?t = Some (?t\<lparr>su_remaining := rem', su_packet := p',
       su_seq := su_seq ?t + (if ys = [] then 0 else 1)\<rparr>, left,
       if ys = [] then None else Some (length ys, packet_image sn (su_seq ?t) dropped ys))"
    using flush_packet_spec [OF less.prems assms(3)] by blast
  have mx: "0 < mx" using max_records_Some less.prems(1) assms(3) by (metis option.inject task_ok_def)
  have len: "length ys \<le> mx" "length left + length ys \<le> length ?q" "set left \<subseteq> set ?q" using f(1) by (simp_all add: packs_def)
  let ?t1 = "?t\<lparr>su_remaining := rem', su_packet := p', su_seq := su_seq ?t + 1\<rparr>"
  let ?nd1 = "nd\<lparr>nd_task := ?t1, nd_records := left, nd_pc := AtSend sn (length ys)\<rparr>"
  have sent: "flush_from sn dropped nd = Some (?nd1, Some (sn_endpoint sn, packet_image sn (su_seq ?t) dropped ys))"
    if "ys \<noteq> []" using f(3) that by (simp add: flush_from_def)
  consider (none) "ys = []" | (complete) "ys \<noteq> []" "sn_count sn \<noteq> 0" "rem' = 0"
    | (drained) "ys \<noteq> []" "\<not> (sn_count sn \<noteq> 0 \<and> rem' = 0)" "length ys < mx"
    | (full) "ys \<noteq> []" "\<not> (sn_count sn \<noteq> 0 \<and> rem' = 0)" "length ys = mx"
    using len(1) by linarith
  then show ?case
  proof cases
    case none
    then have "left = []" "\<not> (sn_count sn \<noteq> 0 \<and> rem' = 0)"
      using f(1) mx less.prems(1) by (auto simp: packs_def task_ok_def unsigned_eq_0_iff)
    with none f packs_quota [OF f(1)] less.prems(1) show ?thesis
      by (intro flushesI [where k = 0 and gs = "[]"])
        (auto simp: flush_from_def batches_def flush_ends_def quota_def selected_def task_ok_def unsigned_eq_0_iff)
  next
    case complete
    then have d: "drive 1 dropped ?nd1 = Some (?nd1\<lparr>nd_stream := stream_stop (nd_stream nd), nd_pc := AtTicker\<rparr>, [])"
      by (intro drive_once) (simp add: stream_resume_def after_send_def)
    show ?thesis using complete packs_complete [OF f(1) complete(2,3)] len
      by (intro flushesI [OF sent [OF complete(1)] d, where gs = "[ys]"]) (auto simp: batches_def flush_ends_def)
  next
    case drained
    then have "left = []" using f(1) by (auto simp: packs_def)
    have d: "drive 1 dropped ?nd1 = Some (?nd1\<lparr>nd_pc := AtTicker\<rparr>, [])"
      using drained assms(3) by (intro drive_once) (auto simp: stream_resume_def after_send_def)
    show ?thesis using drained packs_quota [OF f(1) drained(2)] len \<open>left = []\<close>
      by (intro flushesI [OF sent [OF drained(1)] d, where gs = "[ys]"])
        (auto simp: batches_def flush_ends_def quota_def selected_def unsigned_eq_0_iff)
  next
    case full
    let ?nd2 = "?nd1\<lparr>nd_stream := nd_stream nd\<rparr>"
    have "flushes sn mx dropped ?nd1"
      using less.prems full len mx f(2) by (intro less.hyps) (auto simp: task_ok_def)
    then obtain nd2 d k nd' ds gs where r: "flush_from sn dropped ?nd1 = Some (nd2, d)" "k \<le> Suc (length left)"
      "drive k dropped nd2 = Some (nd', ds)"
      "(case d of None \<Rightarrow> ds | Some x \<Rightarrow> x # ds) = datagrams sn (su_seq ?t + 1) dropped gs"
      "batches sn mx rem' left gs" "flush_ends sn rem' ?nd1 nd'"
      unfolding flushes_def by auto
    have "stream_resume dropped ?nd1 = Some (nd2, d)"
      using full assms(3) r(1) by (auto simp: stream_resume_def after_send_def)
    then have dr: "drive (Suc k) dropped ?nd1 = Some (nd', datagrams sn (su_seq ?t + 1) dropped gs)"
      using r(3,4) by simp
    show ?thesis using full packs_quota [OF f(1) full(2)] len r(2,5,6) mx
      by (intro flushesI [OF sent [OF full(1)] dr, where gs = "ys # gs"]) (auto simp: batches_def flush_ends_def)
  qed
qed

subsection \<open>All interleavings with the control task and core 1\<close>

text \<open>
  The node runs: the control task changes the session between two resumptions, core 1 pushes records,
  and the streamer resumes. \<open>k\<close> counts the accepted starts since the streamer last looked at the
  generation; it stays below \<open>2 ^ 32\<close>, so the wrapping generation tells whether there was one.
\<close>

definition node_start :: stream_node where
  "node_start = \<lparr>nd_stream = stream_initial, nd_records = [], nd_task = streamer_new, nd_pc = AtTicker\<rparr>"

inductive node_reach :: "nat \<Rightarrow> stream_node \<Rightarrow> nat \<Rightarrow> bool" for n where
  boot: "node_reach n node_start 0"
| configured: "node_reach n nd k \<Longrightarrow>
    node_reach n (nd\<lparr>nd_stream := fst (handle_stream_setup n payload (nd_stream nd))\<rparr>) k"
| started: "node_reach n nd k \<Longrightarrow> handle_stream_start remote payload (nd_stream nd) = (s, Inr 0) \<Longrightarrow> Suc k < 2 ^ 32 \<Longrightarrow>
    node_reach n (nd\<lparr>nd_stream := s\<rparr>) (Suc k)"
| stop: "node_reach n nd k \<Longrightarrow> node_reach n (nd\<lparr>nd_stream := stream_stop (nd_stream nd)\<rparr>) k"
| connect: "node_reach n nd k \<Longrightarrow> node_reach n (nd\<lparr>nd_stream := stream_connected (nd_stream nd)\<rparr>) k"
| disconnect: "node_reach n nd k \<Longrightarrow> node_reach n (nd\<lparr>nd_stream := stream_disconnected (nd_stream nd)\<rparr>) k"
| push: "node_reach n nd k \<Longrightarrow> record_ok r \<Longrightarrow>
    node_reach n (nd\<lparr>nd_records := fst (enqueue RECORD_QUEUE_LEN r (nd_records nd))\<rparr>) k"
| resume: "node_reach n nd k \<Longrightarrow> stream_resume dropped nd = Some (nd', d) \<Longrightarrow>
    node_reach n nd' (if nd_pc nd = AtTicker then 0 else k)"

definition node_inv :: "nat \<Rightarrow> stream_node \<Rightarrow> nat \<Rightarrow> bool" where
  "node_inv n nd k \<longleftrightarrow> stream_ok n (nd_stream nd) \<and> (\<forall>r \<in> set (nd_records nd). record_ok r)
     \<and> length (su_packet (nd_task nd)) = MAX_PACKET
     \<and> ss_generation (nd_stream nd) = su_generation (nd_task nd) + of_nat k \<and> k < 2 ^ 32
     \<and> (case nd_pc nd of
          AtTicker \<Rightarrow> k = 0 \<and> ss_enabled (nd_stream nd) \<and> ss_count (nd_stream nd) \<noteq> 0 \<longrightarrow> su_remaining (nd_task nd) \<noteq> 0
        | AtSend sn m \<Rightarrow> session_ok sn
            \<and> (k = 0 \<and> ss_enabled (nd_stream nd) \<longrightarrow> ss_count (nd_stream nd) = sn_count sn))"

lemma stream_op_effects:
  "ss_generation (fst (handle_stream_setup n payload s)) = ss_generation s"
  "ss_enabled (fst (handle_stream_setup n payload s)) = ss_enabled s"
  "ss_enabled s \<Longrightarrow> fst (handle_stream_setup n payload s) = s"
  "handle_stream_start remote payload s = (s', Inr 0) \<Longrightarrow> ss_generation s' = ss_generation s + 1"
  "ss_generation (stream_stop s) = ss_generation s" "\<not> ss_enabled (stream_stop s)"
  "ss_generation (stream_connected s) = ss_generation s" "ss_enabled (stream_connected s) = ss_enabled s"
  "ss_count (stream_connected s) = ss_count s"
  "ss_generation (stream_disconnected s) = ss_generation s" "\<not> ss_enabled (stream_disconnected s)"
  by (auto simp: handle_stream_setup_def stream_setup_def handle_stream_start_def stream_start_def stream_stop_def
      stream_connected_def stream_disconnected_def Let_def split: if_splits option.splits)

lemma snapshot_ok:
  assumes "stream_ok n s" "snapshot s = Some sn"
  shows "session_ok sn" "sn_count sn = ss_count s" "ss_enabled s" "ss_control_connected s" "ss_target s = Some (sn_endpoint sn)"
proof -
  have "ucast (max (d :: u16) 1) \<noteq> (0 :: u32)" if "d \<noteq> 0" for d
  proof -
    have "unat (max d 1) \<noteq> 0" using that by (simp add: max_def unsigned_eq_0_iff)
    then have "unat (ucast (max d 1) :: u32) \<noteq> 0" by (simp add: unat_ucast_up)
    then show ?thesis by (metis unsigned_0)
  qed
  then show "session_ok sn" using assms
    by (auto simp: snapshot_def stream_ok_def session_ok_def split: option.splits if_splits)
qed (use assms in \<open>auto simp: snapshot_def split: option.splits if_splits\<close>)

text \<open>A flush step keeps the invariant with no start pending, whatever the session has become meanwhile.\<close>

lemma flush_from_inv:
  assumes "node_inv n nd k" "task_ok sn (nd_task nd)" "k = 0 \<and> ss_enabled (nd_stream nd) \<longrightarrow> ss_count (nd_stream nd) = sn_count sn"
  shows "\<exists>nd' d. flush_from sn dropped nd = Some (nd', d) \<and> node_inv n nd' k
    \<and> (\<forall>ep p. d = Some (ep, p) \<longrightarrow> ep = sn_endpoint sn
         \<and> (\<exists>ys mx. ys \<noteq> [] \<and> length ys \<le> mx \<and> max_records sn = Some mx \<and> p = packet_image sn (su_seq (nd_task nd)) dropped ys))"
proof -
  have ok: "session_ok sn" "\<forall>r \<in> set (nd_records nd). record_ok r" using assms by (simp_all add: task_ok_def node_inv_def)
  obtain mx where mx: "max_records sn = Some mx" "0 < mx" by (rule max_records_Some [OF ok(1)])
  obtain ys left rem' p' where f: "packs sn mx (nd_records nd) 0 (su_remaining (nd_task nd)) ys left rem'" "length p' = MAX_PACKET"
    "flush_packet sn dropped (nd_records nd) (nd_task nd) = Some ((nd_task nd)\<lparr>su_remaining := rem', su_packet := p',
       su_seq := su_seq (nd_task nd) + (if ys = [] then 0 else 1)\<rparr>, left,
       if ys = [] then None else Some (length ys, packet_image sn (su_seq (nd_task nd)) dropped ys))"
    using flush_packet_spec [OF assms(2) ok(2) mx(1)] by blast
  have left: "\<forall>r \<in> set left. record_ok r" "length ys \<le> mx" using f(1) ok(2) by (auto simp: packs_def)
  show ?thesis
  proof (cases "ys = []")
    case True
    then have "sn_count sn \<noteq> 0 \<Longrightarrow> rem' \<noteq> 0"
      using f(1) assms(2) by (auto simp: packs_def task_ok_def unsigned_eq_0_iff)
    then show ?thesis using True f(2,3) left assms by (auto simp: flush_from_def node_inv_def)
  next
    case False
    then show ?thesis using f(2,3) left assms ok(1) mx(1)
      by (auto simp: flush_from_def node_inv_def split: stream_pc.splits)
  qed
qed

text \<open>What a resumption may do from a state that satisfies the invariant.\<close>

definition resumes :: "nat \<Rightarrow> u32 \<Rightarrow> stream_node \<Rightarrow> nat \<Rightarrow> bool" where
  "resumes n dropped nd k \<longleftrightarrow> (\<exists>nd' d. stream_resume dropped nd = Some (nd', d)
     \<and> node_inv n nd' (if nd_pc nd = AtTicker then 0 else k)
     \<and> (\<forall>ep p. d = Some (ep, p) \<longrightarrow> (\<exists>sn ys mx. session_ok sn \<and> ys \<noteq> [] \<and> length ys \<le> mx \<and> max_records sn = Some mx
          \<and> ep = sn_endpoint sn \<and> p = packet_image sn (su_seq (if nd_pc nd = AtTicker then rearm (nd_stream nd) (nd_task nd) else nd_task nd)) dropped ys
          \<and> (case nd_pc nd of AtTicker \<Rightarrow> snapshot (nd_stream nd) = Some sn | AtSend sn' m \<Rightarrow> sn = sn'))))"

lemma rearm_inv:
  assumes "node_inv n nd k" "nd_pc nd = AtTicker"
  shows "node_inv n (nd\<lparr>nd_task := rearm (nd_stream nd) (nd_task nd)\<rparr>) 0"
proof -
  have "(of_nat k :: u32) = 0 \<longleftrightarrow> k = 0" if "k < 2 ^ 32"
    using that by (simp add: word_of_nat_eq_0_iff nat_dvd_not_less) (metis dvd_imp_le linorder_not_less neq0_conv dvd_0_right)
  with assms show ?thesis by (auto simp: node_inv_def rearm_def Let_def)
qed

lemma resumes_ticker:
  assumes "node_inv n nd k" "nd_pc nd = AtTicker"
  shows "resumes n dropped nd k"
proof -
  let ?nd = "nd\<lparr>nd_task := rearm (nd_stream nd) (nd_task nd)\<rparr>"
  note inv = rearm_inv [OF assms]
  show ?thesis
  proof (cases "snapshot (nd_stream nd)")
    case None
    then show ?thesis using inv assms(2) by (simp add: resumes_def stream_resume_def node_inv_def)
  next
    case (Some sn)
    have so: "stream_ok n (nd_stream nd)" using assms(1) by (simp add: node_inv_def)
    note sn = snapshot_ok [OF so Some]
    have "task_ok sn (nd_task ?nd)" using inv assms(2) sn by (auto simp: task_ok_def node_inv_def)
    then obtain nd' d where f: "flush_from sn dropped ?nd = Some (nd', d)" "node_inv n nd' 0"
      "\<forall>ep p. d = Some (ep, p) \<longrightarrow> ep = sn_endpoint sn \<and> (\<exists>ys mx. ys \<noteq> [] \<and> length ys \<le> mx
         \<and> max_records sn = Some mx \<and> p = packet_image sn (su_seq (nd_task ?nd)) dropped ys)"
      using flush_from_inv [OF inv, of sn dropped] sn(2) by auto
    have "stream_resume dropped nd = Some (nd', d)" using f(1) Some assms(2) by (simp add: stream_resume_def)
    then show ?thesis unfolding resumes_def using f(2,3) sn(1) Some assms(2)
      by (intro exI [of _ nd'] exI [of _ d]) (simp, blast)
  qed
qed

lemma resumes_send:
  assumes "node_inv n nd k" "nd_pc nd = AtSend sn m"
  shows "resumes n dropped nd k"
proof -
  have i: "session_ok sn" "stream_ok n (nd_stream nd)" "length (su_packet (nd_task nd)) = MAX_PACKET"
    "k = 0 \<and> ss_enabled (nd_stream nd) \<longrightarrow> ss_count (nd_stream nd) = sn_count sn"
    using assms by (simp_all add: node_inv_def)
  show ?thesis
  proof (cases "sn_count sn \<noteq> 0 \<and> su_remaining (nd_task nd) = 0")
    case True
    then show ?thesis using assms stream_ops_ok(1) [OF i(2)]
      by (auto simp: resumes_def stream_resume_def after_send_def node_inv_def stream_op_effects)
  next
    case False
    show ?thesis
    proof (cases "m < the (max_records sn)")
      case True
      with False show ?thesis using assms
        by (auto simp: resumes_def stream_resume_def after_send_def node_inv_def)
    next
      case again: False
      have "task_ok sn (nd_task nd)" using i False by (auto simp: task_ok_def)
      then obtain nd' d where f: "flush_from sn dropped nd = Some (nd', d)" "node_inv n nd' k"
        "\<forall>ep p. d = Some (ep, p) \<longrightarrow> ep = sn_endpoint sn \<and> (\<exists>ys mx. ys \<noteq> [] \<and> length ys \<le> mx
           \<and> max_records sn = Some mx \<and> p = packet_image sn (su_seq (nd_task nd)) dropped ys)"
        using flush_from_inv [OF assms(1) _ i(4)] by blast
      have "stream_resume dropped nd = Some (nd', d)"
        using f(1) again False assms(2) by (auto simp: stream_resume_def after_send_def)
      then show ?thesis unfolding resumes_def using f(2,3) i(1) assms(2)
        by (intro exI [of _ nd'] exI [of _ d]) (simp, blast)
    qed
  qed
qed

lemma node_resumes: "node_inv n nd k \<Longrightarrow> resumes n dropped nd k"
  using resumes_ticker resumes_send by (cases "nd_pc nd") blast+

lemma node_reach_inv: "node_reach n nd k \<Longrightarrow> node_inv n nd k"
proof (induction rule: node_reach.induct)
  case boot
  show ?case by (simp add: node_inv_def node_start_def stream_initial_ok) (simp add: stream_initial_def streamer_new_def)
next
  case (configured nd k payload)
  then show ?case using handle_stream_setup_ok [of n "nd_stream nd" payload]
    by (cases "ss_enabled (nd_stream nd)") (auto simp: node_inv_def stream_op_effects split: stream_pc.splits)
next
  case (started nd k remote payload s)
  then show ?case using stream_ops_ok(4) [of n "nd_stream nd" remote payload]
    by (auto simp: node_inv_def stream_op_effects split: stream_pc.splits)
next
  case (stop nd k)
  then show ?case by (auto simp: node_inv_def stream_op_effects stream_ops_ok split: stream_pc.splits)
next
  case (connect nd k)
  then show ?case by (auto simp: node_inv_def stream_op_effects stream_ops_ok split: stream_pc.splits)
next
  case (disconnect nd k)
  then show ?case by (auto simp: node_inv_def stream_op_effects stream_ops_ok split: stream_pc.splits)
next
  case (push nd k r)
  then show ?case by (auto simp: node_inv_def enqueue_def split: stream_pc.splits)
next
  case (resume nd k dropped nd' d)
  then show ?case using node_resumes [of n nd k dropped] by (auto simp: resumes_def)
qed

lemma packet_image_decode:
  assumes "session_ok sn" "ys \<noteq> []" "length ys \<le> mx" "max_records sn = Some mx"
  shows "\<exists>h. stream_header_decode (packet_image sn seq dropped ys) = Some h
    \<and> unat (sh_n_sources h) = length (sn_sources sn) \<and> unat (sh_n_records h) = length ys \<and> sh_seq h = seq
    \<and> length (packet_image sn seq dropped ys) = STREAM_HEADER_LEN + 4 * unat (sh_n_sources h) * unat (sh_n_records h)
    \<and> length (packet_image sn seq dropped ys) \<le> MAX_PACKET"
proof -
  obtain mx' where mx: "max_records sn = Some mx'" "mx' \<le> 65535" "STREAM_HEADER_LEN + mx' * rec_size sn \<le> MAX_PACKET"
    by (rule max_records_Some [OF assms(1)])
  with assms have le: "length ys \<le> 65535" "length ys * rec_size sn \<le> mx * rec_size sn" "mx = mx'" by auto
  have u: "unat (of_nat (length ys) :: u16) = length ys" using le(1) by simp
  have "length (sn_sources sn) < 2 ^ 8" using assms(1) by (simp add: session_ok_def MAX_STREAM_SOURCES_def)
  then have v: "unat (of_nat (length (sn_sources sn)) :: u8) = length (sn_sources sn)"
    by (simp add: unat_of_nat take_bit_nat_eq_self)
  have "stream_header_decode (packet_image sn seq dropped ys) = Some \<lparr>sh_n_sources = of_nat (length (sn_sources sn)),
      sh_seq = seq, sh_first_index = re_index (hd ys), sh_dropped = dropped, sh_decimation = ucast (sn_decimation sn),
      sh_n_records = of_nat (length ys)\<rparr>"
    by (simp add: packet_image_def stream_header_decode_bytes)
  moreover have l: "length (packet_image sn seq dropped ys) = STREAM_HEADER_LEN + length ys * rec_size sn"
    by (simp add: packet_image_def length_stream_header_bytes STREAM_HEADER_LEN_def)
  moreover have "STREAM_HEADER_LEN + length ys * rec_size sn \<le> MAX_PACKET"
    using le(2) mx(3) unfolding le(3) by linarith
  ultimately show ?thesis using u v by (simp add: rec_size_def mult.commute)
qed

text \<open>
  C13: one flush that nothing interrupts ends after at most two more resumptions than there are records, and
  sends exactly the records the session selects, once each and in order: their selected source values in
  little-endian form, behind headers with consecutive sequence numbers, every packet but the last full. A
  continuous session leaves the ring empty; a finite one sends no more than what remained, and stops the
  session when it has sent that much.
\<close>

theorem flush_sends_selected_records:
  assumes "nd_pc nd = AtTicker" "snapshot (nd_stream nd) = Some sn"
    and "t = rearm (nd_stream nd) (nd_task nd)" "task_ok sn t" "\<forall>r \<in> set (nd_records nd). record_ok r"
  shows "\<exists>mx k nd' gs. max_records sn = Some mx \<and> k \<le> length (nd_records nd) + 2
    \<and> drive k dropped nd = Some (nd', datagrams sn (su_seq t) dropped gs)
    \<and> concat gs = quota sn (su_remaining t) (nd_records nd)
    \<and> (\<forall>g \<in> set gs. g \<noteq> [] \<and> length g \<le> mx) \<and> (\<forall>g \<in> set (butlast gs). length g = mx)
    \<and> flush_ends sn (su_remaining t) nd nd'"
proof -
  let ?nd = "nd\<lparr>nd_task := t\<rparr>"
  have "session_ok sn" using assms(4) by (simp add: task_ok_def)
  then obtain mx where mx: "max_records sn = Some mx" by (rule max_records_Some)
  have "flushes sn mx dropped ?nd" using assms(4,5) mx by (intro flush_drive) simp_all
  then obtain nd1 d k nd' ds gs where f: "flush_from sn dropped ?nd = Some (nd1, d)" "k \<le> Suc (length (nd_records nd))"
    "drive k dropped nd1 = Some (nd', ds)" "(case d of None \<Rightarrow> ds | Some x \<Rightarrow> x # ds) = datagrams sn (su_seq t) dropped gs"
    "batches sn mx (su_remaining t) (nd_records nd) gs" "flush_ends sn (su_remaining t) ?nd nd'"
    unfolding flushes_def by auto
  have "drive (Suc k) dropped nd = Some (nd', datagrams sn (su_seq t) dropped gs)"
    using f(1,3,4) assms(1-3) by (simp add: stream_resume_def)
  moreover have "flush_ends sn (su_remaining t) nd nd'" using f(6) by (simp add: flush_ends_def)
  ultimately show ?thesis using f(2,5) mx unfolding batches_def
    by (intro exI [of _ mx] exI [of _ "Suc k"] exI [of _ nd'] exI [of _ gs]) simp
qed

text \<open>
  C7: in every interleaving with the control task and core 1, the streamer resumes without a panic (it
  never divides by an empty record, indexes past a record or counts below zero); what it sends is a stream
  packet whose header states its exact length, that fits an unfragmented datagram and holds at least one record; and a
  flush begins only while the session is enabled, with a control connection open, to the host that started it.
\<close>

theorem streamer_safe_in_every_interleaving:
  assumes "node_reach n nd k"
  shows "\<exists>nd' d. stream_resume dropped nd = Some (nd', d)
    \<and> (\<forall>ep p. d = Some (ep, p) \<longrightarrow>
         (\<exists>h. stream_header_decode p = Some h \<and> sh_n_records h \<noteq> 0 \<and> sh_n_sources h \<noteq> 0
            \<and> length p = STREAM_HEADER_LEN + 4 * unat (sh_n_sources h) * unat (sh_n_records h) \<and> length p \<le> MAX_PACKET)
         \<and> (nd_pc nd = AtTicker \<longrightarrow> ss_enabled (nd_stream nd) \<and> ss_control_connected (nd_stream nd)
              \<and> ss_target (nd_stream nd) = Some ep))"
proof -
  have inv: "node_inv n nd k" by (rule node_reach_inv [OF assms])
  then have so: "stream_ok n (nd_stream nd)" by (simp add: node_inv_def)
  obtain nd' d where r: "stream_resume dropped nd = Some (nd', d)"
    "\<forall>ep p. d = Some (ep, p) \<longrightarrow> (\<exists>sn ys mx. session_ok sn \<and> ys \<noteq> [] \<and> length ys \<le> mx \<and> max_records sn = Some mx
          \<and> ep = sn_endpoint sn \<and> p = packet_image sn (su_seq (if nd_pc nd = AtTicker then rearm (nd_stream nd) (nd_task nd) else nd_task nd)) dropped ys
          \<and> (case nd_pc nd of AtTicker \<Rightarrow> snapshot (nd_stream nd) = Some sn | AtSend sn' m \<Rightarrow> sn = sn'))"
    using node_resumes [OF inv, of dropped] unfolding resumes_def by blast
  have "(\<exists>h. stream_header_decode p = Some h \<and> sh_n_records h \<noteq> 0 \<and> sh_n_sources h \<noteq> 0
            \<and> length p = STREAM_HEADER_LEN + 4 * unat (sh_n_sources h) * unat (sh_n_records h) \<and> length p \<le> MAX_PACKET)
         \<and> (nd_pc nd = AtTicker \<longrightarrow> ss_enabled (nd_stream nd) \<and> ss_control_connected (nd_stream nd)
              \<and> ss_target (nd_stream nd) = Some ep)" if "d = Some (ep, p)" for ep p
  proof -
    obtain sn ys mx seq where s: "session_ok sn" "ys \<noteq> []" "length ys \<le> mx" "max_records sn = Some mx"
      "ep = sn_endpoint sn" "p = packet_image sn seq dropped ys"
      "nd_pc nd = AtTicker \<Longrightarrow> snapshot (nd_stream nd) = Some sn"
      using r(2) \<open>d = Some (ep, p)\<close> by fastforce
    obtain h where h: "stream_header_decode p = Some h" "unat (sh_n_sources h) = length (sn_sources sn)"
      "unat (sh_n_records h) = length ys"
      "length p = STREAM_HEADER_LEN + 4 * unat (sh_n_sources h) * unat (sh_n_records h)" "length p \<le> MAX_PACKET"
      using packet_image_decode [OF s(1-4)] s(6) by blast
    have "sh_n_records h \<noteq> 0" "sh_n_sources h \<noteq> 0" using h(2,3) s(1,2) by (auto simp: session_ok_def)
    with h(1,4,5) show ?thesis using snapshot_ok(3-5) [OF so s(7)] s(5) by blast
  qed
  with r(1) show ?thesis by blast
qed

text \<open>
  A finite capture whose last packet is being sent stops whatever session is current when the send
  completes: a session that the host set up and started during that send is stopped as well, before any
  of its records are sent.
\<close>

lemma late_stop_hits_new_session:
  assumes "nd_pc nd = AtSend sn m" "sn_count sn \<noteq> 0" "su_remaining (nd_task nd) = 0" "ss_sources (nd_stream nd) \<noteq> []"
    and "nd1 = nd\<lparr>nd_stream := fst (stream_start addr port (nd_stream nd))\<rparr>"
  shows "ss_enabled (nd_stream nd1) \<and> ss_generation (nd_stream nd1) = ss_generation (nd_stream nd) + 1
    \<and> (\<exists>nd2. stream_resume dropped nd1 = Some (nd2, None) \<and> \<not> ss_enabled (nd_stream nd2))"
  using assms
  by (auto simp: stream_start_def stream_resume_def after_send_def stream_stop_def)


text \<open>A host that sets up two sources and starts; core 1 pushes two records.\<close>

definition demo_session :: StreamState where
  "demo_session = \<lparr>ss_target = Some (7, 9000), ss_enabled = True, ss_sources = [0, 2], ss_decimation = 1, ss_count = 0,
     ss_generation = 1, ss_control_connected = True\<rparr>"

definition demo_record :: "u32 \<Rightarrow> Record" where
  "demo_record i = \<lparr>re_index = i, re_n = 3, re_values = replicate MAX_STREAM_SOURCES f32_1\<rparr>"

definition demo_node :: stream_node where
  "demo_node = node_start\<lparr>nd_stream := demo_session, nd_records := [demo_record 4, demo_record 5]\<rparr>"

lemma demo_node_reach: "node_reach 8 demo_node 1"
proof -
  let ?s1 = "stream_connected stream_initial"
  let ?s2 = "fst (handle_stream_setup 8 [1, 0, 0, 0, 0, 0, 2, 0, 2] ?s1)"
  have s2: "?s2 = stream_initial\<lparr>ss_control_connected := True, ss_sources := [0, 2], ss_decimation := 1, ss_count := 0\<rparr>"
    by (simp add: handle_stream_setup_def stream_setup_def stream_connected_def stream_initial_def Let_def subslice_def
        MAX_STREAM_SOURCES_def u16_from_le_def u32_from_le_def)
  have s3: "handle_stream_start (Some 7) [0x28, 0x23] ?s2 = (demo_session, Inr 0)"
    unfolding s2
    by (simp add: handle_stream_start_def stream_start_def stream_initial_def demo_session_def u16_from_le_def)
  have r: "record_ok (demo_record i)" for i by (simp add: record_ok_def demo_record_def MAX_STREAM_SOURCES_def)
  have c: "node_reach 8 (node_start\<lparr>nd_stream := ?s1\<rparr>) 0" using connect [OF boot] by (simp add: node_start_def)
  have d: "node_reach 8 (node_start\<lparr>nd_stream := ?s2\<rparr>) 0" using configured [OF c, of "[1, 0, 0, 0, 0, 0, 2, 0, 2]"] by (simp add: node_start_def)
  have e: "node_reach 8 (node_start\<lparr>nd_stream := demo_session\<rparr>) 1"
    using started [OF d, of "Some 7" "[0x28, 0x23]" demo_session] s3 by (simp add: node_start_def)
  from push [OF push [OF e r [of 4]] r [of 5]] show ?thesis
    by (simp add: demo_node_def node_start_def enqueue_def RECORD_QUEUE_LEN_def)
qed

theorem streamer_safe_in_every_interleaving_witness:
  "\<exists>nd' d. stream_resume 0 demo_node = Some (nd', d)"
  using streamer_safe_in_every_interleaving [OF demo_node_reach, of 0] by blast

theorem flush_sends_selected_records_witness:
  "\<exists>sn k nd' gs. drive k 0 demo_node = Some (nd', datagrams sn 0 0 gs) \<and> concat gs = [demo_record 4, demo_record 5]
     \<and> nd_pc nd' = AtTicker \<and> nd_records nd' = []"
proof -
  let ?sn = "\<lparr>sn_endpoint = (7, 9000), sn_sources = [0, 2], sn_decimation = 1, sn_count = 0\<rparr>"
  let ?t = "rearm demo_session streamer_new"
  have p: "nd_pc demo_node = AtTicker" "nd_stream demo_node = demo_session" "nd_task demo_node = streamer_new"
    "nd_records demo_node = [demo_record 4, demo_record 5]"
    by (simp_all add: demo_node_def node_start_def)
  have s: "snapshot demo_session = Some ?sn" by (simp add: snapshot_def demo_session_def)
  have t: "task_ok ?sn ?t" "su_seq ?t = 0"
    by (simp_all add: task_ok_def session_ok_def rearm_def demo_session_def streamer_new_def Let_def MAX_STREAM_SOURCES_def)
  have r: "\<forall>r \<in> set (nd_records demo_node). record_ok r"
    by (simp add: p record_ok_def demo_record_def MAX_STREAM_SOURCES_def)
  have q: "quota ?sn x [demo_record 4, demo_record 5] = [demo_record 4, demo_record 5]" for x
    by (simp add: quota_def selected_def)
  from flush_sends_selected_records [OF p(1), of ?sn ?t 0] s t r p show ?thesis
    by (auto simp: q flush_ends_def)
qed

end
