(* ===== verification/Drivers.thy ===== *)
theory Drivers
  imports Float32
begin

text \<open>
  The peripheral drivers of \<open>helic-drivers\<close>: the AD5064 DAC, the AD7609 ADC, SSI encoder words, PWM
  outputs and the optoNCDT laser stream. The \<open>embedded-hal\<close> bus, pins and delays are not in the
  repository: an operation that uses them takes them as functions on a hardware state \<open>'h\<close>.
\<close>

subsection \<open>AD5064 (ad5064.rs)\<close>

definition AD5064_CHANNELS :: nat where "AD5064_CHANNELS = 4"
definition WORD_SETTLE_US :: u32 where "WORD_SETTLE_US = 3"

datatype Ad5064Command = WriteInputReg | UpdateDacReg | WriteInputRegUpdateAll | WriteAndUpdate
  | PowerUpDown | LdacMaskReg | SoftwareReset | DaisyChainDisable

fun ad5064_command_u8 :: "Ad5064Command \<Rightarrow> u8" where
  "ad5064_command_u8 WriteInputReg = 0"
| "ad5064_command_u8 UpdateDacReg = 1"
| "ad5064_command_u8 WriteInputRegUpdateAll = 2"
| "ad5064_command_u8 WriteAndUpdate = 3"
| "ad5064_command_u8 PowerUpDown = 4"
| "ad5064_command_u8 LdacMaskReg = 5"
| "ad5064_command_u8 SoftwareReset = 6"
| "ad5064_command_u8 DaisyChainDisable = 8"

definition ad5064_frame :: "Ad5064Command \<Rightarrow> u8 \<Rightarrow> u16 \<Rightarrow> bytes" where
  "ad5064_frame command channel data =
     [ad5064_command_u8 command,
      push_bit 4 channel OR ucast (drop_bit 12 data),
      ucast (drop_bit 4 data),
      ucast (push_bit 4 data)]"

datatype ChannelPolarity = Unipolar | Bipolar

text \<open>The clamp limits 0 and 1 are ordered, so \<open>f32::clamp\<close> does not panic (\<open>code_clamp_total\<close>).\<close>

definition code_for_volts :: "f32 \<Rightarrow> ChannelPolarity \<Rightarrow> f32 \<Rightarrow> u16" where
  "code_for_volts volts polarity vref =
     (let volts = (if is_finite volts then volts else f32_0);
          normalized = (case polarity of
              Unipolar \<Rightarrow> f32_div volts vref
            | Bipolar \<Rightarrow> f32_div (f32_add volts vref) (f32_mul (f32_lit 2 1) vref))
      in case f32_clamp normalized f32_0 f32_1 of
           None \<Rightarrow> 0
         | Some clamped \<Rightarrow> f32_to_u16 (f32_add (f32_mul clamped (f32_lit 65535 1)) (f32_lit 1 2)))"

record Ad5064 =
  ad_polarity :: "ChannelPolarity list"
  ad_vref :: f32

definition write_code ::
  "(bytes \<Rightarrow> 'h \<Rightarrow> 'h \<times> ('e + unit)) \<Rightarrow> nat \<Rightarrow> u16 \<Rightarrow> 'h \<Rightarrow> 'h \<times> ('e + unit)" where
  "write_code spi channel code h = spi (ad5064_frame WriteAndUpdate (of_nat channel) code) h"

text \<open>\<open>self.polarity[channel]\<close> panics out of range: \<open>None\<close>.\<close>

definition write_volts ::
  "(bytes \<Rightarrow> 'h \<Rightarrow> 'h \<times> ('e + unit)) \<Rightarrow> Ad5064 \<Rightarrow> nat \<Rightarrow> f32 \<Rightarrow> 'h \<Rightarrow> ('h \<times> ('e + unit)) option" where
  "write_volts spi d channel volts h =
     (case get_at (ad_polarity d) channel of
        None \<Rightarrow> None
      | Some polarity \<Rightarrow> Some (write_code spi channel (code_for_volts volts polarity (ad_vref d)) h))"

text \<open>Setpoints in order, a delay between two words; an error ends the batch.\<close>

fun write_volts_with_delay ::
  "(bytes \<Rightarrow> 'h \<Rightarrow> 'h \<times> ('e + unit)) \<Rightarrow> (u32 \<Rightarrow> 'h \<Rightarrow> 'h) \<Rightarrow> Ad5064 \<Rightarrow> (nat \<times> f32) list \<Rightarrow> 'h
     \<Rightarrow> ('h \<times> ('e + unit)) option" where
  "write_volts_with_delay spi delay d [] h = Some (h, Inr ())"
| "write_volts_with_delay spi delay d ((channel, volts) # rest) h =
     (case write_volts spi d channel volts h of
        None \<Rightarrow> None
      | Some (h1, Inl e) \<Rightarrow> Some (h1, Inl e)
      | Some (h1, Inr _) \<Rightarrow>
          write_volts_with_delay spi delay d rest (if rest = [] then h1 else delay WORD_SETTLE_US h1))"

fun zero_channels ::
  "(bytes \<Rightarrow> 'h \<Rightarrow> 'h \<times> ('e + unit)) \<Rightarrow> Ad5064 \<Rightarrow> nat list \<Rightarrow> 'h \<Rightarrow> ('h \<times> ('e + unit)) option" where
  "zero_channels spi d [] h = Some (h, Inr ())"
| "zero_channels spi d (ch # rest) h =
     (case write_volts spi d ch f32_0 h of
        None \<Rightarrow> None
      | Some (h1, Inl e) \<Rightarrow> Some (h1, Inl e)
      | Some (h1, Inr _) \<Rightarrow> zero_channels spi d rest h1)"

definition zero_all ::
  "(bytes \<Rightarrow> 'h \<Rightarrow> 'h \<times> ('e + unit)) \<Rightarrow> Ad5064 \<Rightarrow> 'h \<Rightarrow> ('h \<times> ('e + unit)) option" where
  "zero_all spi d h = zero_channels spi d [0..<AD5064_CHANNELS] h"

definition zero_all_with_delay ::
  "(bytes \<Rightarrow> 'h \<Rightarrow> 'h \<times> ('e + unit)) \<Rightarrow> (u32 \<Rightarrow> 'h \<Rightarrow> 'h) \<Rightarrow> Ad5064 \<Rightarrow> 'h \<Rightarrow> ('h \<times> ('e + unit)) option" where
  "zero_all_with_delay spi delay d h =
     write_volts_with_delay spi delay d (map (\<lambda>ch. (ch, f32_0)) [0..<AD5064_CHANNELS]) h"

subsection \<open>AD7609 (ad7609.rs)\<close>

definition AD7609_CHANNELS :: nat where "AD7609_CHANNELS = 8"
definition AD7609_BITS :: nat where "AD7609_BITS = 18"

datatype InputRange = Bipolar10V | Bipolar20V

fun range_fsr :: "InputRange \<Rightarrow> f32" where
  "range_fsr Bipolar10V = f32_lit 20 1"
| "range_fsr Bipolar20V = f32_lit 40 1"

definition range_scale :: "InputRange \<Rightarrow> f32" where
  "range_scale r = f32_div (range_fsr r) (f32_of_int (2 ^ AD7609_BITS))"

fun range_pin_high :: "InputRange \<Rightarrow> bool" where
  "range_pin_high Bipolar10V = False"
| "range_pin_high Bipolar20V = True"

datatype Oversampling = Os1 | Os2 | Os4 | Os8 | Os16 | Os32 | Os64

fun oversampling_u8 :: "Oversampling \<Rightarrow> u8" where
  "oversampling_u8 Os1 = 0"
| "oversampling_u8 Os2 = 1"
| "oversampling_u8 Os4 = 2"
| "oversampling_u8 Os8 = 3"
| "oversampling_u8 Os16 = 4"
| "oversampling_u8 Os32 = 5"
| "oversampling_u8 Os64 = 6"

definition for_sample_rate :: "f32 \<Rightarrow> Oversampling" where
  "for_sample_rate fs =
     (if f32_lt (f32_lit 13700 1) fs then Os2
      else if f32_lt (f32_lit 10300 1) fs then Os4
      else if f32_lt (f32_lit 6000 1) fs then Os8
      else if f32_lt (f32_lit 3000 1) fs then Os16
      else if f32_lt (f32_lit 1500 1) fs then Os32
      else Os64)"

text \<open>The bit loop of one channel, then the sign extension of its 18 bits.\<close>

definition frame_bit :: "bytes \<Rightarrow> nat \<Rightarrow> u32" where
  "frame_bit raw bit_idx = ucast (drop_bit (7 - bit_idx mod 8) (raw ! (bit_idx div 8)) AND 1)"

definition channel_acc :: "bytes \<Rightarrow> nat \<Rightarrow> u32" where
  "channel_acc raw ch =
     foldl (\<lambda>acc bit_idx. push_bit 1 acc OR frame_bit raw bit_idx) 0 [ch * 18..<(ch + 1) * 18]"

definition sign_extend_18 :: "u32 \<Rightarrow> 32 word" where
  "sign_extend_18 acc = signed_drop_bit 14 (push_bit 14 acc)"

definition decode_frame :: "bytes \<Rightarrow> int list" where
  "decode_frame raw = map (\<lambda>ch. sint (sign_extend_18 (channel_acc raw ch))) [0..<AD7609_CHANNELS]"

datatype Ad7609Pin = PinOs0 | PinOs1 | PinOs2 | PinRange | PinReset

record Ad7609 =
  a7_range :: InputRange

definition ad7609_new :: Ad7609 where "ad7609_new = \<lparr>a7_range = Bipolar10V\<rparr>"

definition set_range ::
  "(Ad7609Pin \<Rightarrow> bool \<Rightarrow> 'h \<Rightarrow> 'h) \<Rightarrow> InputRange \<Rightarrow> Ad7609 \<times> 'h \<Rightarrow> Ad7609 \<times> 'h" where
  "set_range pin rg dh = (case dh of (d, h) \<Rightarrow> (d\<lparr>a7_range := rg\<rparr>, pin PinRange (range_pin_high rg) h))"

definition set_oversampling :: "(Ad7609Pin \<Rightarrow> bool \<Rightarrow> 'h \<Rightarrow> 'h) \<Rightarrow> Oversampling \<Rightarrow> 'h \<Rightarrow> 'h" where
  "set_oversampling pin os h =
     (let bits = oversampling_u8 os
      in pin PinOs2 (bits AND 4 \<noteq> 0) (pin PinOs1 (bits AND 2 \<noteq> 0) (pin PinOs0 (bits AND 1 \<noteq> 0) h)))"

definition ad7609_init ::
  "(Ad7609Pin \<Rightarrow> bool \<Rightarrow> 'h \<Rightarrow> 'h) \<Rightarrow> (u32 \<Rightarrow> 'h \<Rightarrow> 'h) \<Rightarrow> InputRange \<Rightarrow> Oversampling \<Rightarrow> Ad7609 \<times> 'h \<Rightarrow> Ad7609 \<times> 'h" where
  "ad7609_init pin delay rg os dh =
     (let (d, h) = set_range pin rg dh
      in (d, delay 1 (pin PinReset False (delay 1 (pin PinReset True (set_oversampling pin os h))))))"

definition ad7609_scale :: "Ad7609 \<Rightarrow> f32" where
  "ad7609_scale d = range_scale (a7_range d)"

definition read_frame ::
  "(nat \<Rightarrow> 'h \<Rightarrow> 'h \<times> ('e + bytes)) \<Rightarrow> 'h \<Rightarrow> 'h \<times> ('e + int list)" where
  "read_frame spi_read h = (case spi_read 18 h of (h1, r) \<Rightarrow> (h1, try_bind r (\<lambda>raw. Inr (decode_frame raw))))"

subsection \<open>SSI words (ssi.rs)\<close>

datatype SsiError = InvalidFormat | InvalidWord

record SsiFormat =
  ssi_bits :: u8
  ssi_gray :: bool

definition ssi_mask :: "u8 \<Rightarrow> u32" where
  "ssi_mask bits = (if bits = 32 then - 1 else push_bit (unat bits) 1 - 1)"

text \<open>\<open>while shift < 32 { binary ^= binary >> shift; shift <<= 1 }\<close>.\<close>

function gray_loop :: "nat \<Rightarrow> u32 \<Rightarrow> u32" where
  "gray_loop shift binary =
     (if 0 < shift \<and> shift < 32 then gray_loop (2 * shift) (binary XOR drop_bit shift binary) else binary)"
  by pat_completeness auto
termination
  by (relation "measure (\<lambda>(shift, _). 32 - shift)") auto

declare gray_loop.simps [simp del]

definition ssi_decode :: "SsiFormat \<Rightarrow> u32 \<Rightarrow> SsiError + u32" where
  "ssi_decode f raw =
     (if \<not> (1 \<le> ssi_bits f \<and> ssi_bits f \<le> 32) then Inl InvalidFormat
      else
        let mask = ssi_mask (ssi_bits f)
        in if raw AND NOT mask \<noteq> 0 then Inl InvalidWord
           else if \<not> ssi_gray f then Inr raw
           else Inr (gray_loop 1 raw AND mask))"

definition deinterleave_pair :: "u32 \<Rightarrow> u8 \<Rightarrow> SsiError + u32 list" where
  "deinterleave_pair raw bits =
     (if \<not> (1 \<le> bits \<and> bits \<le> 16) then Inl InvalidFormat
      else
        let used = 2 * unat bits
        in if used < 32 \<and> drop_bit used raw \<noteq> 0 then Inl InvalidWord
           else Inr (foldl (\<lambda>words b.
                    [words ! 0 OR push_bit b (drop_bit (2 * b) raw AND 1),
                     words ! 1 OR push_bit b (drop_bit (2 * b + 1) raw AND 1)])
                  [0, 0] [0..<unat bits]))"

text \<open>A zero \<open>counts_per_rev\<close> makes the remainder panic: \<open>None\<close>.\<close>

definition ssi_position :: "u32 \<Rightarrow> u32 \<Rightarrow> f32 option" where
  "ssi_position counts_per_rev counts =
     (if counts_per_rev = 0 then None
      else Some (f32_div (f32_of_word (counts mod counts_per_rev)) (f32_of_word counts_per_rev)))"

subsection \<open>PWM outputs (pwm_out.rs)\<close>

text \<open>The clamp limits 0 and 1 are ordered, so the clamp does not panic.\<close>

definition duty_for_volts :: "f32 \<Rightarrow> f32 \<Rightarrow> f32 \<Rightarrow> u16 \<Rightarrow> u16" where
  "duty_for_volts volts v_min v_max max_duty =
     (let volts = (if is_finite volts then volts else f32_0)
      in case f32_clamp (f32_div (f32_sub volts v_min) (f32_sub v_max v_min)) f32_0 f32_1 of
           None \<Rightarrow> 0
         | Some normalized \<Rightarrow>
             f32_to_u16 (f32_add (f32_mul normalized (f32_of_int (uint max_duty))) (f32_lit 1 2)))"

record PwmOut =
  pw_max_duty :: "u16 list"
  pw_v_min :: f32
  pw_v_max :: f32

definition pwm_new :: "u16 list \<Rightarrow> f32 \<Rightarrow> f32 \<Rightarrow> PwmOut option" where
  "pwm_new channels v_min v_max =
     (if is_finite v_min \<and> is_finite v_max \<and> f32_lt v_min v_max
      then Some \<lparr>pw_max_duty = channels, pw_v_min = v_min, pw_v_max = v_max\<rparr> else None)"

definition pwm_write_volts ::
  "(nat \<Rightarrow> u16 \<Rightarrow> 'h \<Rightarrow> 'h \<times> ('e + unit)) \<Rightarrow> PwmOut \<Rightarrow> nat \<Rightarrow> f32 \<Rightarrow> 'h \<Rightarrow> ('h \<times> ('e + unit)) option" where
  "pwm_write_volts set_duty p channel volts h =
     (case get_at (pw_max_duty p) channel of
        None \<Rightarrow> None
      | Some max_duty \<Rightarrow> Some (set_duty channel (duty_for_volts volts (pw_v_min p) (pw_v_max p) max_duty) h))"

fun pwm_zero_channels ::
  "(nat \<Rightarrow> u16 \<Rightarrow> 'h \<Rightarrow> 'h \<times> ('e + unit)) \<Rightarrow> PwmOut \<Rightarrow> nat list \<Rightarrow> 'h \<Rightarrow> ('h \<times> ('e + unit)) option" where
  "pwm_zero_channels set_duty p [] h = Some (h, Inr ())"
| "pwm_zero_channels set_duty p (channel # rest) h =
     (case pwm_write_volts set_duty p channel f32_0 h of
        None \<Rightarrow> None
      | Some (h1, Inl e) \<Rightarrow> Some (h1, Inl e)
      | Some (h1, Inr _) \<Rightarrow> pwm_zero_channels set_duty p rest h1)"

definition pwm_zero_all ::
  "(nat \<Rightarrow> u16 \<Rightarrow> 'h \<Rightarrow> 'h \<times> ('e + unit)) \<Rightarrow> PwmOut \<Rightarrow> 'h \<Rightarrow> ('h \<times> ('e + unit)) option" where
  "pwm_zero_all set_duty p h = pwm_zero_channels set_duty p [0..<length (pw_max_duty p)] h"

definition pwm_code_duty :: "u16 \<Rightarrow> u16 \<Rightarrow> u32" where
  "pwm_code_duty code max_duty = (ucast code * ucast max_duty + 65535 div 2) div 65535"

definition pwm_write ::
  "(nat \<Rightarrow> u16 \<Rightarrow> 'h \<Rightarrow> 'h \<times> ('e + unit)) \<Rightarrow> PwmOut \<Rightarrow> nat \<Rightarrow> u16 \<Rightarrow> 'h \<Rightarrow> ('h \<times> ('e + unit)) option" where
  "pwm_write set_duty p channel code h =
     (case get_at (pw_max_duty p) channel of
        None \<Rightarrow> None
      | Some max_duty \<Rightarrow> Some (set_duty channel (ucast (pwm_code_duty code max_duty)) h))"

subsection \<open>optoNCDT stream (optoncdt.rs)\<close>

record RawValue =
  rv_value :: u32
  rv_first :: bool

datatype ParseEvent = Pending | Value RawValue | Resynchronised

datatype CommandReply = ReplyOk | ReplyError u16

record CommandReplyParser =
  cp_previous :: u8
  cp_window :: u32
  cp_error :: "u16 option"

definition reply_parser_new :: CommandReplyParser where
  "reply_parser_new = \<lparr>cp_previous = 0, cp_window = 0, cp_error = None\<rparr>"

definition is_ascii_digit :: "u8 \<Rightarrow> bool" where
  "is_ascii_digit b \<longleftrightarrow> 48 \<le> b \<and> b \<le> 57"

definition reply_push :: "u8 \<Rightarrow> CommandReplyParser \<Rightarrow> CommandReplyParser \<times> CommandReply option" where
  "reply_push byte p =
     (let window = push_bit 8 (cp_window p) OR ucast byte;
          b0 = ucast (drop_bit 24 window) :: u8; b1 = ucast (drop_bit 16 window) :: u8;
          b2 = ucast (drop_bit 8 window) :: u8; b3 = ucast window :: u8;
          error = (if b0 = 69 \<and> is_ascii_digit b1 \<and> is_ascii_digit b2 \<and> is_ascii_digit b3
                   then Some (ucast (b1 - 48) * 100 + ucast (b2 - 48) * 10 + ucast (b3 - 48))
                   else cp_error p);
          complete = (cp_previous p = 45 \<and> byte = 62)
      in (\<lparr>cp_previous = byte, cp_window = window, cp_error = error\<rparr>,
          if complete then Some (case error of Some code \<Rightarrow> ReplyError code | None \<Rightarrow> ReplyOk) else None))"

datatype Reading = InRange f32 | BelowRange | AboveRange | ReadingError u16

record Parser =
  pr_acc :: u32
  pr_stage :: u8

definition parser_new :: Parser where "parser_new = \<lparr>pr_acc = 0, pr_stage = 0\<rparr>"

definition push_event :: "u8 \<Rightarrow> Parser \<Rightarrow> Parser \<times> ParseEvent" where
  "push_event byte p =
     (let flags = drop_bit 6 byte; data = ucast (byte AND 0x3F) :: u32
      in if pr_stage p = 0 \<and> flags = 0 then (p\<lparr>pr_acc := data, pr_stage := 1\<rparr>, Pending)
         else if pr_stage p = 1 \<and> flags = 1
         then (p\<lparr>pr_acc := pr_acc p OR push_bit 6 data, pr_stage := 2\<rparr>, Pending)
         else if pr_stage p = 2 \<and> (flags = 2 \<or> flags = 3)
         then (p\<lparr>pr_stage := 0\<rparr>,
               Value \<lparr>rv_value = pr_acc p OR push_bit 12 data, rv_first = (flags = 2)\<rparr>)
         else if flags = 0 then (p\<lparr>pr_acc := data, pr_stage := 1\<rparr>, Resynchronised)
         else (p\<lparr>pr_stage := 0\<rparr>, Resynchronised))"

definition parser_push :: "u8 \<Rightarrow> Parser \<Rightarrow> Parser \<times> RawValue option" where
  "parser_push byte p =
     (case push_event byte p of
        (p', Value v) \<Rightarrow> (p', Some v)
      | (p', _) \<Rightarrow> (p', None))"

definition SPAN_LO :: u16 where "SPAN_LO = 643"
definition SPAN_HI :: u16 where "SPAN_HI = 64887"
definition ERROR_FLOOR :: u16 where "ERROR_FLOOR = 65520"

definition scale_mm :: "f32 \<Rightarrow> u16 \<Rightarrow> f32" where
  "scale_mm measuring_range_mm x =
     f32_mul (f32_sub (f32_mul (f32_of_int (uint x))
                        (f32_div (f32_lit 102 1) (f32_mul (f32_lit 100 1) (f32_lit 65520 1))))
                (f32_lit 1 100))
       measuring_range_mm"

definition scale_convert :: "f32 \<Rightarrow> u32 \<Rightarrow> Reading" where
  "scale_convert measuring_range_mm raw =
     (let x = ucast (raw AND 0xFFFF) :: u16
      in if x > ERROR_FLOOR then ReadingError x
         else if x < SPAN_LO then BelowRange
         else if x > SPAN_HI then AboveRange
         else InRange (scale_mm measuring_range_mm x))"

subsection \<open>Gray code\<close>

lemma gray_loop_unfold:
  "gray_loop 1 x = (let x1 = x XOR drop_bit 1 x; x2 = x1 XOR drop_bit 2 x1; x3 = x2 XOR drop_bit 4 x2;
     x4 = x3 XOR drop_bit 8 x3 in x4 XOR drop_bit 16 x4)"
  by (simp add: gray_loop.simps Let_def)

text \<open>Twice the step with shift \<open>k\<close> is the step with shift \<open>2 k\<close>.\<close>

lemma xor_shift_twice:
  fixes x :: "'a::len word"
  shows "(x XOR drop_bit k x) XOR drop_bit k (x XOR drop_bit k x) = x XOR drop_bit (2 * k) x"
  by (rule bit_word_eqI) (auto simp: bit_simps mult_2 add.assoc)

lemma gray_loop_decodes: "gray_loop 1 (v XOR drop_bit 1 v) = v"
proof -
  have 16: "v XOR drop_bit 32 v = v" by (rule bit_word_eqI) (auto simp: bit_simps dest: bit_imp_le_length)
  show ?thesis
    unfolding gray_loop_unfold Let_def
    using xor_shift_twice [of v 1] xor_shift_twice [of v 2] xor_shift_twice [of v 4] xor_shift_twice [of v 8]
      xor_shift_twice [of v 16] 16 by simp
qed

lemma ssi_mask_mask: "1 \<le> bits \<Longrightarrow> bits \<le> 32 \<Longrightarrow> ssi_mask bits = mask (unat bits)"
  by (auto simp: ssi_mask_def mask_eq_decr_exp)

text \<open>
  Decoding the Gray code of any value that fits the word length of an SSI encoder (1 to 32 bits)
  returns that value, and a word with a bit set beyond the word length is refused.
\<close>

theorem ssi_gray_roundtrip:
  assumes "1 \<le> bits" "bits \<le> 32"
  shows "(if v AND NOT (mask (unat bits)) = 0
      then ssi_decode \<lparr>ssi_bits = bits, ssi_gray = True\<rparr> (v XOR drop_bit 1 v) = Inr v
      else ssi_decode \<lparr>ssi_bits = bits, ssi_gray = True\<rparr> v = Inl InvalidWord)"
proof (cases "v AND NOT (mask (unat bits)) = 0")
  case True
  then have b: "bit v n \<Longrightarrow> n < unat bits" for n
    by (metis bit_and_iff bit_mask_iff bit_not_iff bit_0_eq bit_imp_le_length bot_apply bot_bool_def
        possible_bit_def possible_bit_word)
  then have g: "(v XOR drop_bit 1 v) AND NOT (mask (unat bits)) = 0"
    by (intro bit_word_eqI) (auto simp: bit_simps dest: b)
  have "v AND mask (unat bits) = v" using b by (intro bit_word_eqI) (auto simp: bit_simps)
  then show ?thesis using assms True g
    using gray_loop_decodes [of v] by (simp add: ssi_decode_def ssi_mask_mask)
next
  case False
  then show ?thesis using assms by (simp add: ssi_decode_def ssi_mask_mask)
qed

theorem ssi_gray_roundtrip_witness:
  "ssi_decode \<lparr>ssi_bits = 12, ssi_gray = True\<rparr> (2748 XOR drop_bit 1 2748) = Inr 2748"
  using ssi_gray_roundtrip [of 12 2748] by (simp add: mask_eq_decr_exp)

subsection \<open>The laser stream resynchronises\<close>

definition opto_bytes :: "u32 \<Rightarrow> bool \<Rightarrow> bytes" where
  "opto_bytes v first = [ucast (v AND 0x3F), 0x40 OR ucast (drop_bit 6 v AND 0x3F),
     (if first then 0x80 else 0xC0) OR ucast (drop_bit 12 v AND 0x3F)]"

fun parser_run :: "bytes \<Rightarrow> Parser \<Rightarrow> Parser \<times> ParseEvent list" where
  "parser_run [] p = (p, [])"
| "parser_run (b # bs) p =
     (let (p1, e) = push_event b p; (p2, es) = parser_run bs p1 in (p2, e # es))"

lemma opto_flag_bits:
  "bit (0x3F :: u8) n \<longleftrightarrow> n < 6" "bit (0x3F :: u32) n \<longleftrightarrow> n < 6" "bit (0x40 :: u8) n \<longleftrightarrow> n = 6"
  "bit (0x80 :: u8) n \<longleftrightarrow> n = 7" "bit (0xC0 :: u8) n \<longleftrightarrow> n = 6 \<or> n = 7"
  "bit (2 :: u8) n \<longleftrightarrow> n = 1" "bit (3 :: u8) n \<longleftrightarrow> n = 0 \<or> n = 1"
proof -
  have "(0x3F :: u8) = mask 6" "(0x3F :: u32) = mask 6" "(0x40 :: u8) = push_bit 6 1"
    "(0x80 :: u8) = push_bit 7 1" "(0xC0 :: u8) = push_bit 6 (mask 2)" "(2 :: u8) = push_bit 1 1" "(3 :: u8) = mask 2"
    by (simp_all add: mask_eq_decr_exp)
  note e = this
  show "bit (0x3F :: u8) n \<longleftrightarrow> n < 6" "bit (0x3F :: u32) n \<longleftrightarrow> n < 6"
    unfolding e(1,2) by (simp_all only: bit_mask_iff possible_bit_word) auto
  show "bit (0x40 :: u8) n \<longleftrightarrow> n = 6" "bit (0x80 :: u8) n \<longleftrightarrow> n = 7" "bit (0xC0 :: u8) n \<longleftrightarrow> n = 6 \<or> n = 7"
    "bit (2 :: u8) n \<longleftrightarrow> n = 1" "bit (3 :: u8) n \<longleftrightarrow> n = 0 \<or> n = 1"
    unfolding e by (simp_all only: bit_push_bit_iff bit_1_iff bit_mask_iff possible_bit_word) auto
qed

lemma six_bits:
  fixes x :: u32
  shows "drop_bit 6 (ucast (x AND 0x3F) :: u8) = 0" "drop_bit 6 (0x40 OR ucast (x AND 0x3F) :: u8) = 1"
    "drop_bit 6 (0x80 OR ucast (x AND 0x3F) :: u8) = 2" "drop_bit 6 (0xC0 OR ucast (x AND 0x3F) :: u8) = 3"
    "ucast ((ucast (x AND 0x3F) :: u8) AND 0x3F) = x AND 0x3F"
    "ucast ((0x40 OR ucast (x AND 0x3F) :: u8) AND 0x3F) = x AND 0x3F"
    "ucast ((0x80 OR ucast (x AND 0x3F) :: u8) AND 0x3F) = x AND 0x3F"
    "ucast ((0xC0 OR ucast (x AND 0x3F) :: u8) AND 0x3F) = x AND 0x3F"
  by (intro bit_word_eqI;
      simp only: bit_drop_bit_eq bit_and_iff bit_or_iff bit_ucast_iff bit_0_eq bot_apply bit_1_iff opto_flag_bits
        comp_def possible_bit_word; auto)+

lemma join_18_bits:
  assumes "(v :: u32) < 2 ^ 18"
  shows "(v AND 0x3F) OR push_bit 6 (drop_bit 6 v AND 0x3F) OR push_bit 12 (drop_bit 12 v AND 0x3F) = v"
proof -
  have "take_bit 18 v = v" using assms
    by (simp only: word_uint_eq_iff unsigned_take_bit_eq) (simp add: take_bit_int_eq_self word_less_def)
  then have b: "bit v n \<Longrightarrow> n < 18" for n by (metis bit_take_bit_iff)
  show ?thesis
  proof (rule bit_word_eqI)
    fix n :: nat
    have "6 \<le> n \<Longrightarrow> 6 + (n - 6) = n" "12 \<le> n \<Longrightarrow> 12 + (n - 12) = n" by simp_all
    with b [of n] show "bit ((v AND 0x3F) OR push_bit 6 (drop_bit 6 v AND 0x3F) OR push_bit 12 (drop_bit 12 v AND 0x3F)) n
        = bit v n" if "n < LENGTH(32)"
      unfolding bit_and_iff bit_or_iff bit_push_bit_iff bit_drop_bit_eq opto_flag_bits comp_def possible_bit_word
      using that by (cases "n < 6"; cases "n < 12"; cases "n < 18") auto
  qed
qed
text \<open>
  From any parser state, whatever garbage or truncated value came before, the three bytes of a
  measurement yield that measurement and leave the parser ready for the next: a dropped byte costs at
  most the value it belonged to.
\<close>

theorem laser_stream_resynchronises:
  assumes "v < 2 ^ 18"
  shows "case parser_run (opto_bytes v first) p of (p', es) \<Rightarrow>
    length es = 3 \<and> es ! 2 = Value \<lparr>rv_value = v, rv_first = first\<rparr> \<and> es ! 1 = Pending \<and> pr_stage p' = 0"
  using join_18_bits [OF assms] six_bits
  by (cases first) (auto simp: opto_bytes_def push_event_def Let_def or.assoc)

theorem laser_stream_resynchronises_witness:
  "case parser_run (opto_bytes 12345 True) \<lparr>pr_acc = 99, pr_stage = 2\<rparr> of (p', es) \<Rightarrow>
    es ! 2 = Value \<lparr>rv_value = 12345, rv_first = True\<rparr>"
  using laser_stream_resynchronises [of 12345 True "\<lparr>pr_acc = 99, pr_stage = 2\<rparr>"] by (auto split: prod.splits)

subsection \<open>PWM duty stays within its period\<close>

lemma pwm_code_duty_bound: "pwm_code_duty code max_duty \<le> ucast max_duty"
proof -
  have c: "unat code \<le> 65535" "unat max_duty \<le> 65535"
    using unsigned_less [of code, where ?'a = nat] unsigned_less [of max_duty, where ?'a = nat] by simp_all
  then have m: "unat code * unat max_duty \<le> 65535 * unat max_duty" "65535 * unat max_duty \<le> 65535 * 65535"
    by simp_all
  have "unat code * unat max_duty + 32767 < 2 ^ 32"
    by (rule le_less_trans [OF add_right_mono [OF order_trans [OF m], of 32767]]) simp
  then have "unat (ucast code * ucast max_duty + 32767 :: u32) = unat code * unat max_duty + 32767"
    by (simp add: unat_word_ariths unat_ucast_up)
  then have "unat (pwm_code_duty code max_duty) = (unat code * unat max_duty + 32767) div 65535"
    by (simp add: pwm_code_duty_def unat_div)
  also have "\<dots> \<le> (65535 * unat max_duty + 32767) div 65535" using m(1) by (intro div_le_mono) simp
  also have "\<dots> = unat max_duty" by simp
  finally show ?thesis by (simp add: word_le_nat_alt unat_ucast_up)
qed

end
