(* ===== verification/Broker_Discovery.thy ===== *)
theory Broker_Discovery
  imports Proto_Payload Proto_Stream Float32
begin

text \<open>
  How the broker talks to the MCU and learns what it is: \<open>UpstreamControl::request\<close>, \<open>read_control_frame\<close> and the
  discovery functions of \<open>helic-broker/src/server.rs\<close>. A \<open>String\<close> is its UTF-8 bytes. The MCU behind
  the socket is a parameter: a state, and for each frame written the bytes that arrive before the
  timeout (\<open>None\<close> when writing fails or times out). An \<open>anyhow\<close> error is \<open>Fails\<close>, its message left out;
  a panic (an index or an addition out of range) is \<open>Panics\<close>.
\<close>

datatype 'a answer = Panics | Fails | Returns 'a

fun and_then :: "'a answer \<Rightarrow> ('a \<Rightarrow> 'b answer) \<Rightarrow> 'b answer" where
  "and_then Panics f = Panics"
| "and_then Fails f = Fails"
| "and_then (Returns x) f = f x"

lemma and_then_Returns_iff [simp]: "and_then r f = Returns y \<longleftrightarrow> (\<exists>x. r = Returns x \<and> f x = Returns y)"
  by (cases r) auto

subsection \<open>Strings from the wire\<close>

text \<open>\<open>std::str::from_utf8\<close> accepts well-formed UTF-8: no overlong form, no surrogate, at most U+10FFFF.\<close>

definition utf8_tail :: "u8 \<Rightarrow> bool" where "utf8_tail b \<longleftrightarrow> 0x80 \<le> b \<and> b \<le> 0xBF"

fun utf8_valid :: "bytes \<Rightarrow> bool" where
  "utf8_valid [] \<longleftrightarrow> True"
| "utf8_valid (a # rest) \<longleftrightarrow>
     (if a < 0x80 then utf8_valid rest
      else case rest of
             [] \<Rightarrow> False
           | b # rest1 \<Rightarrow>
               if 0xC2 \<le> a \<and> a \<le> 0xDF then utf8_tail b \<and> utf8_valid rest1
               else case rest1 of
                      [] \<Rightarrow> False
                    | c # rest2 \<Rightarrow>
                        if 0xE0 \<le> a \<and> a \<le> 0xEF
                        then utf8_tail b \<and> (a = 0xE0 \<longrightarrow> 0xA0 \<le> b) \<and> (a = 0xED \<longrightarrow> b \<le> 0x9F) \<and> utf8_tail c \<and> utf8_valid rest2
                        else case rest2 of
                               [] \<Rightarrow> False
                             | d # rest3 \<Rightarrow>
                                 0xF0 \<le> a \<and> a \<le> 0xF4 \<and> utf8_tail b \<and> (a = 0xF0 \<longrightarrow> 0x90 \<le> b) \<and> (a = 0xF4 \<longrightarrow> b \<le> 0x8F)
                                 \<and> utf8_tail c \<and> utf8_tail d \<and> utf8_valid rest3)"

definition from_utf8 :: "bytes \<Rightarrow> bytes answer" where
  "from_utf8 bs = (if utf8_valid bs then Returns bs else Fails)"

text \<open>\<open>iter().position(|byte| *byte == 0)\<close>.\<close>

definition position_nul :: "bytes \<Rightarrow> nat option" where
  "position_nul bs = (let n = length (takeWhile (\<lambda>b. b \<noteq> 0) bs) in if n < length bs then Some n else None)"

definition decode_nul_ascii :: "bytes \<Rightarrow> nat \<Rightarrow> (bytes \<times> nat) answer" where
  "decode_nul_ascii payload offset =
     (if offset > length payload then Panics
      else case position_nul (drop offset payload) of
             None \<Rightarrow> Fails
           | Some rel \<Rightarrow> and_then (from_utf8 (subslice payload offset (offset + rel))) (\<lambda>s. Returns (s, offset + rel + 1)))"

definition fixed_identity :: "bytes \<Rightarrow> bytes" where
  "fixed_identity text = (let n = min (length text) 16 in copy_at (replicate 16 0) 0 (take n text))"

subsection \<open>Requests to the MCU\<close>

record UpstreamControl =
  uc_unread :: bytes
  uc_sequence :: u8
  uc_generation :: u64
  uc_peer_ip :: u32
  uc_udp_port :: u16

record UpstreamResponse =
  ur_type :: u8
  ur_payload :: bytes

type_synonym 'm mcu = "'m \<Rightarrow> bytes \<Rightarrow> 'm \<times> bytes option"

text \<open>\<open>read_exact\<close> fails when the bytes do not come; what follows the frame stays unread.\<close>

definition read_control_frame :: "bytes \<Rightarrow> ((u8 \<times> u8 \<times> bytes) \<times> bytes) option" where
  "read_control_frame input =
     (if length input < HEADER_LEN then None
      else if subslice input 0 2 \<noteq> u16_to_le MAGIC then None
      else
        let len = unat (u16_from_le (input ! 4) (input ! 5)); total = HEADER_LEN + len + TRAILER_LEN
        in if len > MAX_PAYLOAD then None
           else if length input < total then None
           else case decode (take total input) of
                  Inl _ \<Rightarrow> None
                | Inr f \<Rightarrow> Some (f, drop total input))"

definition upstream_request ::
  "'m mcu \<Rightarrow> u8 \<Rightarrow> bytes \<Rightarrow> 'm \<Rightarrow> UpstreamControl \<Rightarrow> 'm \<times> UpstreamControl \<times> UpstreamResponse answer" where
  "upstream_request net message_type payload m u =
     (let sequence = uc_sequence u + 1; u1 = u\<lparr>uc_sequence := sequence\<rparr>
      in case encode (replicate (HEADER_LEN + length payload + TRAILER_LEN) 0) message_type sequence payload of
           Inl _ \<Rightarrow> (m, u1, Fails)
         | Inr (encoded, _) \<Rightarrow>
             (case net m encoded of
                (m', None) \<Rightarrow> (m', u1, Fails)
              | (m', Some arrived) \<Rightarrow>
                  (case read_control_frame (uc_unread u1 @ arrived) of
                     None \<Rightarrow> (m', u1, Fails)
                   | Some ((ty, seq, response), rest) \<Rightarrow>
                       (m', u1\<lparr>uc_unread := rest\<rparr>,
                        if seq \<noteq> sequence then Fails else Returns \<lparr>ur_type = ty, ur_payload = response\<rparr>))))"

definition write_frame :: "u8 \<Rightarrow> u8 \<Rightarrow> bytes \<Rightarrow> bytes answer" where
  "write_frame message_type sequence payload =
     (case encode (replicate (HEADER_LEN + length payload + TRAILER_LEN) 0) message_type sequence payload of
        Inl _ \<Rightarrow> Fails
      | Inr (encoded, _) \<Rightarrow> Returns encoded)"

subsection \<open>Discovery\<close>

record ParameterDefinition =
  bp_index :: u16
  bp_name :: bytes
  bp_type_code :: u8
  bp_count :: u16

definition parameter_size :: "ParameterDefinition \<Rightarrow> nat" where
  "parameter_size p =
     (let ty = bp_type_code p;
          element = (if ty = 0x42 \<or> ty = 0x62 \<or> ty = 0x63 then 1
                     else if ty = 0x48 \<or> ty = 0x68 then 2
                     else if ty = 0x49 \<or> ty = 0x69 \<or> ty = 0x66 then 4 else 0)
      in element * unat (bp_count p))"

record SourceMetadata =
  sm_name :: bytes
  sm_unit :: bytes

record DeviceMetadata =
  dm_sample_rate_hz :: f32
  dm_sources :: "SourceMetadata list"
  dm_experiment :: bytes
  dm_firmware :: bytes
  dm_arm_index :: "u16 option"
  dm_mcu_reboot_index :: "u16 option"
  dm_mac :: bytes

text \<open>The inner loop of \<open>discover_parameters\<close>, on \<open>&response.payload[offset..]\<close>.\<close>

function parse_definitions :: "bytes \<Rightarrow> u16 \<Rightarrow> ParameterDefinition list \<Rightarrow> (u16 \<times> ParameterDefinition list) answer" where
  "parse_definitions rest index result =
     (if rest = [] then Returns (index, result)
      else case position_nul rest of
             None \<Rightarrow> Fails
           | Some e \<Rightarrow>
               if e + 5 > length rest then Fails
               else and_then (from_utf8 (take e rest)) (\<lambda>name.
                 let definition = \<lparr>bp_index = index, bp_name = name, bp_type_code = rest ! (e + 1),
                                    bp_count = u16_from_le (rest ! (e + 2)) (rest ! (e + 3))\<rparr>
                 in if rest ! (e + 4) > 1 then Fails
                    else if parameter_size definition = 0 then Fails
                    else if index = - 1 then Panics
                    else parse_definitions (drop (e + 5) rest) (index + 1) (result @ [definition])))"
  by pat_completeness auto
termination
  by (relation "measure (\<lambda>(rest, _, _). length rest)") auto

declare parse_definitions.simps [simp del]

text \<open>One pass of the outer loop, on a received response: the next start and the definitions so far.\<close>

definition accept_page ::
  "u16 \<Rightarrow> u16 \<Rightarrow> ParameterDefinition list \<Rightarrow> UpstreamResponse \<Rightarrow> (u16 \<times> ParameterDefinition list) answer" where
  "accept_page count start result response =
     (let payload = ur_payload response
      in if ur_type response \<noteq> msg_type_u8 GetParams \<or> length payload < 4 then Fails
         else
           let returned = u16_from_le (payload ! 0) (payload ! 1);
               nxt = u16_from_le (payload ! 2) (payload ! 3)
           in if returned \<noteq> start \<or> nxt \<le> start \<or> nxt > count then Fails
              else and_then (parse_definitions (drop 4 payload) start result) (\<lambda>(index, result').
                     if index \<noteq> nxt then Fails else Returns (nxt, result')))"

lemma accept_page_advances:
  "accept_page count start result response = Returns (nxt, result') \<Longrightarrow> start < nxt \<and> nxt \<le> count"
  by (auto simp: accept_page_def Let_def split: if_splits)

function discover_pages ::
  "'m mcu \<Rightarrow> u16 \<Rightarrow> u16 \<Rightarrow> ParameterDefinition list \<Rightarrow> 'm \<Rightarrow> UpstreamControl
   \<Rightarrow> 'm \<times> UpstreamControl \<times> ParameterDefinition list answer" where
  "discover_pages net count start result m u =
     (if start < count then
        (case upstream_request net (msg_type_u8 GetParams) (u16_to_le start) m u of
           (m', u', r) \<Rightarrow>
             (case and_then r (accept_page count start result) of
                Panics \<Rightarrow> (m', u', Panics)
              | Fails \<Rightarrow> (m', u', Fails)
              | Returns (nxt, result') \<Rightarrow> discover_pages net count nxt result' m' u'))
      else (m, u, Returns result))"
  by pat_completeness auto
termination
  by (relation "measure (\<lambda>(_, count, start, _, _, _). unat count - unat start)")
    (auto dest!: accept_page_advances simp: word_less_nat_alt word_le_nat_alt)

declare discover_pages.simps [simp del]

definition discover_parameters ::
  "'m mcu \<Rightarrow> u16 \<Rightarrow> 'm \<Rightarrow> UpstreamControl \<Rightarrow> 'm \<times> UpstreamControl \<times> ParameterDefinition list answer" where
  "discover_parameters net count m u =
     (case discover_pages net count 0 [] m u of
        (m', u', r) \<Rightarrow> (m', u', and_then r (\<lambda>result. if distinct (map bp_name result) then Returns result else Fails)))"

function parse_sources :: "bytes \<Rightarrow> nat \<Rightarrow> SourceMetadata list \<Rightarrow> SourceMetadata list answer" where
  "parse_sources payload offset result =
     (if offset < length payload then
        (case decode_nul_ascii payload offset of
           Panics \<Rightarrow> Panics
         | Fails \<Rightarrow> Fails
         | Returns (name, nxt) \<Rightarrow>
             (case decode_nul_ascii payload nxt of
                Panics \<Rightarrow> Panics
              | Fails \<Rightarrow> Fails
              | Returns (unit, nxt') \<Rightarrow> parse_sources payload nxt' (result @ [\<lparr>sm_name = name, sm_unit = unit\<rparr>])))
      else Returns result)"
  by pat_completeness auto
termination
  by (relation "measure (\<lambda>(payload, offset, _). length payload - offset)")
    (auto simp: decode_nul_ascii_def split: option.splits if_splits)

declare parse_sources.simps [simp del]

definition accept_sources :: "nat \<Rightarrow> UpstreamResponse \<Rightarrow> SourceMetadata list answer" where
  "accept_sources count response =
     (if ur_type response \<noteq> msg_type_u8 GetSources then Fails
      else and_then (parse_sources (ur_payload response) 0 []) (\<lambda>result.
             if length result \<noteq> count then Fails else Returns result))"

definition discover_sources ::
  "'m mcu \<Rightarrow> nat \<Rightarrow> 'm \<Rightarrow> UpstreamControl \<Rightarrow> 'm \<times> UpstreamControl \<times> SourceMetadata list answer" where
  "discover_sources net count m u =
     (case upstream_request net (msg_type_u8 GetSources) [] m u of
        (m', u', r) \<Rightarrow> (m', u', and_then r (accept_sources count)))"

definition accept_char_parameter :: "ParameterDefinition \<Rightarrow> UpstreamResponse \<Rightarrow> bytes answer" where
  "accept_char_parameter parameter response =
     (let payload = ur_payload response
      in if ur_type response \<noteq> msg_type_u8 GetPar \<or> length payload \<noteq> parameter_size parameter then Fails
         else from_utf8 (take (case position_nul payload of None \<Rightarrow> length payload | Some e \<Rightarrow> e) payload))"

definition read_char_parameter ::
  "'m mcu \<Rightarrow> ParameterDefinition list \<Rightarrow> bytes \<Rightarrow> 'm \<Rightarrow> UpstreamControl \<Rightarrow> 'm \<times> UpstreamControl \<times> bytes answer" where
  "read_char_parameter net parameters name m u =
     (case find (\<lambda>p. bp_name p = name) parameters of
        None \<Rightarrow> (m, u, Fails)
      | Some parameter \<Rightarrow>
          if bp_type_code parameter \<noteq> 0x63 then (m, u, Fails)
          else (case upstream_request net (msg_type_u8 GetPar) (u16_to_le (bp_index parameter)) m u of
                  (m', u', r) \<Rightarrow> (m', u', and_then r (accept_char_parameter parameter))))"

text \<open>\<open>query_mac\<close>: what the beacon socket received, \<open>None\<close> when the request failed or timed out.\<close>

definition query_mac :: "bytes option \<Rightarrow> bytes answer" where
  "query_mac received =
     (case received of
        None \<Rightarrow> Fails
      | Some datagram \<Rightarrow>
          (case beacon_decode (take RESPONSE_LEN datagram) of
             Inl _ \<Rightarrow> Fails
           | Inr beacon \<Rightarrow> Returns (br_mac beacon)))"

text \<open>The Status reply: parameter count, source count and sample rate.\<close>

definition accept_status :: "UpstreamResponse \<Rightarrow> (u16 \<times> nat \<times> f32) answer" where
  "accept_status status =
     (let payload = ur_payload status
      in if ur_type status \<noteq> msg_type_u8 Status \<or> length payload \<noteq> 12 then Fails
         else if payload ! 0 \<noteq> VERSION then Fails
         else Returns (u16_from_le (payload ! 1) (payload ! 2), unat (payload ! 3),
                       f32_from_le (payload ! 4) (payload ! 5) (payload ! 6) (payload ! 7)))"

text \<open>Awaiting one request after another: the question-mark operator over the connection.\<close>

definition await ::
  "'m \<times> UpstreamControl \<times> 'a answer \<Rightarrow> ('a \<Rightarrow> 'm \<Rightarrow> UpstreamControl \<Rightarrow> 'm \<times> UpstreamControl \<times> 'b answer)
   \<Rightarrow> 'm \<times> UpstreamControl \<times> 'b answer" where
  "await r k = (case r of (m, u, Returns x) \<Rightarrow> k x m u | (m, u, Fails) \<Rightarrow> (m, u, Fails) | (m, u, Panics) \<Rightarrow> (m, u, Panics))"

definition index_of :: "bytes \<Rightarrow> ParameterDefinition list \<Rightarrow> u16 option" where
  "index_of name parameters = map_option bp_index (find (\<lambda>p. bp_name p = name) parameters)"

definition discover_device ::
  "'m mcu \<Rightarrow> bytes option \<Rightarrow> 'm \<Rightarrow> UpstreamControl \<Rightarrow> 'm \<times> UpstreamControl \<times> DeviceMetadata answer" where
  "discover_device net beacon m u =
     await (upstream_request net (msg_type_u8 Status) [] m u) (\<lambda>status m1 u1.
     await (m1, u1, accept_status status) (\<lambda>(parameter_count, source_count, sample_rate_hz) m2 u2.
     await (discover_parameters net parameter_count m2 u2) (\<lambda>parameters m3 u3.
     await (discover_sources net source_count m3 u3) (\<lambda>sources m4 u4.
     await (read_char_parameter net parameters (as_bytes ''experiment'') m4 u4) (\<lambda>experiment m5 u5.
     await (read_char_parameter net parameters (as_bytes ''firmware'') m5 u5) (\<lambda>firmware m6 u6.
       (m6, u6, Returns \<lparr>dm_sample_rate_hz = sample_rate_hz, dm_sources = sources, dm_experiment = experiment,
          dm_firmware = firmware, dm_arm_index = index_of (as_bytes ''arm'') parameters,
          dm_mcu_reboot_index = index_of (as_bytes ''mcu_reboot'') parameters,
          dm_mac = (case query_mac beacon of Returns mac \<Rightarrow> mac | _ \<Rightarrow> [0x02, 0x48, 0x4C, 0, 0, 0xB0])\<rparr>)))))))"

definition connect_upstream ::
  "'m mcu \<Rightarrow> bytes option \<Rightarrow> u64 \<Rightarrow> u32 \<Rightarrow> u16 \<Rightarrow> 'm \<Rightarrow> 'm \<times> UpstreamControl \<times> DeviceMetadata answer" where
  "connect_upstream net beacon generation peer_ip udp_port m =
     discover_device net beacon m
       \<lparr>uc_unread = [], uc_sequence = 0, uc_generation = generation, uc_peer_ip = peer_ip, uc_udp_port = udp_port\<rparr>"

subsection \<open>Discovery ends and returns a well-formed registry, whatever the MCU answers\<close>

text \<open>The MCU with a count of the frames sent to it.\<close>

definition counting :: "'m mcu \<Rightarrow> (nat \<times> 'm) mcu" where
  "counting net = (\<lambda>(n, m) bs. case net m bs of (m', r) \<Rightarrow> ((Suc n, m'), r))"

lemma upstream_request_counts:
  assumes "\<And>m bs m' r. net m bs = (m', r) \<Longrightarrow> sent m' \<le> Suc (sent m)"
    "upstream_request net ty payload m u = (m', u', r)"
  shows "sent m' \<le> Suc (sent m)"
  using assms by (fastforce simp: upstream_request_def Let_def split: sum.splits prod.splits option.splits)

definition definition_ok :: "ParameterDefinition \<Rightarrow> bool" where
  "definition_ok p \<longleftrightarrow> 0 < parameter_size p \<and> utf8_valid (bp_name p) \<and> 0 \<notin> set (bp_name p)"

lemma position_nul_Some:
  "position_nul bs = Some e \<longleftrightarrow> e < length bs \<and> bs ! e = 0 \<and> 0 \<notin> set (take e bs)"
proof -
  let ?n = "length (takeWhile (\<lambda>b. b \<noteq> 0) bs)"
  have "position_nul bs = Some e \<longleftrightarrow> e = ?n \<and> ?n < length bs"
    by (auto simp: position_nul_def Let_def)
  also have "\<dots> \<longleftrightarrow> e < length bs \<and> bs ! e = 0 \<and> 0 \<notin> set (take e bs)"
  proof
    assume "e = ?n \<and> ?n < length bs"
    then show "e < length bs \<and> bs ! e = 0 \<and> 0 \<notin> set (take e bs)"
      using nth_length_takeWhile [of "\<lambda>b. b \<noteq> 0" bs] by (auto simp: takeWhile_eq_take [symmetric] dest: set_takeWhileD)
  next
    assume a: "e < length bs \<and> bs ! e = 0 \<and> 0 \<notin> set (take e bs)"
    then have "bs = take e bs @ 0 # drop (Suc e) bs" by (metis id_take_nth_drop)
    moreover have "takeWhile (\<lambda>b. b \<noteq> 0) (take e bs @ 0 # drop (Suc e) bs) = take e bs"
      using a by (subst takeWhile_append2) auto
    ultimately show "e = ?n \<and> ?n < length bs" using a by simp
  qed
  finally show ?thesis .
qed

lemma parse_definitions_spec:
  assumes "parse_definitions rest index result = Returns (index', result')"
  shows "\<exists>new. result' = result @ new \<and> unat index' = unat index + length new
    \<and> map (\<lambda>p. unat (bp_index p)) new = [unat index..<unat index'] \<and> list_all definition_ok new"
  using assms
proof (induction rest index result rule: parse_definitions.induct)
  case (1 rest index result)
  show ?case
  proof (cases "rest = []")
    case True
    then show ?thesis using 1(2) by (simp add: parse_definitions.simps [of "[]"])
  next
    case False
    from 1(2) False obtain e where e: "position_nul rest = Some e" "e + 5 \<le> length rest" "utf8_valid (take e rest)"
      by (subst (asm) parse_definitions.simps) (auto simp: from_utf8_def split: option.splits if_splits)
    define d where "d = \<lparr>bp_index = index, bp_name = take e rest, bp_type_code = rest ! (e + 1),
       bp_count = u16_from_le (rest ! (e + 2)) (rest ! (e + 3))\<rparr>"
    from 1(2) False e have p: "\<not> rest ! (e + 4) > 1" "parameter_size d \<noteq> 0" "index \<noteq> - 1"
      "parse_definitions (drop (e + 5) rest) (index + 1) (result @ [d]) = Returns (index', result')"
      by (subst (asm) parse_definitions.simps; simp add: from_utf8_def Let_def d_def split: if_splits)+
    have "\<exists>new. result' = (result @ [d]) @ new \<and> unat index' = unat (index + 1) + length new
        \<and> map (\<lambda>p. unat (bp_index p)) new = [unat (index + 1)..<unat index'] \<and> list_all definition_ok new"
      using 1(1) [OF False e(1) _ d_def p(1-4)] e(2) by simp
    then obtain new where n: "result' = (result @ [d]) @ new" "unat index' = unat (index + 1) + length new"
      "map (\<lambda>p. unat (bp_index p)) new = [unat (index + 1)..<unat index']" "list_all definition_ok new" by blast
    have s: "unat (index + 1) = Suc (unat index)" using p(3) unat_Suc_less [of index "- 1"] by (simp add: less_le)
    have "definition_ok d" using e p(2) position_nul_Some by (simp add: definition_ok_def d_def)
    moreover have "[unat index..<unat index'] = unat index # [unat (index + 1)..<unat index']"
      using n(2) s by (simp add: upt_conv_Cons del: upt_Suc)
    moreover have "unat (bp_index d) = unat index" by (simp add: d_def)
    ultimately show ?thesis using n s by (intro exI [of _ "d # new"]) (simp del: upt_Suc)
  qed
qed

definition registry_ok :: "nat \<Rightarrow> nat \<Rightarrow> ParameterDefinition list \<Rightarrow> bool" where
  "registry_ok a b ps \<longleftrightarrow> map (\<lambda>p. unat (bp_index p)) ps = [a..<b] \<and> list_all definition_ok ps"

lemma accept_page_spec:
  assumes "accept_page count start result response = Returns (nxt, result')" "registry_ok 0 (unat start) result"
  shows "start < nxt" "nxt \<le> count" "registry_ok 0 (unat nxt) result'"
proof -
  show "start < nxt" "nxt \<le> count" using accept_page_advances [OF assms(1)] by auto
  from assms(1) obtain rest where "parse_definitions rest start result = Returns (nxt, result')"
    by (auto simp: accept_page_def Let_def split: if_splits)
  from parse_definitions_spec [OF this] assms(2) show "registry_ok 0 (unat nxt) result'"
    using upt_add_eq_append [of 0 "unat start"] by (auto simp: registry_ok_def)
qed

lemma discover_pages_spec:
  assumes "\<And>m bs m' r. net m bs = (m', r) \<Longrightarrow> sent m' \<le> Suc (sent m)"
    "start \<le> count" "registry_ok 0 (unat start) result"
  shows "case discover_pages net count start result m u of
    (m', u', r) \<Rightarrow> sent m' \<le> sent m + (unat count - unat start) \<and> (\<forall>res. r = Returns res \<longrightarrow> registry_ok 0 (unat count) res)"
  using assms
proof (induction net count start result m u rule: discover_pages.induct)
  case (1 net count start result m u)
  show ?case
  proof (cases "start < count")
    case False
    then show ?thesis using 1(3,4) by (simp add: discover_pages.simps [of _ count])
  next
    case True
    obtain m1 u1 r where q: "upstream_request net (msg_type_u8 GetParams) (u16_to_le start) m u = (m1, u1, r)"
      by (metis prod.exhaust)
    have n1: "sent m1 \<le> Suc (sent m)" by (rule upstream_request_counts [OF 1(2) q])
    have lt: "unat start < unat count" using True by (simp add: word_less_nat_alt)
    show ?thesis
    proof (cases "and_then r (accept_page count start result)")
      case (Returns p)
      obtain nxt result' where p: "p = (nxt, result')" by (cases p)
      from Returns p obtain response where "accept_page count start result response = Returns (nxt, result')" by auto
      note a = accept_page_spec [OF this 1(4)]
      have "case discover_pages net count nxt result' m1 u1 of
         (m', u', r) \<Rightarrow> sent m' \<le> sent m1 + (unat count - unat nxt) \<and> (\<forall>res. r = Returns res \<longrightarrow> registry_ok 0 (unat count) res)"
        using 1(1) [OF True q [symmetric] refl Returns [unfolded p] refl 1(2) a(2,3)] by simp
      then show ?thesis using True q Returns p n1 a(1) lt
        by (auto simp: discover_pages.simps [of _ count start] word_less_nat_alt split: prod.splits)
    qed (use True q n1 lt in \<open>simp_all add: discover_pages.simps [of _ count start]\<close>)
  qed
qed

text \<open>
  C22: parameter discovery ends whatever the MCU answers: it sends at most one request per parameter
  that the Status reply promised, because a page that does not advance is an error.
\<close>

theorem discovery_terminates:
  "case discover_parameters (counting net) count (n, m) u of ((n', m'), u', r) \<Rightarrow> n' \<le> n + unat count"
proof -
  have "fst s' \<le> Suc (fst s)" if "counting net s bs = (s', r)" for s bs s' r
    using that by (auto simp: counting_def split: prod.splits)
  from discover_pages_spec [of "counting net" fst 0 count "[]" "(n, m)" u, OF this] show ?thesis
    by (auto simp: discover_parameters_def registry_ok_def split: prod.splits)
qed

text \<open>
  C23: what discovery accepts from any MCU is a well-formed registry of exactly the promised size:
  definition \<open>i\<close> has index \<open>i\<close>, every type code is known and every size positive, every name is UTF-8
  without NUL, and no two names are equal.
\<close>

theorem discovered_registry_well_formed:
  assumes "discover_parameters net count m u = (m', u', Returns ps)"
  shows "length ps = unat count \<and> (\<forall>i < length ps. unat (bp_index (ps ! i)) = i) \<and>
    (\<forall>p \<in> set ps. 0 < parameter_size p \<and> utf8_valid (bp_name p) \<and> 0 \<notin> set (bp_name p)) \<and> distinct (map bp_name ps)"
proof -
  obtain r where r: "discover_pages net count 0 [] m u = (m', u', r)" "r = Returns ps" "distinct (map bp_name ps)"
    using assms by (auto simp: discover_parameters_def split: prod.splits if_splits)
  have "registry_ok 0 (unat count) ps"
    using discover_pages_spec [of net "\<lambda>_. 0" 0 count "[]" m u] r by (simp add: registry_ok_def)
  then have ix: "map (\<lambda>p. unat (bp_index p)) ps = [0..<unat count]" and ok: "list_all definition_ok ps"
    by (simp_all add: registry_ok_def)
  have len: "length ps = unat count" using arg_cong [OF ix, of length] by simp
  moreover have "\<forall>i < length ps. unat (bp_index (ps ! i)) = i" using ix len by (metis nth_map nth_upt add_0)
  moreover have "\<forall>p \<in> set ps. 0 < parameter_size p \<and> utf8_valid (bp_name p) \<and> 0 \<notin> set (bp_name p)"
    using ok by (auto simp: list_all_iff definition_ok_def)
  ultimately show ?thesis using r(3) by simp
qed

subsection \<open>A well-formed reply reaches the caller\<close>

lemma read_control_frame_bytes:
  assumes "length pl \<le> MAX_PAYLOAD"
  shows "read_control_frame (frame_bytes ty seq pl @ rest) = Some ((ty, seq, pl), rest)"
proof -
  let ?f = "frame_bytes ty seq pl"
  have l: "length ?f = 8 + length pl" by (simp add: frame_consts)
  have "(?f @ rest) ! 4 = ucast (of_nat (length pl) :: u16)" "(?f @ rest) ! 5 = ucast (drop_bit 8 (of_nat (length pl) :: u16))"
    "subslice (?f @ rest) 0 2 = u16_to_le MAGIC"
    by (simp_all add: frame_bytes_def frame_body_def u16_to_le_def subslice_def)
  moreover have "unat (of_nat (length pl) :: u16) = length pl" using assms by (simp add: MAX_PAYLOAD_def)
  ultimately show ?thesis
    using assms l decode_frame_bytes [OF assms, of ty seq] by (simp add: read_control_frame_def frame_consts)
qed

lemma encode_exact:
  assumes "length pl \<le> MAX_PAYLOAD"
  shows "encode (replicate (HEADER_LEN + length pl + TRAILER_LEN) 0) ty seq pl =
    Inr (frame_bytes ty seq pl, HEADER_LEN + length pl + TRAILER_LEN)"
  using encode_ok [OF assms, of "replicate (HEADER_LEN + length pl + TRAILER_LEN) 0" ty seq]
  by (simp add: copy_at_def)

lemma upstream_request_ok:
  assumes "length payload \<le> MAX_PAYLOAD" "uc_unread u = []"
    "net m (frame_bytes ty (uc_sequence u + 1) payload) = (m', Some f)" "decode f = Inr (ty', uc_sequence u + 1, reply)"
  shows "upstream_request net ty payload m u =
    (m', u\<lparr>uc_sequence := uc_sequence u + 1\<rparr>, Returns \<lparr>ur_type = ty', ur_payload = reply\<rparr>)"
proof -
  note d = decode_sound [OF assms(4)]
  have "read_control_frame f = Some ((ty', uc_sequence u + 1, reply), [])"
    using read_control_frame_bytes [OF d(2), of ty' "uc_sequence u + 1" "[]"] d(1) by simp
  then show ?thesis using assms(2,3) encode_exact [OF assms(1)] by (cases u) (simp add: upstream_request_def)
qed

text \<open>An MCU with the one parameter \<open>gain\<close>: every request is answered with the page \<open>0..1\<close>.\<close>

definition gain_mcu :: "unit mcu" where
  "gain_mcu m bs = (m, Some (frame_bytes (msg_type_u8 GetParams) 1
     (u16_to_le 0 @ u16_to_le 1 @ param_bytes (as_bytes ''gain'', TF32, 1, True))))"

definition fresh_upstream :: UpstreamControl where
  "fresh_upstream = \<lparr>uc_unread = [], uc_sequence = 0, uc_generation = 1, uc_peer_ip = 0x0A000001, uc_udp_port = 5000\<rparr>"

lemma gain_mcu_discovery:
  "discover_parameters gain_mcu 1 () fresh_upstream
    = ((), fresh_upstream\<lparr>uc_sequence := 1\<rparr>, Returns [\<lparr>bp_index = 0, bp_name = as_bytes ''gain'', bp_type_code = 0x66, bp_count = 1\<rparr>])"
proof -
  let ?pl = "u16_to_le 0 @ u16_to_le 1 @ param_bytes (as_bytes ''gain'', TF32, 1, True)"
  have "decode (frame_bytes (msg_type_u8 GetParams) 1 ?pl) = Inr (msg_type_u8 GetParams, 1, ?pl)"
    by (rule decode_frame_bytes) (simp add: MAX_PAYLOAD_def as_bytes_def)
  then have q: "upstream_request gain_mcu (msg_type_u8 GetParams) (u16_to_le 0) () fresh_upstream
      = ((), fresh_upstream\<lparr>uc_sequence := 1\<rparr>, Returns \<lparr>ur_type = msg_type_u8 GetParams, ur_payload = ?pl\<rparr>)"
    using upstream_request_ok [of "u16_to_le 0" fresh_upstream gain_mcu "()" "msg_type_u8 GetParams" "()"]
    by (simp add: fresh_upstream_def gain_mcu_def MAX_PAYLOAD_def)
  have "accept_page 1 0 [] \<lparr>ur_type = msg_type_u8 GetParams, ur_payload = ?pl\<rparr>
      = Returns (1, [\<lparr>bp_index = 0, bp_name = as_bytes ''gain'', bp_type_code = 0x66, bp_count = 1\<rparr>])"
    by (simp add: accept_page_def u16_to_le_def u16_from_le_def parse_definitions.simps position_nul_def as_bytes_def of_char_of
        from_utf8_def parameter_size_def)
  then show ?thesis using q by (simp add: discover_parameters_def discover_pages.simps [of _ 1])
qed

theorem discovered_registry_well_formed_witness:
  "\<exists>m' u' ps. discover_parameters gain_mcu 1 () fresh_upstream = (m', u', Returns ps) \<and> length ps = 1 \<and> distinct (map bp_name ps)
     \<and> unat (bp_index (ps ! 0)) = 0"
  using discovered_registry_well_formed [OF gain_mcu_discovery] gain_mcu_discovery by auto

end
