(* ===== verification/Broker_Firmware.thy ===== *)
theory Broker_Firmware
  imports Comms_Control Broker_Discovery
begin

text \<open>
  The broker's discovery run against the firmware's control server: the MCU parameter of
  \<open>Broker_Discovery\<close> is instantiated with \<open>serve_request\<close> of \<open>Comms_Control\<close>.
\<close>

definition firmware_mcu :: "'r Rig \<Rightarrow> 'p Program \<Rightarrow> serve_env \<Rightarrow> control mcu" where
  "firmware_mcu R P env c bs =
     (case serve_request R P env c bs of
        None \<Rightarrow> (c, None)
      | Some (Answered c' f rest) \<Rightarrow> (c', Some f)
      | Some (Closed c') \<Rightarrow> (c', None)
      | Some (Rebooting c' f) \<Rightarrow> (c', f))"

subsection \<open>Parsing the pages the firmware encodes\<close>

lemma utf8_valid_ascii: "is_ascii bs \<Longrightarrow> utf8_valid bs"
  by (induction bs) (auto simp: is_ascii_def)

lemma position_nul_append: "0 \<notin> set name \<Longrightarrow> position_nul (name @ 0 # rest) = Some (length name)"
  by (simp add: position_nul_Some nth_append)

lemma parameter_size_code:
  "parameter_size \<lparr>bp_index = i, bp_name = n, bp_type_code = param_type_code ty, bp_count = count\<rparr> = param_type_size ty * unat count"
  by (cases ty) (simp_all add: parameter_size_def)

fun entry_view :: "nat \<Rightarrow> param_entry \<Rightarrow> ParameterDefinition" where
  "entry_view i (name, ty, count, writable) =
     \<lparr>bp_index = of_nat i, bp_name = name, bp_type_code = param_type_code ty, bp_count = count\<rparr>"

fun discoverable :: "param_entry \<Rightarrow> bool" where
  "discoverable (name, ty, count, writable) \<longleftrightarrow> 0 \<notin> set name \<and> count \<noteq> 0"

lemma parse_definitions_step:
  assumes "valid_entry e" "discoverable e" "i < 65535"
  shows "parse_definitions (param_bytes e @ rest) (of_nat i) result = parse_definitions rest (of_nat (Suc i)) (result @ [entry_view i e])"
proof -
  obtain name ty count w where e: "e = (name, ty, count, w)" by (cases e)
  let ?bs = "param_bytes e @ rest"
  have p: "position_nul ?bs = Some (length name)" using assms(2) e by (simp add: position_nul_append)
  have nth: "?bs ! (length name + 1) = param_type_code ty" "?bs ! (length name + 2) = ucast count"
    "?bs ! (length name + 3) = ucast (drop_bit 8 count)" "?bs ! (length name + 4) = (if w then 1 else 0)"
    by (simp_all add: e nth_append u16_to_le_def)
  have i: "(of_nat i :: u16) \<noteq> - 1"
  proof -
    have "unat (of_nat i :: u16) < unat (65535 :: u16)" using assms(3) by simp
    then have "(of_nat i :: u16) \<noteq> 65535" by auto
    moreover have "(65535 :: u16) = - 1" by simp
    ultimately show ?thesis by metis
  qed
  have f: "from_utf8 (take (length name) ?bs) = Returns name" using assms(1) e by (simp add: from_utf8_def utf8_valid_ascii)
  have "parameter_size (entry_view i e) \<noteq> 0" using assms(2) e parameter_size_code by (simp add: unsigned_eq_0_iff)
  then show ?thesis
    using p nth i f e by (subst parse_definitions.simps) (simp add: Let_def add.commute)
qed

lemma parse_definitions_entries:
  assumes "a \<le> b" "b \<le> 65535" "\<forall>i \<in> {a..<b}. \<exists>e. defn (of_nat i) = Some e \<and> valid_entry e \<and> discoverable e"
  shows "parse_definitions (page_entries defn a b) (of_nat a) result
    = Returns (of_nat b, result @ map (\<lambda>i. entry_view i (the (defn (of_nat i)))) [a..<b])"
  using assms
proof (induction "b - a" arbitrary: a result)
  case 0
  then show ?case by (simp add: parse_definitions.simps [of "[]"])
next
  case (Suc n)
  then have ab: "a < b" by simp
  obtain e where e: "defn (of_nat a) = Some e" "valid_entry e" "discoverable e"
    using bspec [OF Suc.prems(3), of a] ab by (metis atLeastLessThan_iff order_refl)
  have "page_entries defn a b = param_bytes e @ page_entries defn (Suc a) b" using ab e(1) by (simp add: page_entries_Suc)
  then show ?case
    using parse_definitions_step [OF e(2,3), of a] Suc.hyps(1) [of "Suc a" "result @ [entry_view a e]"] Suc.hyps(2) Suc.prems ab e(1)
    by (simp add: upt_conv_Cons)
qed

subsection \<open>One page request\<close>

lemma firmware_reply:
  assumes "control_ok R P c" "validate_sources R P" "env_ok R P env" "se_write_ok env" "length payload \<le> MAX_PAYLOAD"
    and h: "handle R P (se_remote env) (se_uptime_ms env) ty payload c = Some (c1, Inr n, ActNone)"
  shows "\<exists>f. firmware_mcu R P env c (frame_bytes ty seq payload) = (c1, Some f) \<and> decode f = Inr (ty, seq, take n (cl_resp c1))"
proof -
  have "perform_reboot env c1 (Inr n) ActNone = (c1, Inr n, False)" by (simp add: perform_reboot_def)
  from serve_frame_ok [OF assms(1-3) h this, of seq "[]"] serve_request_frame [OF assms(5), of R P env c ty seq "[]"] assms(4)
  show ?thesis by (auto simp: firmware_mcu_def reply_message_def)
qed

lemma firmware_request:
  assumes "control_ok R P c" "validate_sources R P" "env_ok R P env" "se_write_ok env" "length payload \<le> MAX_PAYLOAD"
    "uc_unread u = []" "handle R P (se_remote env) (se_uptime_ms env) ty payload c = Some (c1, Inr n, ActNone)"
  shows "upstream_request (firmware_mcu R P env) ty payload c u
    = (c1, u\<lparr>uc_sequence := uc_sequence u + 1\<rparr>, Returns \<lparr>ur_type = ty, ur_payload = take n (cl_resp c1)\<rparr>)"
proof -
  obtain f where "firmware_mcu R P env c (frame_bytes ty (uc_sequence u + 1) payload) = (c1, Some f)"
    "decode f = Inr (ty, uc_sequence u + 1, take n (cl_resp c1))"
    using firmware_reply [OF assms(1-5,7), of "uc_sequence u + 1"] by auto
  then show ?thesis
    using upstream_request_ok [OF assms(5,6), where net = "firmware_mcu R P env" and m = c] by blast
qed

lemma page_entry_registry:
  assumes "store_ok w s" "i < length (registry s)"
  shows "page_entry s (of_nat i) = Some (let d = registry s ! i in (pd_name d, pd_ty d, pd_count d, pd_writable d))"
proof -
  have t: "total_count s \<le> 65535" "ps_validated s" using assms(1) by (simp_all add: store_ok_def)
  have "unat (of_nat i :: u16) = i" using assms(2) t(1) total_count_registry [of s] by simp
  then show ?thesis using assms(2) t def_unchecked_registry [OF t(1), of i]
    by (simp add: page_entry_def store_def_def get_at_def Let_def)
qed

text \<open>What the broker should learn of a store, and which stores it accepts.\<close>

definition registry_view :: "ParamStore \<Rightarrow> nat \<Rightarrow> ParameterDefinition" where
  "registry_view s i = (let d = registry s ! i in
     \<lparr>bp_index = of_nat i, bp_name = pd_name d, bp_type_code = param_type_code (pd_ty d), bp_count = pd_count d\<rparr>)"

definition store_discoverable :: "ParamStore \<Rightarrow> bool" where
  "store_discoverable s \<longleftrightarrow> names_valid s \<and> list_all (\<lambda>d. 0 \<notin> set (pd_name d) \<and> pd_count d \<noteq> 0) (registry s)"

lemma page_entry_ok:
  assumes "store_ok w s" "store_discoverable s" "i < length (registry s)"
  shows "\<exists>e. page_entry s (of_nat i) = Some e \<and> valid_entry e \<and> discoverable e \<and> entry_view i e = registry_view s i"
proof -
  have "total_count s \<le> 65535" using assms(1) by (simp add: store_ok_def)
  with assms(2,3) have "is_ascii (pd_name (registry s ! i))" "length (pd_name (registry s ! i)) \<le> MAX_PARAM_NAME_LEN"
    "0 \<notin> set (pd_name (registry s ! i))" "pd_count (registry s ! i) \<noteq> 0"
    by (auto simp: store_discoverable_def names_valid_iff list_all_length)
  then show ?thesis using page_entry_registry [OF assms(1,3)] by (simp add: Let_def registry_view_def)
qed

lemma get_params_page:
  assumes "control_ok R P c" "store_discoverable (cl_store c)" "start < of_nat (length (registry (cl_store c)))"
  shows "\<exists>c1 nxt len. handle R P remote up (msg_type_u8 GetParams) (u16_to_le start) c = Some (c1, Inr len, ActNone)
    \<and> cl_store c1 = cl_store c \<and> control_ok R P c1 \<and> start < nxt \<and> unat nxt \<le> length (registry (cl_store c))
    \<and> take len (cl_resp c1) = u16_to_le start @ u16_to_le nxt @ page_entries (page_entry (cl_store c)) (unat start) (unat nxt)"
proof -
  let ?s = "cl_store c" and ?n = "length (registry (cl_store c))"
  have ok: "store_ok (cl_world c) ?s" "length (cl_resp c) = MAX_PAYLOAD" using assms(1) by (simp_all add: control_ok_def)
  then have v: "ps_validated ?s" "?n \<le> 65535" using total_count_registry [of ?s] by (simp_all add: store_ok_def)
  then have cnt: "store_count ?s = Some ?n" by (simp add: store_count_def total_count_registry)
  have n: "unat (of_nat ?n :: u16) = ?n" using v(2) by simp
  have e: "\<exists>e. page_entry ?s i = Some e \<and> valid_entry e" if "start \<le> i" "i < of_nat ?n" for i :: u16
    using page_entry_ok [OF ok(1) assms(2), of "unat i"] that n by (auto simp: word_less_nat_alt)
  have room: "PARAM_PAGE_HEADER_LEN + MAX_PARAM_NAME_LEN + 5 \<le> length (cl_resp c)"
    using ok(2) by (simp add: payload_consts MAX_PAYLOAD_def)
  obtain out nxt len where p: "encode_param_page (cl_resp c) start (of_nat ?n) (page_entry ?s) = Inr (out, len)"
    "length out = length (cl_resp c)" "nxt \<le> of_nat ?n" "start < nxt"
    "take len out = u16_to_le start @ u16_to_le nxt @ page_entries (page_entry ?s) (unat start) (unat nxt)"
    using encode_param_page_spec [of start "of_nat ?n" "cl_resp c" "page_entry ?s"] room e assms(3) by (auto simp: less_imp_le)
  have d: "decode_param_page_request (u16_to_le start) = Inr start" by (simp add: decode_param_page_request_def u16_to_le_def)
  have "handle_get_params (u16_to_le start) ?s (cl_resp c) = Some (out, Inr len)"
    using d cnt v(2) p(1) assms(3) by (simp add: handle_get_params_def)
  then have "handle R P remote up (msg_type_u8 GetParams) (u16_to_le start) c = Some (c\<lparr>cl_resp := out\<rparr>, Inr len, ActNone)"
    by (simp only: handle_def msg_type_roundtrip option.case MsgType.case respond_def option.map prod.case)
  moreover have "control_ok R P (c\<lparr>cl_resp := out\<rparr>)" using assms(1) p(2) by (simp add: control_ok_def)
  ultimately show ?thesis using p n by (auto simp: word_le_nat_alt)
qed

lemma page_parses:
  assumes "store_ok w s" "store_discoverable s" "start < nxt" "unat nxt \<le> length (registry s)"
  shows "parse_definitions (page_entries (page_entry s) (unat start) (unat nxt)) start result
    = Returns (nxt, result @ map (registry_view s) [unat start..<unat nxt])"
proof -
  have e: "\<exists>e. page_entry s (of_nat i) = Some e \<and> valid_entry e \<and> discoverable e \<and> entry_view i e = registry_view s i"
    if "i < unat nxt" for i
    using page_entry_ok [OF assms(1,2)] that assms(4) by auto
  have le: "unat start \<le> unat nxt" "unat nxt \<le> 65535"
    using assms unsigned_less [of nxt, where ?'a = nat] by (simp_all add: word_less_nat_alt)
  have "map (\<lambda>i. entry_view i (the (page_entry s (of_nat i)))) [unat start..<unat nxt] = map (registry_view s) [unat start..<unat nxt]"
    using e by fastforce
  moreover have "\<forall>i \<in> {unat start..<unat nxt}. \<exists>e. page_entry s (of_nat i) = Some e \<and> valid_entry e \<and> discoverable e"
    using e by (metis atLeastLessThan_iff)
  ultimately show ?thesis using parse_definitions_entries [OF le, of "page_entry s" result] by simp
qed

lemma discover_pages_firmware:
  assumes "control_ok R P c" "validate_sources R P" "env_ok R P env" "se_write_ok env" "store_discoverable (cl_store c)"
    "uc_unread u = []" "unat start \<le> length (registry (cl_store c))" "result = map (registry_view (cl_store c)) [0..<unat start]"
  shows "\<exists>c' u'. discover_pages (firmware_mcu R P env) (of_nat (length (registry (cl_store c)))) start result c u
    = (c', u', Returns (map (registry_view (cl_store c)) [0..<length (registry (cl_store c))]))
    \<and> cl_store c' = cl_store c \<and> control_ok R P c' \<and> uc_unread u' = []"
  using assms
proof (induction "length (registry (cl_store c)) - unat start" arbitrary: start c u result rule: less_induct)
  case less
  let ?s = "cl_store c" and ?n = "length (registry (cl_store c))"
  have ok: "store_ok (cl_world c) ?s" using less.prems(1) by (simp add: control_ok_def)
  then have "?n \<le> 65535" using total_count_registry [of ?s] by (simp add: store_ok_def)
  then have n: "unat (of_nat ?n :: u16) = ?n" by simp
  show ?case
  proof (cases "start < of_nat ?n")
    case False
    then have "unat start = ?n" using less.prems(7) n by (simp add: word_less_nat_alt)
    then show ?thesis using False less.prems(1,6,8) by (simp add: discover_pages.simps)
  next
    case True
    obtain c1 nxt len where h: "handle R P (se_remote env) (se_uptime_ms env) (msg_type_u8 GetParams) (u16_to_le start) c = Some (c1, Inr len, ActNone)"
      "cl_store c1 = ?s" "control_ok R P c1" "start < nxt" "unat nxt \<le> ?n"
      "take len (cl_resp c1) = u16_to_le start @ u16_to_le nxt @ page_entries (page_entry ?s) (unat start) (unat nxt)"
      using get_params_page [OF less.prems(1,5) True] by blast
    have pl: "length (u16_to_le start) \<le> MAX_PAYLOAD" by (simp add: MAX_PAYLOAD_def)
    let ?u = "u\<lparr>uc_sequence := uc_sequence u + 1\<rparr>"
      and ?r = "\<lparr>ur_type = msg_type_u8 GetParams, ur_payload = take len (cl_resp c1)\<rparr>"
    have q: "upstream_request (firmware_mcu R P env) (msg_type_u8 GetParams) (u16_to_le start) c u = (c1, ?u, Returns ?r)"
      by (rule firmware_request [OF less.prems(1-4) pl less.prems(6) h(1)])
    let ?result = "result @ map (registry_view ?s) [unat start..<unat nxt]"
    have "\<not> nxt > of_nat ?n" using h(5) n by (simp add: word_less_nat_alt)
    then have a: "accept_page (of_nat ?n) start result ?r = Returns (nxt, ?result)"
      using h(4) page_parses [OF ok less.prems(5) h(4,5), of result]
      by (simp add: accept_page_def h(6)) (simp add: u16_to_le_def)
    have lt: "unat start < unat nxt" using h(4) by (simp add: word_less_nat_alt)
    then have res: "?result = map (registry_view ?s) [0..<unat nxt]"
      using less.prems(8) by (metis map_append upt_add_eq_append le0 less_imp_le le_add_diff_inverse)
    have "\<exists>c' u'. discover_pages (firmware_mcu R P env) (of_nat ?n) nxt ?result c1 ?u
      = (c', u', Returns (map (registry_view ?s) [0..<?n])) \<and> cl_store c' = ?s \<and> control_ok R P c' \<and> uc_unread u' = []"
      using less.hyps [of c1 nxt ?u ?result] h(2,3,5) lt less.prems(2-6) res by simp
    then show ?thesis using True q a by (subst discover_pages.simps) simp
  qed
qed

subsection \<open>Sources and status\<close>

fun source_ok :: "(bytes \<times> bytes) \<Rightarrow> bool" where
  "source_ok (name, unit) \<longleftrightarrow> length name \<le> MAX_NAME_LEN \<and> length unit \<le> MAX_UNIT_LEN \<and> is_ascii name \<and> is_ascii unit
     \<and> 0 \<notin> set name \<and> 0 \<notin> set unit"

fun source_view :: "(bytes \<times> bytes) \<Rightarrow> SourceMetadata" where
  "source_view (name, unit) = \<lparr>sm_name = name, sm_unit = unit\<rparr>"

definition sources_bytes :: "(bytes \<times> bytes) list \<Rightarrow> bytes" where
  "sources_bytes ss = concat (map (\<lambda>(n, u). source_bytes n u) ss)"

lemma encode_sources_ok:
  assumes "map src is = map Some ss" "list_all source_ok ss" "off + length (sources_bytes ss) \<le> length resp"
  shows "\<exists>resp'. encode_sources src is off resp = Some (resp', Inr (off + length (sources_bytes ss)))
    \<and> length resp' = length resp \<and> take (off + length (sources_bytes ss)) resp' = take off resp @ sources_bytes ss"
  using assms
proof (induction "is" arbitrary: off resp ss)
  case Nil
  then show ?case by (simp add: sources_bytes_def)
next
  case (Cons i "is")
  then obtain name unit ss' where ss: "ss = (name, unit) # ss'" "src i = Some (name, unit)" "map src is = map Some ss'"
    by (cases ss) (auto split: prod.splits)
  let ?sb = "source_bytes name unit"
  have sb: "sources_bytes ss = ?sb @ sources_bytes ss'" by (simp add: sources_bytes_def ss)
  have l: "length ?sb = length name + length unit + 2" by (simp add: source_bytes_def)
  have e: "encode_source (drop off resp) name unit = Inr (copy_at (drop off resp) 0 ?sb, length name + length unit + 2)"
    using Cons.prems(2,3) ss(1) sb l by (intro encode_source_ok) auto
  let ?resp = "take off resp @ copy_at (drop off resp) 0 ?sb"
  have r: "length ?resp = length resp" "take (off + length ?sb) ?resp = take off resp @ ?sb"
    using Cons.prems(3) sb by (simp_all add: copy_at_def)
  have "\<exists>resp'. encode_sources src is (off + length ?sb) ?resp = Some (resp', Inr (off + length ?sb + length (sources_bytes ss')))
    \<and> length resp' = length ?resp \<and> take (off + length ?sb + length (sources_bytes ss')) resp' = take (off + length ?sb) ?resp @ sources_bytes ss'"
    using Cons.prems ss sb r(1) by (intro Cons.IH) auto
  then show ?case using e ss(2) l r by (simp add: sb add.assoc)
qed

lemma decode_nul_ascii_append:
  assumes "is_ascii name" "0 \<notin> set name"
  shows "decode_nul_ascii (pre @ name @ 0 # rest) (length pre) = Returns (name, length pre + length name + 1)"
  using assms position_nul_append [OF assms(2), of rest]
  by (simp add: decode_nul_ascii_def from_utf8_def utf8_valid_ascii subslice_def)

lemma parse_sources_bytes:
  assumes "list_all source_ok ss"
  shows "parse_sources (pre @ sources_bytes ss) (length pre) result = Returns (result @ map source_view ss)"
  using assms
proof (induction ss arbitrary: pre result)
  case Nil
  then show ?case by (simp add: sources_bytes_def parse_sources.simps)
next
  case (Cons p ss)
  obtain name unit where p: "p = (name, unit)" by (cases p)
  let ?bs = "pre @ sources_bytes (p # ss)"
  have b1: "?bs = pre @ name @ 0 # (unit @ 0 # sources_bytes ss)"
    and b2: "?bs = (pre @ name @ [0]) @ unit @ 0 # sources_bytes ss"
    and b3: "?bs = (pre @ name @ [0] @ unit @ [0]) @ sources_bytes ss"
    by (simp_all add: sources_bytes_def p source_bytes_def)
  have "decode_nul_ascii ?bs (length pre) = Returns (name, length pre + length name + 1)"
    unfolding b1 using Cons.prems p by (intro decode_nul_ascii_append) auto
  moreover have "decode_nul_ascii ?bs (length pre + length name + 1) = Returns (unit, length pre + length name + 1 + length unit + 1)"
    unfolding b2 using Cons.prems p decode_nul_ascii_append [of unit "pre @ name @ [0]" "sources_bytes ss"] by simp
  moreover have "length pre < length ?bs" by (simp add: b1)
  moreover have "parse_sources ?bs (length pre + length name + 1 + length unit + 1) (result @ [source_view p])
      = Returns (result @ map source_view (p # ss))"
    unfolding b3 using Cons.IH [of "pre @ name @ [0] @ unit @ [0]" "result @ [source_view p]"] Cons.prems by (simp add: add.assoc)
  ultimately show ?case by (subst parse_sources.simps) (simp add: p)
qed

definition firmware_sources :: "'r Rig \<Rightarrow> 'p Program \<Rightarrow> (bytes \<times> bytes) list" where
  "firmware_sources R P = map (\<lambda>i. the (source R P i)) [0..<source_count R P]"

lemma firmware_sources_valid:
  assumes "validate_sources R P"
  shows "map (source R P) [0..<source_count R P] = map Some (firmware_sources R P)"
    and "length (sources_bytes (firmware_sources R P)) \<le> MAX_PAYLOAD"
    and "\<forall>(n, u) \<in> set (firmware_sources R P). length n \<le> MAX_NAME_LEN \<and> length u \<le> MAX_UNIT_LEN \<and> is_ascii n \<and> is_ascii u"
proof -
  have some: "\<exists>n u. source R P i = Some (n, u) \<and> length n \<le> MAX_NAME_LEN \<and> length u \<le> MAX_UNIT_LEN \<and> is_ascii n \<and> is_ascii u"
    if "i < source_count R P" for i
  proof -
    have "i \<in> set [0..<source_count R P]" using that by simp
    with assms show ?thesis unfolding validate_sources_def source_texts_ok_def by (fastforce split: option.splits)
  qed
  show m: "map (source R P) [0..<source_count R P] = map Some (firmware_sources R P)"
    using some by (fastforce simp: firmware_sources_def)
  have len: "length (source_bytes n u) = length n + length u + 2" for n u by (simp add: source_bytes_def)
  have "length (case the (source R P i) of (n, u) \<Rightarrow> source_bytes n u)
      = (case source R P i of None \<Rightarrow> 0 | Some (n, u) \<Rightarrow> length n + length u + 2)" if "i < source_count R P" for i
    using some [OF that] len by auto
  then have "length (sources_bytes (firmware_sources R P)) = source_encoded_len R P"
    by (auto simp: sources_bytes_def firmware_sources_def length_concat source_encoded_len_def comp_def
        intro!: arg_cong [of _ _ sum_list] map_cong)
  then show "length (sources_bytes (firmware_sources R P)) \<le> MAX_PAYLOAD"
    using assms by (simp add: validate_sources_def DISCOVERY_HEADROOM_def MAX_PAYLOAD_def)
  show "\<forall>(n, u) \<in> set (firmware_sources R P). length n \<le> MAX_NAME_LEN \<and> length u \<le> MAX_UNIT_LEN \<and> is_ascii n \<and> is_ascii u"
    using some by (fastforce simp: firmware_sources_def)
qed

lemma discover_sources_firmware:
  assumes "control_ok R P c" "validate_sources R P" "env_ok R P env" "se_write_ok env" "uc_unread u = []"
    "\<forall>(n, v) \<in> set (firmware_sources R P). 0 \<notin> set n \<and> 0 \<notin> set v"
  shows "\<exists>c' u'. discover_sources (firmware_mcu R P env) (source_count R P) c u
    = (c', u', Returns (map source_view (firmware_sources R P)))"
proof -
  let ?ss = "firmware_sources R P"
  note v = firmware_sources_valid [OF assms(2)]
  have ok: "list_all source_ok ?ss" using v(3) assms(6) by (fastforce simp: list_all_iff)
  have "0 + length (sources_bytes ?ss) \<le> length (cl_resp c)" using v(2) assms(1) by (simp add: control_ok_def)
  from encode_sources_ok [OF v(1) ok this] obtain resp where
    r: "encode_sources (source R P) [0..<source_count R P] 0 (cl_resp c) = Some (resp, Inr (length (sources_bytes ?ss)))"
      "take (length (sources_bytes ?ss)) resp = sources_bytes ?ss" by auto
  then have h: "handle R P (se_remote env) (se_uptime_ms env) (msg_type_u8 GetSources) [] c
      = Some (c\<lparr>cl_resp := resp\<rparr>, Inr (length (sources_bytes ?ss)), ActNone)"
    by (simp only: handle_def msg_type_roundtrip option.case MsgType.case respond_def option.map prod.case)
  have "parse_sources (sources_bytes ?ss) 0 [] = Returns (map source_view ?ss)"
    using parse_sources_bytes [OF ok, of "[]" "[]"] by simp
  moreover have "length ?ss = source_count R P" by (simp add: firmware_sources_def)
  ultimately show ?thesis
    using firmware_request [OF assms(1-4) _ assms(5) h] r(2) by (simp add: discover_sources_def accept_sources_def)
qed

lemma status_firmware:
  assumes "control_ok R P c" "validate_sources R P"
  shows "\<exists>c1. handle R P remote up (msg_type_u8 Status) [] c = Some (c1, Inr 12, ActNone)
    \<and> cl_store c1 = cl_store c \<and> control_ok R P c1
    \<and> accept_status \<lparr>ur_type = msg_type_u8 Status, ur_payload = take 12 (cl_resp c1)\<rparr>
      = Returns (of_nat (length (registry (cl_store c))), source_count R P, sr_hz (ps_sample_rate (cl_store c)))"
proof -
  let ?s = "cl_store c" and ?n = "length (registry (cl_store c))"
  have ok: "store_ok (cl_world c) ?s" "length (cl_resp c) = 1024" using assms(1) by (simp_all add: control_ok_def MAX_PAYLOAD_def)
  then have v: "ps_validated ?s" "?n \<le> 65535" using total_count_registry [of ?s] by (simp_all add: store_ok_def)
  then have cnt: "store_count ?s = Some ?n" by (simp add: store_count_def total_count_registry)
  obtain r where r: "handle_status (source_count R P) up ?s (cl_resp c) = Some (r, Inr 12)"
    "r = copy_at (copy_at ((copy_at ((cl_resp c)[0 := VERSION]) 1 (u16_to_le (of_nat ?n)))[3 := of_nat (source_count R P)]) 4
            (f32_to_le (sr_hz (ps_sample_rate ?s)))) 8 (u32_to_le up)"
    using cnt v(2) by (simp add: handle_status_def Let_def)
  have "take 12 r = VERSION # u16_to_le (of_nat ?n) @ of_nat (source_count R P) # f32_to_le (sr_hz (ps_sample_rate ?s)) @ u32_to_le up"
    (is "_ = ?w")
  proof -
    have "r = copy_at (cl_resp c) 0 ?w"
      unfolding r(2) using ok(2)
      by (simp add: update_0_copy_at copy_at_extend update_copy_at_extend length_f32_to_le)
    then show ?thesis using take_copy_at_0 [of ?w "cl_resp c"] by (simp add: length_f32_to_le)
  qed
  moreover have "unat (of_nat (source_count R P) :: u8) = source_count R P"
  proof -
    have "source_count R P \<le> 24" using assms(2) by (simp add: validate_sources_def MAX_STREAM_SOURCES_def)
    then show ?thesis by (simp add: unat_of_nat take_bit_nat_eq_self)
  qed
  ultimately have "accept_status \<lparr>ur_type = msg_type_u8 Status, ur_payload = take 12 r\<rparr>
      = Returns (of_nat ?n, source_count R P, sr_hz (ps_sample_rate ?s))"
    by (simp add: accept_status_def u16_to_le_def f32_to_le_def u32_to_le_def f32_from_le_def)
  moreover have "handle R P remote up (msg_type_u8 Status) [] c = Some (c\<lparr>cl_resp := r\<rparr>, Inr 12, ActNone)"
    using r(1) by (simp only: handle_def msg_type_roundtrip option.case MsgType.case respond_def option.map prod.case)
  moreover have "length r = 1024" unfolding r(2) using ok(2) by (simp add: length_f32_to_le)
  ultimately show ?thesis using assms(1) by (auto simp: control_ok_def MAX_PAYLOAD_def)
qed

text \<open>
  C8: the broker and the firmware agree on discovery. Against the firmware's own control server the
  Status reply is accepted with the true counts and sample rate, the paged parameter discovery returns
  the validated registry of the store entry by entry (index, name, type code and element count), and
  source discovery returns the rig's and programme's sources in order. The firmware's store is unchanged.
\<close>

theorem discovery_agrees_with_firmware:
  assumes "control_ok R P c" "validate_sources R P" "env_ok R P env" "se_write_ok env" "uc_unread u = []"
    "store_discoverable (cl_store c)" "\<forall>(n, v) \<in> set (firmware_sources R P). 0 \<notin> set n \<and> 0 \<notin> set v"
  defines "n \<equiv> length (registry (cl_store c))"
  shows "\<exists>status c1 u1 c2 u2 c3 u3.
    upstream_request (firmware_mcu R P env) (msg_type_u8 Status) [] c u = (c1, u1, Returns status)
    \<and> accept_status status = Returns (of_nat n, source_count R P, sr_hz (ps_sample_rate (cl_store c)))
    \<and> discover_parameters (firmware_mcu R P env) (of_nat n) c1 u1 = (c2, u2, Returns (map (registry_view (cl_store c)) [0..<n]))
    \<and> discover_sources (firmware_mcu R P env) (source_count R P) c2 u2 = (c3, u3, Returns (map source_view (firmware_sources R P)))
    \<and> cl_store c2 = cl_store c"
proof -
  obtain c1 where s: "handle R P (se_remote env) (se_uptime_ms env) (msg_type_u8 Status) [] c = Some (c1, Inr 12, ActNone)"
    "cl_store c1 = cl_store c" "control_ok R P c1"
    "accept_status \<lparr>ur_type = msg_type_u8 Status, ur_payload = take 12 (cl_resp c1)\<rparr>
      = Returns (of_nat n, source_count R P, sr_hz (ps_sample_rate (cl_store c)))"
    using status_firmware [OF assms(1,2)] unfolding n_def by blast
  let ?u1 = "u\<lparr>uc_sequence := uc_sequence u + 1\<rparr>"
  have q: "upstream_request (firmware_mcu R P env) (msg_type_u8 Status) [] c u
      = (c1, ?u1, Returns \<lparr>ur_type = msg_type_u8 Status, ur_payload = take 12 (cl_resp c1)\<rparr>)"
    by (rule firmware_request [OF assms(1-4) _ assms(5) s(1)]) simp
  have "uc_unread ?u1 = []" using assms(5) by simp
  then obtain c2 u2 where d: "discover_pages (firmware_mcu R P env) (of_nat n) 0 [] c1 ?u1
      = (c2, u2, Returns (map (registry_view (cl_store c)) [0..<n]))" "cl_store c2 = cl_store c" "control_ok R P c2" "uc_unread u2 = []"
    using discover_pages_firmware [OF s(3) assms(2-4), of ?u1 0 "[]"] assms(6) s(2) by (auto simp: n_def)
  have "map bp_name (map (registry_view (cl_store c)) [0..<n]) = map pd_name (registry (cl_store c))"
    by (rule nth_equalityI) (simp_all add: n_def registry_view_def Let_def)
  moreover have "distinct (map pd_name (registry (cl_store c)))"
    using assms(1,6) by (simp add: store_discoverable_def names_valid_iff control_ok_def store_ok_def)
  ultimately have p: "discover_parameters (firmware_mcu R P env) (of_nat n) c1 ?u1
      = (c2, u2, Returns (map (registry_view (cl_store c)) [0..<n]))"
    using d(1) by (simp add: discover_parameters_def)
  obtain c3 u3 where "discover_sources (firmware_mcu R P env) (source_count R P) c2 u2
      = (c3, u3, Returns (map source_view (firmware_sources R P)))"
    using discover_sources_firmware [OF d(3) assms(2-4) d(4) assms(7)] by blast
  then show ?thesis using q s(4) p d(2) by blast
qed

theorem discovery_agrees_with_firmware_witness:
  "\<exists>c1 u1 c2 u2 ps. discover_parameters (firmware_mcu demo_rig (pid_program 0) quiet_env) 
       (of_nat (length (registry (cl_store demo_control)))) c1 u1 = (c2, u2, Returns ps)
     \<and> map bp_name ps = map pd_name (registry (cl_store demo_control))"
proof -
  let ?n = "length (registry (cl_store demo_control))"
  have reg: "registry (cl_store demo_control) = param_read_only (as_bytes ''faults'') TU32 1 # table_params 8"
    using example_store_registry by (simp add: demo_control_def free_store_def full_store_def registry_def)
  have "store_discoverable (cl_store demo_control)"
  proof -
    have "total_count (cl_store demo_control) \<le> 65535" by (simp add: total_count_registry reg table_params_def)
    then show ?thesis
      by (simp add: store_discoverable_def names_valid_iff reg table_params_def param_read_only_def param_writable_def
          param_blob_def as_bytes_def is_ascii_def MAX_PARAM_NAME_LEN_def MAX_PAYLOAD_def)
  qed
  moreover have "\<forall>(n, v) \<in> set (firmware_sources demo_rig (pid_program 0)). 0 \<notin> set n \<and> 0 \<notin> set v"
    by (simp add: firmware_sources_def demo_shape upt_eval demo_source as_bytes_def COMMAND_EPOCH_SOURCE_def of_char_of)
  moreover have "se_write_ok quiet_env" "uc_unread fresh_upstream = []" by (simp_all add: quiet_env_def fresh_upstream_def)
  ultimately obtain c1 u1 c2 u2 where "discover_parameters (firmware_mcu demo_rig (pid_program 0) quiet_env) (of_nat ?n) c1 u1
      = (c2, u2, Returns (map (registry_view (cl_store demo_control)) [0..<?n]))"
    using discovery_agrees_with_firmware [OF demo_control_ok demo_sources quiet_env_ok, of fresh_upstream] by blast
  moreover have "map bp_name (map (registry_view (cl_store demo_control)) [0..<?n]) = map pd_name (registry (cl_store demo_control))"
    by (rule nth_equalityI) (simp_all add: registry_view_def Let_def)
  ultimately show ?thesis by blast
qed

end
