(* ===== verification/Broker_History.thy ===== *)
theory Broker_History
  imports Proto_Stream
begin

text \<open>
  The bounded packet history of \<open>helic-broker/src/history.rs\<close>. A shared \<open>Arc<[u8]>\<close> is its bytes; a
  \<open>VecDeque\<close> is a list, oldest packet first. A panic (an index or a subtraction out of range) is \<open>None\<close>.
\<close>

record Packet =
  pk_wire :: bytes
  pk_header :: StreamHeader
  pk_received_utc_ns :: int

definition packet_decode :: "bytes \<Rightarrow> int \<Rightarrow> Packet option" where
  "packet_decode wire received_utc_ns =
     (case stream_header_decode wire of
        None \<Rightarrow> None
      | Some header \<Rightarrow>
          if sh_n_sources header = 0 \<or> sh_n_records header = 0 then None
          else if length wire \<noteq> STREAM_HEADER_LEN + 4 * unat (sh_n_sources header) * unat (sh_n_records header) then None
          else Some \<lparr>pk_wire = wire, pk_header = header, pk_received_utc_ns = received_utc_ns\<rparr>)"

record History =
  hs_packets :: "Packet list"
  hs_records :: nat
  hs_capacity_records :: nat

definition history_default :: History where
  "history_default = \<lparr>hs_packets = [], hs_records = 0, hs_capacity_records = 0\<rparr>"

definition history_reset :: "nat \<Rightarrow> History \<Rightarrow> History" where
  "history_reset capacity_records h = h\<lparr>hs_packets := [], hs_records := 0, hs_capacity_records := max capacity_records 1\<rparr>"

definition history_clear :: "History \<Rightarrow> History" where
  "history_clear h = h\<lparr>hs_packets := [], hs_records := 0\<rparr>"

definition packet_records :: "Packet \<Rightarrow> nat" where
  "packet_records p = unat (sh_n_records (pk_header p))"

text \<open>\<open>while self.records > self.capacity_records && self.packets.len() > 1\<close>, dropping the oldest.\<close>

fun evict :: "nat \<Rightarrow> Packet list \<Rightarrow> nat \<Rightarrow> (Packet list \<times> nat) option" where
  "evict capacity (p # q # ps) records =
     (if records > capacity
      then (if records < packet_records p then None else evict capacity (q # ps) (records - packet_records p))
      else Some (p # q # ps, records))"
| "evict capacity ps records = Some (ps, records)"

definition history_push :: "Packet \<Rightarrow> History \<Rightarrow> History option" where
  "history_push packet h =
     map_option (\<lambda>(ps, n). h\<lparr>hs_packets := ps, hs_records := n\<rparr>)
       (evict (hs_capacity_records h) (hs_packets h @ [packet]) (hs_records h + packet_records packet))"

text \<open>The walk from the newest packet: what was selected, newest first, and how many records it has.\<close>

fun select_recent :: "nat \<Rightarrow> Packet list \<Rightarrow> nat \<Rightarrow> Packet list \<Rightarrow> Packet list \<times> nat" where
  "select_recent requested [] records selected = (selected, records)"
| "select_recent requested (p # older) records selected =
     (let records' = records + packet_records p
      in if records' \<ge> requested then (selected @ [p], records')
         else select_recent requested older records' (selected @ [p]))"

definition trim_packet :: "Packet \<Rightarrow> nat \<Rightarrow> bytes option" where
  "trim_packet p excess =
     (let h = pk_header p;
          record_bytes = 4 * unat (sh_n_sources h);
          payload_offset = STREAM_HEADER_LEN + excess * record_bytes;
          h1 = h\<lparr>sh_first_index := sh_first_index h + of_nat excess * ucast (sh_decimation h)\<rparr>
      in if unat (sh_n_records h) < unat (of_nat excess :: u16) \<or> length (pk_wire p) < payload_offset then None
         else Some (stream_header_encode (h1\<lparr>sh_n_records := sh_n_records h - of_nat excess\<rparr>) (replicate STREAM_HEADER_LEN 0)
                    @ drop payload_offset (pk_wire p)))"

definition history_recent :: "nat \<Rightarrow> History \<Rightarrow> (bytes list option) option" where
  "history_recent requested h =
     (if requested = 0 \<or> requested > hs_records h then Some None
      else
        let (newest_first, records) = select_recent requested (rev (hs_packets h)) 0 []
        in if records < requested then None
           else case rev newest_first of
                  [] \<Rightarrow> None
                | first # later \<Rightarrow>
                    (let excess = records - requested
                     in if excess = 0 then Some (Some (pk_wire first # map pk_wire later))
                        else map_option (\<lambda>wire. Some (wire # map pk_wire later)) (trim_packet first excess)))"

subsection \<open>The history is bounded and counts its records\<close>

definition packet_ok :: "Packet \<Rightarrow> bool" where
  "packet_ok p \<longleftrightarrow> packet_decode (pk_wire p) (pk_received_utc_ns p) = Some p"

definition history_ok :: "History \<Rightarrow> bool" where
  "history_ok h \<longleftrightarrow> list_all packet_ok (hs_packets h) \<and> hs_records h = sum_list (map packet_records (hs_packets h))"

lemma packet_decode_ok: "packet_decode w t = Some p \<Longrightarrow> packet_ok p"
  by (auto simp: packet_ok_def packet_decode_def split: option.splits if_splits)

lemma packet_ok_facts:
  assumes "packet_ok p"
  shows "stream_header_decode (pk_wire p) = Some (pk_header p)" "0 < packet_records p"
    "length (pk_wire p) = STREAM_HEADER_LEN + 4 * unat (sh_n_sources (pk_header p)) * packet_records p"
    "sh_n_sources (pk_header p) \<noteq> 0" "packet_records p < 2 ^ 16"
  using assms unsigned_less [of "sh_n_records (pk_header p)", where ?'a = nat]
  by (cases p; auto simp: packet_ok_def packet_decode_def packet_records_def unat_gt_0 split: option.splits if_splits)+

lemma evict_spec:
  assumes "records = sum_list (map packet_records ps)" "ps \<noteq> []"
  shows "\<exists>old kept. ps = old @ kept \<and> kept \<noteq> [] \<and> evict capacity ps records = Some (kept, sum_list (map packet_records kept))
    \<and> (sum_list (map packet_records kept) \<le> capacity \<or> length kept = 1)
    \<and> (old \<noteq> [] \<longrightarrow> capacity < packet_records (last old) + sum_list (map packet_records kept))"
  using assms
proof (induction capacity ps records rule: evict.induct)
  case (1 capacity p q ps records)
  show ?case
  proof (cases "records > capacity")
    case False
    then show ?thesis using 1 by - (rule exI [of _ "[]"], rule exI [of _ "p # q # ps"], simp)
  next
    case True
    have "\<exists>old kept. q # ps = old @ kept \<and> kept \<noteq> [] \<and> evict capacity (q # ps) (records - packet_records p) = Some (kept, sum_list (map packet_records kept))
        \<and> (sum_list (map packet_records kept) \<le> capacity \<or> length kept = 1)
        \<and> (old \<noteq> [] \<longrightarrow> capacity < packet_records (last old) + sum_list (map packet_records kept))"
      using 1 True by simp
    then obtain old kept where o: "q # ps = old @ kept" "kept \<noteq> []"
      "evict capacity (q # ps) (records - packet_records p) = Some (kept, sum_list (map packet_records kept))"
      "sum_list (map packet_records kept) \<le> capacity \<or> length kept = 1"
      "old \<noteq> [] \<longrightarrow> capacity < packet_records (last old) + sum_list (map packet_records kept)" by blast
    from 1(2) o(1) have "old = [] \<Longrightarrow> records = packet_records p + sum_list (map packet_records kept)" by (cases old) auto
    moreover have "evict capacity (p # q # ps) records = Some (kept, sum_list (map packet_records kept))"
      using o(3) True 1(2) by simp
    ultimately show ?thesis using o(1,2,4,5) True
      by - (rule exI [of _ "p # old"], rule exI [of _ kept], auto)
  qed
qed simp_all

text \<open>
  Pushing a packet never panics, keeps the record count exact and the packets valid, drops oldest
  packets first and no more than needed, and leaves at most the configured number of records, unless the
  newest packet alone has more.
\<close>

theorem history_push_bounded:
  assumes "history_ok h" "packet_decode wire received = Some p"
  shows "\<exists>h' old. history_push p h = Some h' \<and> history_ok h' \<and> hs_packets h @ [p] = old @ hs_packets h' \<and> hs_packets h' \<noteq> []
    \<and> (hs_records h' \<le> hs_capacity_records h' \<or> hs_packets h' = [p])
    \<and> (old \<noteq> [] \<longrightarrow> hs_capacity_records h < packet_records (last old) + hs_records h')"
proof -
  have "hs_records h + packet_records p = sum_list (map packet_records (hs_packets h @ [p]))" using assms(1) by (simp add: history_ok_def)
  from evict_spec [OF this, of "hs_capacity_records h"]
  obtain old kept where e: "hs_packets h @ [p] = old @ kept" "kept \<noteq> []"
    "evict (hs_capacity_records h) (hs_packets h @ [p]) (hs_records h + packet_records p) = Some (kept, sum_list (map packet_records kept))"
    "sum_list (map packet_records kept) \<le> hs_capacity_records h \<or> length kept = 1"
    "old \<noteq> [] \<longrightarrow> hs_capacity_records h < packet_records (last old) + sum_list (map packet_records kept)"
    by blast
  have "list_all packet_ok (hs_packets h @ [p])" using assms packet_decode_ok by (simp add: history_ok_def)
  then have "list_all packet_ok kept" by (simp add: e(1))
  moreover have "length kept = 1 \<Longrightarrow> kept = [p]"
    using e(1,2) arg_cong [OF e(1), of last] by (cases kept) auto
  ultimately show ?thesis using e by (auto simp: history_push_def history_ok_def)
qed

subsection \<open>Recent records are replayed exactly\<close>

lemma select_recent_spec:
  assumes "records < requested" "requested \<le> records + sum_list (map packet_records older)"
  shows "\<exists>taken rest. older = taken @ rest \<and> taken \<noteq> []
    \<and> select_recent requested older records selected = (selected @ taken, records + sum_list (map packet_records taken))
    \<and> requested \<le> records + sum_list (map packet_records taken)
    \<and> records + sum_list (map packet_records (butlast taken)) < requested"
  using assms
proof (induction older arbitrary: records selected)
  case Nil
  then show ?case by simp
next
  case (Cons p older)
  show ?case
  proof (cases "records + packet_records p \<ge> requested")
    case True
    then show ?thesis using Cons.prems by - (rule exI [of _ "[p]"], rule exI [of _ older], simp)
  next
    case False
    then obtain taken rest where t: "older = taken @ rest" "taken \<noteq> []"
      "select_recent requested older (records + packet_records p) (selected @ [p])
        = (selected @ [p] @ taken, records + packet_records p + sum_list (map packet_records taken))"
      "requested \<le> records + packet_records p + sum_list (map packet_records taken)"
      "records + packet_records p + sum_list (map packet_records (butlast taken)) < requested"
      using Cons.IH [of "records + packet_records p" "selected @ [p]"] Cons.prems by auto
    then show ?thesis using False by - (rule exI [of _ "p # taken"], rule exI [of _ rest], simp)
  qed
qed

definition payload_of :: "bytes \<Rightarrow> bytes" where "payload_of wire = drop STREAM_HEADER_LEN wire"

lemma trim_packet_spec:
  assumes "packet_ok p" "0 < excess" "excess < packet_records p"
  defines "h \<equiv> pk_header p"
  shows "\<exists>w h'. trim_packet p excess = Some w \<and> stream_header_decode w = Some h' \<and> packet_decode w t \<noteq> None
    \<and> h' = h\<lparr>sh_first_index := sh_first_index h + of_nat excess * ucast (sh_decimation h), sh_n_records := sh_n_records h - of_nat excess\<rparr>
    \<and> unat (sh_n_records h') = packet_records p - excess
    \<and> payload_of w = drop (excess * (4 * unat (sh_n_sources h))) (payload_of (pk_wire p))"
proof -
  note ok = packet_ok_facts [OF assms(1)]
  let ?h = "h\<lparr>sh_first_index := sh_first_index h + of_nat excess * ucast (sh_decimation h), sh_n_records := sh_n_records h - of_nat excess\<rparr>"
  let ?rb = "4 * unat (sh_n_sources h)" and ?n = "packet_records p"
  have e: "unat (of_nat excess :: u16) = excess" using assms(3) ok(5) by simp
  have n: "unat (sh_n_records h) = ?n" by (simp add: h_def packet_records_def)
  have sub: "unat (sh_n_records h - of_nat excess) = ?n - excess"
    using e n assms(3) by (simp add: unat_sub word_le_nat_alt)
  have len: "length (pk_wire p) = 20 + ?rb * ?n" using ok(3) by (simp add: h_def STREAM_HEADER_LEN_def)
  have "excess * ?rb \<le> ?n * ?rb" using assms(3) by (intro mult_le_mono1) simp
  then have off: "20 + excess * ?rb \<le> length (pk_wire p)" using len by (simp add: mult.commute)
  have enc: "stream_header_encode ?h (replicate STREAM_HEADER_LEN 0) = stream_header_bytes ?h"
    using stream_header_encode_bytes [of "replicate STREAM_HEADER_LEN 0" ?h] by (simp add: copy_at_def length_stream_header_bytes STREAM_HEADER_LEN_def)
  let ?w = "stream_header_bytes ?h @ drop (20 + excess * ?rb) (pk_wire p)"
  have w: "trim_packet p excess = Some ?w"
    using e n assms(3) off enc by (simp add: trim_packet_def Let_def h_def [symmetric] STREAM_HEADER_LEN_def)
  have d: "stream_header_decode ?w = Some ?h" by (rule stream_header_decode_bytes)
  have "?rb * (?n - excess) = ?rb * ?n - excess * ?rb" by (metis diff_mult_distrib2 mult.commute)
  then have "length ?w = 20 + ?rb * (?n - excess)"
    using len by (simp add: length_stream_header_bytes)
  moreover have "sh_n_records h - of_nat excess \<noteq> 0" using sub assms(3) by (metis unsigned_0 zero_less_diff less_irrefl)
  ultimately have "packet_decode ?w t \<noteq> None"
    using d sub ok(4) by (simp add: packet_decode_def h_def STREAM_HEADER_LEN_def)
  moreover have "payload_of ?w = drop (excess * ?rb) (payload_of (pk_wire p))"
    by (simp add: payload_of_def length_stream_header_bytes STREAM_HEADER_LEN_def add.commute)
  ultimately show ?thesis using w d sub by auto
qed

definition wire_records :: "bytes \<Rightarrow> nat" where
  "wire_records w = (case stream_header_decode w of None \<Rightarrow> 0 | Some h \<Rightarrow> unat (sh_n_records h))"

definition payloads :: "Packet list \<Rightarrow> bytes" where
  "payloads ps = concat (map (payload_of \<circ> pk_wire) ps)"

lemma length_payloads:
  assumes "list_all packet_ok ps" "\<forall>p\<in>set ps. unat (sh_n_sources (pk_header p)) = ns"
  shows "length (payloads ps) = 4 * ns * sum_list (map packet_records ps)"
  using assms
proof (induction ps)
  case (Cons p ps)
  then have "packet_ok p" by simp
  from packet_ok_facts(3) [OF this] Cons show ?case
    by (simp add: payloads_def payload_of_def STREAM_HEADER_LEN_def distrib_left)
qed (simp add: payloads_def)

lemma packet_ok_decode: "packet_ok p \<Longrightarrow> packet_decode (pk_wire p) t = Some (p\<lparr>pk_received_utc_ns := t\<rparr>)"
  by (cases p) (auto simp: packet_ok_def packet_decode_def split: option.splits if_splits)

lemma ok_wires:
  assumes "list_all packet_ok ps"
  shows "\<forall>x\<in>set (map pk_wire ps). \<exists>q. packet_decode x t = Some q"
    and "sum_list (map (wire_records \<circ> pk_wire) ps) = sum_list (map packet_records ps)"
  using assms
  by (induction ps) (auto simp: wire_records_def packet_records_def packet_ok_facts(1) packet_ok_decode)

lemma recent_split:
  assumes "history_ok h" "0 < k" "k \<le> hs_records h"
  shows "\<exists>old p later. hs_packets h = old @ p # later \<and> sum_list (map packet_records later) < k
    \<and> k \<le> packet_records p + sum_list (map packet_records later)
    \<and> select_recent k (rev (hs_packets h)) 0 [] = (rev (p # later), packet_records p + sum_list (map packet_records later))"
proof -
  have "0 < k" "k \<le> 0 + sum_list (map packet_records (rev (hs_packets h)))"
    using assms by (simp_all add: history_ok_def rev_map [symmetric] sum_list_rev)
  from select_recent_spec [OF this, of "[]"] obtain taken rest where t: "rev (hs_packets h) = taken @ rest" "taken \<noteq> []"
    "select_recent k (rev (hs_packets h)) 0 [] = (taken, sum_list (map packet_records taken))"
    "k \<le> sum_list (map packet_records taken)" "sum_list (map packet_records (butlast taken)) < k" by auto
  obtain init p where tk: "taken = init @ [p]" using t(2) by (metis append_butlast_last_id)
  have "hs_packets h = rev rest @ p # rev init" using arg_cong [OF t(1), of rev] tk by simp
  then show ?thesis using t tk
    by - (rule exI [of _ "rev rest"], rule exI [of _ p], rule exI [of _ "rev init"],
        simp add: rev_map [symmetric] sum_list_rev add.commute)
qed

lemma history_recent_cases:
  assumes "history_ok h" "0 < k" "k \<le> hs_records h" "hs_packets h = old @ p # later"
    "select_recent k (rev (hs_packets h)) 0 [] = (rev (p # later), packet_records p + sum_list (map packet_records later))"
    "k \<le> packet_records p + sum_list (map packet_records later)" "sum_list (map packet_records later) < k"
  defines "excess \<equiv> packet_records p + sum_list (map packet_records later) - k"
  shows "\<exists>w h'. history_recent k h = Some (Some (w # map pk_wire later)) \<and> (\<exists>q. packet_decode w t = Some q)
    \<and> stream_header_decode w = Some h'
    \<and> h' = (pk_header p)\<lparr>sh_first_index := sh_first_index (pk_header p) + of_nat excess * ucast (sh_decimation (pk_header p)),
                        sh_n_records := sh_n_records (pk_header p) - of_nat excess\<rparr>
    \<and> unat (sh_n_records h') = packet_records p - excess
    \<and> payload_of w = drop (excess * (4 * unat (sh_n_sources (pk_header p)))) (payload_of (pk_wire p))"
proof (cases "excess = 0")
  have p: "packet_ok p" using assms(1,4) by (simp add: history_ok_def)
  case True
  have "history_recent k h = Some (Some (pk_wire p # map pk_wire later))"
    using True [unfolded excess_def] assms(2,3,5,6) by (simp add: history_recent_def del: sum_list_eq_0_iff)
  with packet_ok_decode [OF p, of t] show ?thesis
    using True packet_ok_facts(1) [OF p]
    by - (rule exI [of _ "pk_wire p"], rule exI [of _ "pk_header p"], simp add: packet_records_def)
next
  have p: "packet_ok p" using assms(1,4) by (simp add: history_ok_def)
  case False
  have "excess < packet_records p" using assms(7,6) by (simp add: excess_def)
  from trim_packet_spec [OF p _ this, of t] False obtain w h' where
    "trim_packet p excess = Some w" "stream_header_decode w = Some h'" "packet_decode w t \<noteq> None"
    "h' = (pk_header p)\<lparr>sh_first_index := sh_first_index (pk_header p) + of_nat excess * ucast (sh_decimation (pk_header p)),
                        sh_n_records := sh_n_records (pk_header p) - of_nat excess\<rparr>"
    "unat (sh_n_records h') = packet_records p - excess"
    "payload_of w = drop (excess * (4 * unat (sh_n_sources (pk_header p)))) (payload_of (pk_wire p))" by auto
  then show ?thesis
    using False assms(2,3,5,6)
    by - (rule exI [of _ w], rule exI [of _ h'], auto simp: history_recent_def excess_def)
qed

text \<open>
  C15: asked for the \<open>k\<close> most recent records of a history that holds at least that many, \<open>recent\<close> returns
  packets that each decode, that together carry exactly \<open>k\<close> records, and whose payloads are the last
  \<open>k\<close> records of the history byte for byte; only the first packet is rewritten, its header advanced by
  the records left out times the decimation.
\<close>

theorem recent_replays_last_records:
  assumes "history_ok h" "0 < k" "k \<le> hs_records h" "\<forall>p\<in>set (hs_packets h). unat (sh_n_sources (pk_header p)) = ns"
  shows "\<exists>w old p later hd. history_recent k h = Some (Some (w # map pk_wire later)) \<and> hs_packets h = old @ p # later
    \<and> (\<forall>x\<in>set (w # map pk_wire later). \<exists>q. packet_decode x t = Some q)
    \<and> sum_list (map wire_records (w # map pk_wire later)) = k
    \<and> concat (map payload_of (w # map pk_wire later)) = drop (4 * ns * (hs_records h - k)) (payloads (hs_packets h))
    \<and> stream_header_decode w = Some hd
    \<and> sh_first_index hd = sh_first_index (pk_header p) + of_nat (packet_records p - wire_records w) * ucast (sh_decimation (pk_header p))"
proof -
  obtain old p later where s: "hs_packets h = old @ p # later" "sum_list (map packet_records later) < k"
    "k \<le> packet_records p + sum_list (map packet_records later)"
    "select_recent k (rev (hs_packets h)) 0 [] = (rev (p # later), packet_records p + sum_list (map packet_records later))"
    using recent_split [OF assms(1-3)] by blast
  define excess where "excess = packet_records p + sum_list (map packet_records later) - k"
  obtain w h' where w: "history_recent k h = Some (Some (w # map pk_wire later))" "\<exists>q. packet_decode w t = Some q"
    "stream_header_decode w = Some h'"
    "h' = (pk_header p)\<lparr>sh_first_index := sh_first_index (pk_header p) + of_nat excess * ucast (sh_decimation (pk_header p)),
                        sh_n_records := sh_n_records (pk_header p) - of_nat excess\<rparr>"
    "unat (sh_n_records h') = packet_records p - excess"
    "payload_of w = drop (excess * (4 * unat (sh_n_sources (pk_header p)))) (payload_of (pk_wire p))"
    using history_recent_cases [OF assms(1-3) s(1,4,3,2), of t] unfolding excess_def by blast
  have oks: "list_all packet_ok old" "list_all packet_ok later" "packet_ok p"
    using assms(1) s(1) by (simp_all add: history_ok_def)
  have ns: "unat (sh_n_sources (pk_header p)) = ns" using assms(4) s(1) by simp
  have len: "length (payloads old) = 4 * ns * sum_list (map packet_records old)"
    "length (payload_of (pk_wire p)) = 4 * ns * packet_records p"
    using length_payloads [OF oks(1), of ns] length_payloads [of "[p]" ns] oks(3) assms(4) s(1) by (auto simp: payloads_def)
  have tot: "hs_records h - k = sum_list (map packet_records old) + excess"
    using assms(1) s(1,3) by (simp add: history_ok_def excess_def)
  have le: "excess < packet_records p" using s(2,3) by (simp add: excess_def)
  have wr: "wire_records w = packet_records p - excess" using w(3,5) by (simp add: wire_records_def)
  have "sum_list (map wire_records (w # map pk_wire later)) = k"
    using wr ok_wires(2) [OF oks(2)] s(2,3) by (simp add: excess_def)
  moreover have "concat (map payload_of (w # map pk_wire later)) = drop (4 * ns * (hs_records h - k)) (payloads (hs_packets h))"
  proof -
    have "payloads (hs_packets h) = payloads old @ payload_of (pk_wire p) @ payloads later" by (simp add: s(1) payloads_def)
    moreover have "4 * ns * (hs_records h - k) = length (payloads old) + excess * (4 * ns)"
      by (simp add: len(1) tot distrib_left)
    moreover have "excess * (4 * ns) \<le> length (payload_of (pk_wire p))"
      using le len(2) by (simp add: mult.commute)
    ultimately show ?thesis by (simp add: w(6) ns payloads_def comp_def)
  qed
  moreover have "packet_records p - wire_records w = excess" using wr le by simp
  ultimately show ?thesis using w(1-4) s(1) ok_wires(1) [OF oks(2), of t]
    by - (rule exI [of _ w], rule exI [of _ old], rule exI [of _ p], rule exI [of _ later], rule exI [of _ h'], auto)
qed

definition demo_header :: StreamHeader where
  "demo_header = \<lparr>sh_n_sources = 1, sh_seq = 0, sh_first_index = 10, sh_dropped = 0, sh_decimation = 2, sh_n_records = 3\<rparr>"

definition demo_packet :: Packet where
  "demo_packet = \<lparr>pk_wire = stream_header_bytes demo_header @ [1, 0, 0, 0, 2, 0, 0, 0, 3, 0, 0, 0],
     pk_header = demo_header, pk_received_utc_ns = 0\<rparr>"

lemma demo_packet_decodes: "packet_decode (pk_wire demo_packet) 0 = Some demo_packet"
  by (simp add: packet_decode_def demo_packet_def stream_header_decode_bytes length_stream_header_bytes STREAM_HEADER_LEN_def)
    (simp add: demo_header_def)

definition demo_history :: History where
  "demo_history = \<lparr>hs_packets = [demo_packet], hs_records = 3, hs_capacity_records = 4\<rparr>"

lemma demo_history_ok: "history_ok demo_history"
  using packet_decode_ok [OF demo_packet_decodes]
  by (simp add: history_ok_def demo_history_def packet_records_def demo_packet_def demo_header_def)

theorem history_push_bounded_witness:
  "history_ok demo_history \<and> packet_decode (pk_wire demo_packet) 0 = Some demo_packet
   \<and> (\<exists>h'. history_push demo_packet demo_history = Some h' \<and> history_ok h')"
  using history_push_bounded [OF demo_history_ok demo_packet_decodes] demo_history_ok demo_packet_decodes by blast

theorem recent_replays_last_records_witness:
  "history_ok demo_history \<and> (\<exists>w ws. history_recent 2 demo_history = Some (Some (w # ws)) \<and> sum_list (map wire_records (w # ws)) = 2)"
  using recent_replays_last_records [OF demo_history_ok, of 2 1 0] demo_history_ok
  by (auto simp: demo_history_def demo_packet_def demo_header_def)

end
