(* ===== verification/Broker_Storage.thy ===== *)
theory Broker_Storage
  imports Broker_History Broker_Discovery
begin

text \<open>
  The recording of \<open>helic-broker/src/storage.rs\<close>: the session metadata, the reasons a segment is closed for,
  and the segmented writer.
\<close>

record SessionMetadata =
  se_experiment :: bytes
  se_firmware :: bytes
  se_sample_rate_hz :: f32
  se_decimation :: u16
  se_configured_count :: u32
  se_sources :: "SourceMetadata list"
  se_started_utc_ns :: int

datatype CloseReason = SegmentLimit | CloseStreamStop | CountComplete | UpstreamLost | StorageError
  | BrokerShutdown | StartRejected | McuReboot

fun close_reason_u8 :: "CloseReason \<Rightarrow> u8" where
  "close_reason_u8 SegmentLimit = 1"
| "close_reason_u8 CloseStreamStop = 2"
| "close_reason_u8 CountComplete = 3"
| "close_reason_u8 UpstreamLost = 4"
| "close_reason_u8 StorageError = 5"
| "close_reason_u8 BrokerShutdown = 6"
| "close_reason_u8 StartRejected = 7"
| "close_reason_u8 McuReboot = 8"

definition completes_session :: "CloseReason \<Rightarrow> bool" where
  "completes_session reason \<longleftrightarrow> reason = CloseStreamStop \<or> reason = CountComplete \<or> reason = BrokerShutdown"

subsection \<open>What the writer is given\<close>

text \<open>
  The HDF5 library, the file system and the \<open>time\<close> and \<open>uuid\<close> crates are a parameter: whether a call succeeds after the
  calls made on the writer so far, the identifier it gives a new dataset, which files exist, how long the file is,
  the clocks, the formatted timestamp and the session identifier. A writer is the list of the calls that were made on it.
\<close>

datatype H5Call =
    H5Create bytes
  | H5Group bytes bytes
  | H5AttrString bytes bytes bytes
  | H5AttrNumeric bytes bytes bytes
  | H5Strings bytes "bytes list"
  | H5Assign bytes nat
  | H5Stream bytes nat "nat list" "nat list"
  | H5Dataset bytes bytes
  | H5StartSwmr
  | H5Append nat bytes
  | H5Flush
  | H5Close
  | H5OpenRw bytes
  | H5Write bytes bytes

record StorageEnv =
  fe_ok :: "H5Call list \<Rightarrow> H5Call \<Rightarrow> bool"
  fe_id :: "H5Call list \<Rightarrow> nat"
  fe_exists :: "bytes \<Rightarrow> bool"
  fe_len :: nat
  fe_now :: nat
  fe_unix_timestamp_nanos :: int
  fe_timestamp :: "int \<Rightarrow> bytes option"
  fe_uuid :: bytes
  fe_rename_ok :: bool

definition h5 :: "StorageEnv \<Rightarrow> H5Call \<Rightarrow> H5Call list \<Rightarrow> H5Call list answer" where
  "h5 e c calls = (if fe_ok e calls c then Returns (calls @ [c]) else Fails)"

fun h5_all :: "StorageEnv \<Rightarrow> H5Call list \<Rightarrow> H5Call list \<Rightarrow> H5Call list answer" where
  "h5_all e [] calls = Returns calls"
| "h5_all e (c # cs) calls = and_then (h5 e c calls) (h5_all e cs)"

text \<open>A call that returns a dataset, and its assignment to a group.\<close>

definition h5_dataset :: "StorageEnv \<Rightarrow> H5Call \<Rightarrow> bytes \<Rightarrow> H5Call list \<Rightarrow> (H5Call list \<times> nat) answer" where
  "h5_dataset e c grp calls =
     and_then (h5 e c calls) (\<lambda>calls1.
       let dataset = fe_id e calls1
       in and_then (h5 e (H5Assign grp dataset) calls1) (\<lambda>calls2. Returns (calls2, dataset)))"

fun h5_datasets :: "StorageEnv \<Rightarrow> (H5Call \<times> bytes) list \<Rightarrow> H5Call list \<Rightarrow> (H5Call list \<times> nat list) answer" where
  "h5_datasets e [] calls = Returns (calls, [])"
| "h5_datasets e ((c, grp) # rest) calls =
     and_then (h5_dataset e c grp calls) (\<lambda>(calls1, d).
     and_then (h5_datasets e rest calls1) (\<lambda>(calls2, ds). Returns (calls2, d # ds)))"

definition scalar_stream :: "nat \<Rightarrow> string \<Rightarrow> string \<Rightarrow> nat \<Rightarrow> H5Call \<times> bytes" where
  "scalar_stream width name grp chunk = (H5Stream (as_bytes name) width [1] [chunk, 1], as_bytes grp)"

definition RECORD_CHUNK :: nat where "RECORD_CHUNK = 256"
definition PACKET_CHUNK :: nat where "PACKET_CHUNK = 64"

subsection \<open>Segments and sessions\<close>

record OpenSegment =
  os_writer :: "H5Call list"
  os_partial_path :: bytes
  os_final_path :: bytes
  os_values :: nat
  os_sample_index :: nat
  os_packet_sequence :: nat
  os_packet_first_index :: nat
  os_packet_dropped :: nat
  os_packet_record_offset :: nat
  os_packet_record_count :: nat
  os_packet_received_utc_ns :: nat
  os_last_flush :: nat

text \<open>A file that was closed, finalised and renamed.\<close>

record CaptureFile =
  cf_segment :: OpenSegment
  cf_finalised :: "H5Call list"
  cf_reason :: CloseReason
  cf_session_complete :: bool

record SegmentSession =
  sg_segment_size :: nat
  sg_session_id :: "bytes option"
  sg_metadata :: "SessionMetadata option"
  sg_prefix :: bytes
  sg_segment_index :: nat
  sg_session_record_offset :: nat
  sg_segment :: "OpenSegment option"
  sg_files :: "CaptureFile list"

definition session_new :: "nat \<Rightarrow> SegmentSession" where
  "session_new segment_size = \<lparr>sg_segment_size = segment_size, sg_session_id = None, sg_metadata = None, sg_prefix = [],
     sg_segment_index = 0, sg_session_record_offset = 0, sg_segment = None, sg_files = []\<rparr>"

text \<open>A character outside ASCII is one underscore: its first byte gives it, its continuation bytes nothing.\<close>

definition sanitise_byte :: "u8 \<Rightarrow> bytes" where
  "sanitise_byte b =
     (if utf8_tail b then []
      else if (0x30 \<le> b \<and> b \<le> 0x39) \<or> (0x41 \<le> b \<and> b \<le> 0x5A) \<or> (0x61 \<le> b \<and> b \<le> 0x7A) \<or> b = 0x2D \<or> b = 0x5F then [b]
      else [0x5F])"

definition sanitise :: "bytes \<Rightarrow> bytes" where
  "sanitise text = (let out = concat (map sanitise_byte text) in if out = [] then as_bytes ''device'' else out)"

fun decimal :: "nat \<Rightarrow> bytes" where
  "decimal n = (if n < 10 then [of_nat n + 0x30] else decimal (n div 10) @ [of_nat (n mod 10) + 0x30])"

declare decimal.simps [simp del]

text \<open>\<open>{:04}\<close>.\<close>

definition decimal4 :: "nat \<Rightarrow> bytes" where
  "decimal4 n = (let d = decimal n in replicate (4 - length d) 0x30 @ d)"

definition segment_base :: "bytes \<Rightarrow> nat \<Rightarrow> bytes" where
  "segment_base prefix index = prefix @ as_bytes ''_'' @ decimal4 index @ as_bytes ''.h5''"

definition i64_to_le :: "int \<Rightarrow> bytes" where
  "i64_to_le x = map (\<lambda>k. word_of_int (x div 2 ^ (8 * k))) [0..<8]"

text \<open>The calls of \<open>open_segment\<close> before the datasets: groups and attributes.\<close>

definition segment_header :: "bytes \<Rightarrow> SessionMetadata \<Rightarrow> bytes \<Rightarrow> SegmentSession \<Rightarrow> H5Call list" where
  "segment_header partial_path metadata session_id s =
     (let root = as_bytes ''/''; attr = (\<lambda>name text. H5AttrString root (as_bytes name) text);
          num = (\<lambda>name bs. H5AttrNumeric root (as_bytes name) bs)
      in [H5Create partial_path, H5Group root (as_bytes ''sources''), H5Group root (as_bytes ''records''), H5Group root (as_bytes ''packets''),
          attr ''format'' (as_bytes ''HELIC-DAQ broker capture''), num ''format_version'' (u32_to_le 1), attr ''session_id'' session_id,
          num ''segment_index'' (u32_to_le (of_nat (sg_segment_index s))),
          num ''session_record_offset'' (i64_to_le (int (sg_session_record_offset s))),
          attr ''experiment'' (se_experiment metadata), attr ''firmware'' (se_firmware metadata),
          attr ''broker_firmware'' (as_bytes ''helic-broker 0.3.1''), num ''stream_protocol_version'' [VERSION],
          num ''sample_rate_hz'' (f32_to_le (se_sample_rate_hz metadata)), num ''decimation'' (u16_to_le (se_decimation metadata)),
          num ''configured_count'' (u32_to_le (se_configured_count metadata)), num ''started_utc_ns'' (i64_to_le (se_started_utc_ns metadata))])"

definition segment_trailer :: "H5Call list" where
  "segment_trailer =
     [H5Dataset (as_bytes ''ended_utc_ns'') (i64_to_le 0), H5Dataset (as_bytes ''close_reason'') [0],
      H5Dataset (as_bytes ''clean_close'') [0], H5Dataset (as_bytes ''session_complete'') [0], H5StartSwmr]"

text \<open>The datasets of \<open>open_segment\<close>, in the order they are created and assigned to their groups.\<close>

definition segment_datasets :: "SessionMetadata \<Rightarrow> (H5Call \<times> bytes) list" where
  "segment_datasets metadata =
     (let n = length (se_sources metadata)
      in [(H5Strings (as_bytes ''names'') (map sm_name (se_sources metadata)), as_bytes ''/sources''),
          (H5Strings (as_bytes ''units'') (map sm_unit (se_sources metadata)), as_bytes ''/sources''),
          (H5Stream (as_bytes ''values'') 4 [n] [RECORD_CHUNK, n], as_bytes ''/records''),
          scalar_stream 4 ''sample_index'' ''/records'' RECORD_CHUNK,
          scalar_stream 4 ''sequence'' ''/packets'' PACKET_CHUNK,
          scalar_stream 4 ''first_index'' ''/packets'' PACKET_CHUNK,
          scalar_stream 4 ''dropped'' ''/packets'' PACKET_CHUNK,
          scalar_stream 8 ''record_offset'' ''/packets'' PACKET_CHUNK,
          scalar_stream 2 ''record_count'' ''/packets'' PACKET_CHUNK,
          scalar_stream 8 ''received_utc_ns'' ''/packets'' PACKET_CHUNK])"

definition open_datasets :: "StorageEnv \<Rightarrow> SessionMetadata \<Rightarrow> bytes \<Rightarrow> bytes \<Rightarrow> H5Call list \<Rightarrow> OpenSegment answer" where
  "open_datasets e metadata partial_path final_path calls =
     and_then (h5_datasets e (segment_datasets metadata) calls) (\<lambda>(calls1, ds).
     and_then (h5_all e segment_trailer calls1) (\<lambda>calls2.
       Returns \<lparr>os_writer = calls2, os_partial_path = partial_path, os_final_path = final_path, os_values = ds ! 2,
         os_sample_index = ds ! 3, os_packet_sequence = ds ! 4, os_packet_first_index = ds ! 5, os_packet_dropped = ds ! 6,
         os_packet_record_offset = ds ! 7, os_packet_record_count = ds ! 8, os_packet_received_utc_ns = ds ! 9,
         os_last_flush = fe_now e\<rparr>))"

definition open_segment :: "StorageEnv \<Rightarrow> SegmentSession \<Rightarrow> SegmentSession answer" where
  "open_segment e s =
     (case sg_metadata s of
        None \<Rightarrow> Fails
      | Some metadata \<Rightarrow>
          let base = segment_base (sg_prefix s) (sg_segment_index s); partial_path = base @ as_bytes ''.partial''
          in if fe_exists e partial_path \<or> fe_exists e base then Fails
             else case sg_session_id s of
                    None \<Rightarrow> Fails
                  | Some session_id \<Rightarrow>
                      and_then (h5_all e (segment_header partial_path metadata session_id s) []) (\<lambda>calls.
                      and_then (open_datasets e metadata partial_path base calls) (\<lambda>segment.
                        Returns (s\<lparr>sg_segment := Some segment\<rparr>))))"

definition session_start :: "StorageEnv \<Rightarrow> SessionMetadata \<Rightarrow> SegmentSession \<Rightarrow> SegmentSession answer" where
  "session_start e metadata s =
     (if sg_segment s \<noteq> None then Fails
      else if se_sources metadata = [] then Fails
      else case fe_timestamp e (se_started_utc_ns metadata) of
             None \<Rightarrow> Fails
           | Some timestamp \<Rightarrow>
               open_segment e (s\<lparr>sg_prefix := timestamp @ as_bytes ''_'' @ sanitise (se_experiment metadata), sg_session_id := Some (fe_uuid e),
                 sg_metadata := Some metadata, sg_segment_index := 0, sg_session_record_offset := 0\<rparr>))"

text \<open>The clock as an \<open>i64\<close>: nanoseconds that do not fit saturate.\<close>

definition utc_now_ns :: "StorageEnv \<Rightarrow> int" where
  "utc_now_ns e =
     (let nanos = fe_unix_timestamp_nanos e
      in if - (2 ^ 63) \<le> nanos \<and> nanos < 2 ^ 63 then nanos else if nanos < 0 then - (2 ^ 63) else 2 ^ 63 - 1)"

text \<open>The closed file is opened again, through another handle, and its four trailer datasets are overwritten.\<close>

definition finalise_file :: "StorageEnv \<Rightarrow> bytes \<Rightarrow> CloseReason \<Rightarrow> bool \<Rightarrow> H5Call list answer" where
  "finalise_file e path reason session_complete =
     h5_all e [H5OpenRw path, H5Write (as_bytes ''ended_utc_ns'') (i64_to_le (utc_now_ns e)),
       H5Write (as_bytes ''close_reason'') [close_reason_u8 reason], H5Write (as_bytes ''clean_close'') [1],
       H5Write (as_bytes ''session_complete'') [of_bool session_complete], H5Close] []"

definition close_segment :: "StorageEnv \<Rightarrow> CloseReason \<Rightarrow> bool \<Rightarrow> SegmentSession \<Rightarrow> SegmentSession answer" where
  "close_segment e reason session_complete s =
     (case sg_segment s of
        None \<Rightarrow> Fails
      | Some segment \<Rightarrow>
          and_then (h5 e H5Close (os_writer segment)) (\<lambda>calls.
          and_then (finalise_file e (os_partial_path segment) reason session_complete) (\<lambda>finalised.
            if \<not> fe_rename_ok e then Fails
            else Returns (s\<lparr>sg_segment := None, sg_files := sg_files s @
              [\<lparr>cf_segment = segment\<lparr>os_writer := calls\<rparr>, cf_finalised = finalised, cf_reason = reason, cf_session_complete = session_complete\<rparr>]\<rparr>))))"

definition rotate_segment :: "StorageEnv \<Rightarrow> SegmentSession \<Rightarrow> SegmentSession answer" where
  "rotate_segment e s =
     and_then (close_segment e SegmentLimit False s) (\<lambda>s1. open_segment e (s1\<lparr>sg_segment_index := sg_segment_index s1 + 1\<rparr>))"

definition session_stop :: "StorageEnv \<Rightarrow> CloseReason \<Rightarrow> SegmentSession \<Rightarrow> SegmentSession answer" where
  "session_stop e reason s =
     (if sg_segment s = None then Returns s
      else and_then (close_segment e reason (completes_session reason) s) (\<lambda>s1.
             Returns (s1\<lparr>sg_metadata := None, sg_session_id := None\<rparr>)))"

definition session_abandon :: "SegmentSession \<Rightarrow> SegmentSession" where
  "session_abandon s = s\<lparr>sg_segment := None, sg_metadata := None, sg_session_id := None\<rparr>"

text \<open>The frames of one packet: a row of values and its sample index for every record, then one row per packet dataset.\<close>

definition row_bytes :: "Packet \<Rightarrow> nat \<Rightarrow> nat \<Rightarrow> bytes" where
  "row_bytes packet width row = (let start = STREAM_HEADER_LEN + row * width in subslice (pk_wire packet) start (start + width))"

definition row_index :: "Packet \<Rightarrow> nat \<Rightarrow> u32" where
  "row_index packet row = sh_first_index (pk_header packet) + of_nat row * ucast (sh_decimation (pk_header packet))"

definition record_frames :: "OpenSegment \<Rightarrow> Packet \<Rightarrow> nat \<Rightarrow> H5Call list" where
  "record_frames segment packet width =
     concat (map (\<lambda>row. [H5Append (os_values segment) (row_bytes packet width row),
                          H5Append (os_sample_index segment) (u32_to_le (row_index packet row))]) [0..<packet_records packet])"

definition packet_frames :: "OpenSegment \<Rightarrow> Packet \<Rightarrow> nat \<Rightarrow> H5Call list" where
  "packet_frames segment packet record_offset =
     (let h = pk_header packet
      in [H5Append (os_packet_sequence segment) (u32_to_le (sh_seq h)), H5Append (os_packet_first_index segment) (u32_to_le (sh_first_index h)),
          H5Append (os_packet_dropped segment) (u32_to_le (sh_dropped h)), H5Append (os_packet_record_offset segment) (i64_to_le (int record_offset)),
          H5Append (os_packet_record_count segment) (u16_to_le (sh_n_records h)),
          H5Append (os_packet_received_utc_ns segment) (i64_to_le (pk_received_utc_ns packet))])"

definition session_append :: "StorageEnv \<Rightarrow> Packet \<Rightarrow> SegmentSession \<Rightarrow> SegmentSession answer" where
  "session_append e packet s =
     (case (sg_metadata s, sg_segment s) of
        (Some metadata, Some segment) \<Rightarrow>
          let width = 4 * length (se_sources metadata)
          in if unat (sh_n_sources (pk_header packet)) \<noteq> length (se_sources metadata) then Fails
             else if length (pk_wire packet) < STREAM_HEADER_LEN + packet_records packet * width then Panics
             else and_then (h5_all e (record_frames segment packet width @ packet_frames segment packet (sg_session_record_offset s))
                              (os_writer segment)) (\<lambda>calls.
               let segment1 = segment\<lparr>os_writer := calls\<rparr>;
                   s1 = s\<lparr>sg_segment := Some segment1, sg_session_record_offset := sg_session_record_offset s + packet_records packet\<rparr>
               in if fe_now e - os_last_flush segment \<ge> 1000000000
                  then and_then (h5 e H5Flush calls) (\<lambda>calls2.
                         let s2 = s1\<lparr>sg_segment := Some (segment1\<lparr>os_writer := calls2, os_last_flush := fe_now e\<rparr>)\<rparr>
                         in if fe_len e \<ge> sg_segment_size s then rotate_segment e s2 else Returns s2)
                  else Returns s1)
      | _ \<Rightarrow> Fails)"

subsection \<open>The worker\<close>

text \<open>What the worker is asked to do, in the order the queue took it; the acknowledgement is the result.\<close>

datatype StorageCommand = StStart SessionMetadata | StPacket Packet | StStop CloseReason | StShutdown

fun storage_execute :: "StorageEnv \<Rightarrow> StorageCommand \<Rightarrow> SegmentSession \<Rightarrow> SegmentSession answer" where
  "storage_execute e (StStart metadata) s = session_start e metadata s"
| "storage_execute e (StPacket packet) s = session_append e packet s"
| "storage_execute e (StStop reason) s = session_stop e reason s"
| "storage_execute e StShutdown s = session_stop e BrokerShutdown s"

text \<open>
  The loop of the worker: after an error it abandons the session, publishes the error and ends; after a shutdown
  it ends. The result says whether it ended with an error. A panic, which
  a packet that was decoded cannot cause, ends it the same way.
\<close>

fun storage_worker :: "(StorageEnv \<times> StorageCommand) list \<Rightarrow> SegmentSession \<Rightarrow> SegmentSession \<times> bool" where
  "storage_worker [] s = (s, False)"
| "storage_worker ((e, StShutdown) # rest) s = (case session_stop e BrokerShutdown s of Returns s' \<Rightarrow> (s', False) | _ \<Rightarrow> (s, False))"
| "storage_worker ((e, c) # rest) s =
     (case storage_execute e c s of Returns s' \<Rightarrow> storage_worker rest s' | _ \<Rightarrow> (session_abandon s, True))"

subsection \<open>A recording holds every record once, in order\<close>

definition frames_of :: "nat \<Rightarrow> H5Call list \<Rightarrow> bytes list" where
  "frames_of dataset calls = List.map_filter (\<lambda>c. case c of H5Append i bs \<Rightarrow> if i = dataset then Some bs else None | _ \<Rightarrow> None) calls"

lemma frames_of_simps [simp]:
  "frames_of d [] = []" "frames_of d (xs @ ys) = frames_of d xs @ frames_of d ys"
  "frames_of d (H5Append i bs # xs) = (if i = d then bs # frames_of d xs else frames_of d xs)"
  by (simp_all add: frames_of_def List.map_filter_def)

lemma frames_of_other [simp]:
  "frames_of d (H5Close # xs) = frames_of d xs" "frames_of d (H5Flush # xs) = frames_of d xs" "frames_of d (H5StartSwmr # xs) = frames_of d xs"
  "frames_of d (H5Dataset n v # xs) = frames_of d xs" "frames_of d (H5Stream n a b c # xs) = frames_of d xs"
  "frames_of d (H5Assign g i # xs) = frames_of d xs" "frames_of d (H5Strings n vs # xs) = frames_of d xs"
  "frames_of d (H5AttrNumeric g n v # xs) = frames_of d xs" "frames_of d (H5AttrString g n v # xs) = frames_of d xs"
  "frames_of d (H5Group g n # xs) = frames_of d xs" "frames_of d (H5Create n # xs) = frames_of d xs"
  by (simp_all add: frames_of_def List.map_filter_def)

definition segment_ids :: "OpenSegment \<Rightarrow> nat list" where
  "segment_ids g = [os_values g, os_sample_index g, os_packet_sequence g, os_packet_first_index g, os_packet_dropped g,
     os_packet_record_offset g, os_packet_record_count g, os_packet_received_utc_ns g]"

text \<open>What the library documents of dataset identifiers: a dataset created after more calls has another identifier.\<close>

definition ids_distinct :: "StorageEnv \<Rightarrow> bool" where
  "ids_distinct e \<longleftrightarrow> (\<forall>cs cs'. fe_id e cs = fe_id e cs' \<longrightarrow> length cs = length cs')"

lemma h5_Returns [simp]: "h5 e c calls = Returns calls' \<longleftrightarrow> fe_ok e calls c \<and> calls' = calls @ [c]"
  by (auto simp: h5_def)

lemma h5_all_Returns: "h5_all e cs calls = Returns calls' \<Longrightarrow> calls' = calls @ cs"
  by (induction cs arbitrary: calls) fastforce+

lemma h5_dataset_Returns:
  "h5_dataset e c grp calls = Returns (calls', d) \<Longrightarrow> calls' = calls @ [c, H5Assign grp d] \<and> d = fe_id e (calls @ [c])"
  by (auto simp: h5_dataset_def Let_def)

lemma frames_of_header: "frames_of d (segment_header p m i s) = []" "frames_of d segment_trailer = []"
  by (simp_all add: segment_header_def segment_trailer_def Let_def)

lemma h5_datasets_Returns:
  assumes "h5_datasets e specs calls = Returns (calls', ds)" "ids_distinct e" "list_all (\<lambda>(c, _). \<forall>d. frames_of d [c] = []) specs"
  shows "length ds = length specs \<and> distinct ds \<and> frames_of k calls' = frames_of k calls
    \<and> (\<forall>d \<in> set ds. \<exists>cs. d = fe_id e cs \<and> length calls < length cs)"
  using assms(1,3)
proof (induction specs arbitrary: calls ds)
  case Nil
  then show ?case by simp
next
  case (Cons cg specs)
  obtain c grp where cg: "cg = (c, grp)" by (cases cg)
  from Cons.prems(1) obtain calls1 d ds' where r: "h5_dataset e c grp calls = Returns (calls1, d)"
    "h5_datasets e specs calls1 = Returns (calls', ds')" "ds = d # ds'" by (auto simp: cg)
  note q = h5_dataset_Returns [OF r(1)]
  have ih: "length ds' = length specs \<and> distinct ds' \<and> frames_of k calls' = frames_of k calls1
      \<and> (\<forall>d \<in> set ds'. \<exists>cs. d = fe_id e cs \<and> length calls1 < length cs)"
    using Cons.IH [OF r(2)] Cons.prems(2) by simp
  moreover have "d \<notin> set ds'"
  proof
    assume "d \<in> set ds'"
    with ih obtain cs where c: "d = fe_id e cs" "length calls1 < length cs" by blast
    have "fe_id e cs = fe_id e (calls @ [c])" using c(1) q by metis
    then have "length cs = length (calls @ [c])" using assms(2) unfolding ids_distinct_def by blast
    then show False using c(2) q by simp
  qed
  moreover have "frames_of k calls1 = frames_of k calls"
    using q Cons.prems(2) cg frames_of_simps(2) [of k "[c]" "[H5Assign grp d]"] by simp
  moreover have "\<exists>cs. x = fe_id e cs \<and> length calls < length cs" if mem: "x \<in> set ds" for x
  proof (cases "x = d")
    case True
    then show ?thesis using q by (intro exI [of _ "calls @ [c]"]) simp
  next
    case False
    then obtain cs where "x = fe_id e cs" "length calls1 < length cs" using mem r(3) ih by auto
    then show ?thesis using q by auto
  qed
  ultimately show ?case using r(3) by simp
qed

lemma open_datasets_Returns:
  assumes "open_datasets e m partial_path final calls = Returns g" "ids_distinct e" "\<And>d. frames_of d calls = []"
  shows "distinct (segment_ids g)" "frames_of d (os_writer g) = []"
proof -
  from assms(1) obtain calls1 ds calls2 where r: "h5_datasets e (segment_datasets m) calls = Returns (calls1, ds)"
    "h5_all e segment_trailer calls1 = Returns calls2" "os_writer g = calls2"
    "segment_ids g = map ((!) ds) [2, 3, 4, 5, 6, 7, 8, 9]"
    by (auto simp: open_datasets_def segment_ids_def)
  have q: "length ds = 10 \<and> distinct ds \<and> frames_of d calls1 = frames_of d calls"
  proof -
    have "list_all (\<lambda>(c, _). \<forall>d. frames_of d [c] = []) (segment_datasets m)" "length (segment_datasets m) = 10"
      by (simp_all add: segment_datasets_def Let_def scalar_stream_def)
    then show ?thesis using h5_datasets_Returns [OF r(1) assms(2), of d] by simp
  qed
  then show "frames_of d (os_writer g) = []" using h5_all_Returns [OF r(2)] r(3) assms(3) by (simp add: frames_of_header)
  have "inj_on ((!) ds) (set [2, 3, 4, 5, 6, 7, 8, 9])" by (rule inj_on_nth) (use q in auto)
  then show "distinct (segment_ids g)" unfolding r(4) distinct_map by simp
qed

lemma open_segment_Returns:
  assumes "open_segment e s = Returns s'" "ids_distinct e"
  shows "\<exists>g. s' = s\<lparr>sg_segment := Some g\<rparr> \<and> distinct (segment_ids g) \<and> (\<forall>d. frames_of d (os_writer g) = [])"
proof -
  from assms(1) obtain m i calls g where o: "sg_metadata s = Some m"
    "h5_all e (segment_header (segment_base (sg_prefix s) (sg_segment_index s) @ as_bytes ''.partial'') m i s) [] = Returns calls"
    "open_datasets e m (segment_base (sg_prefix s) (sg_segment_index s) @ as_bytes ''.partial'') (segment_base (sg_prefix s) (sg_segment_index s)) calls = Returns g"
    "s' = s\<lparr>sg_segment := Some g\<rparr>"
    by (auto simp: open_segment_def Let_def split: option.splits if_splits)
  from h5_all_Returns [OF o(2)] have "\<And>d. frames_of d calls = []" by (simp add: frames_of_header)
  from open_datasets_Returns [OF o(3) assms(2) this] o(4) show ?thesis by blast
qed

lemma close_segment_Returns:
  assumes "close_segment e r c s = Returns s'" "sg_segment s = Some g"
  shows "\<exists>fin. finalise_file e (os_partial_path g) r c = Returns fin \<and>
    s' = s\<lparr>sg_segment := None, sg_files := sg_files s @ [\<lparr>cf_segment = g\<lparr>os_writer := os_writer g @ [H5Close]\<rparr>,
     cf_finalised = fin, cf_reason = r, cf_session_complete = c\<rparr>]\<rparr>"
  using assms by (auto simp: close_segment_def split: if_splits)

definition packet_rows :: "Packet \<Rightarrow> bytes list" where
  "packet_rows p = map (row_bytes p (4 * unat (sh_n_sources (pk_header p)))) [0..<packet_records p]"

definition packet_indices :: "Packet \<Rightarrow> bytes list" where
  "packet_indices p = map (\<lambda>r. u32_to_le (row_index p r)) [0..<packet_records p]"

lemma append_frames:
  assumes "distinct (segment_ids g)" "w = 4 * unat (sh_n_sources (pk_header p))"
  shows "frames_of (os_values g) (record_frames g p w @ packet_frames g p off) = packet_rows p"
    and "frames_of (os_sample_index g) (record_frames g p w @ packet_frames g p off) = packet_indices p"
    and "frames_of (os_packet_record_offset g) (record_frames g p w @ packet_frames g p off) = [i64_to_le (int off)]"
proof -
  have d: "os_values g \<noteq> os_sample_index g" "os_values g \<notin> set (drop 2 (segment_ids g))" "os_sample_index g \<notin> set (drop 2 (segment_ids g))"
    "os_packet_record_offset g \<notin> {os_values g, os_sample_index g}"
    "os_packet_record_offset g \<notin> set [os_packet_sequence g, os_packet_first_index g, os_packet_dropped g, os_packet_record_count g, os_packet_received_utc_ns g]"
    using assms(1) by (auto simp: segment_ids_def)
  have "frames_of (os_values g) (concat (map f rs)) = map (\<lambda>r. row_bytes p w r) rs"
      "frames_of (os_sample_index g) (concat (map f rs)) = map (\<lambda>r. u32_to_le (row_index p r)) rs"
      "frames_of (os_packet_record_offset g) (concat (map f rs)) = []"
    if "f = (\<lambda>row. [H5Append (os_values g) (row_bytes p w row), H5Append (os_sample_index g) (u32_to_le (row_index p row))])" for f rs
    using d(1,4) that by (induction rs) auto
  note r = this [OF refl, of "[0..<packet_records p]"]
  have k: "frames_of (os_values g) (packet_frames g p off) = []" "frames_of (os_sample_index g) (packet_frames g p off) = []"
    "frames_of (os_packet_record_offset g) (packet_frames g p off) = [i64_to_le (int off)]"
    using d(2,3,5) by (auto simp: packet_frames_def Let_def segment_ids_def)
  show "frames_of (os_values g) (record_frames g p w @ packet_frames g p off) = packet_rows p"
    "frames_of (os_sample_index g) (record_frames g p w @ packet_frames g p off) = packet_indices p"
    "frames_of (os_packet_record_offset g) (record_frames g p w @ packet_frames g p off) = [i64_to_le (int off)]"
    using r k assms(2) by (simp_all add: record_frames_def packet_rows_def packet_indices_def)
qed

text \<open>The rows recorded so far, over the finished files and the open segment.\<close>

definition file_frames :: "(OpenSegment \<Rightarrow> nat) \<Rightarrow> SegmentSession \<Rightarrow> bytes list" where
  "file_frames ds s = concat (map (\<lambda>f. frames_of (ds (cf_segment f)) (os_writer (cf_segment f))) (sg_files s))"

definition recorded :: "(OpenSegment \<Rightarrow> nat) \<Rightarrow> SegmentSession \<Rightarrow> bytes list" where
  "recorded ds s = file_frames ds s @ (case sg_segment s of None \<Rightarrow> [] | Some g \<Rightarrow> frames_of (ds g) (os_writer g))"

fun offsets_from :: "nat \<Rightarrow> Packet list \<Rightarrow> bytes list" where
  "offsets_from n [] = []"
| "offsets_from n (p # ps) = i64_to_le (int n) # offsets_from (n + packet_records p) ps"

lemma offsets_from_append: "offsets_from n (ps @ [p]) = offsets_from n ps @ [i64_to_le (int (n + sum_list (map packet_records ps)))]"
  by (induction ps arbitrary: n) (simp_all add: add.assoc)

definition recording_ok :: "SessionMetadata \<Rightarrow> Packet list \<Rightarrow> SegmentSession \<Rightarrow> bool" where
  "recording_ok m ps s \<longleftrightarrow> sg_metadata s = Some m \<and> sg_session_record_offset s = sum_list (map packet_records ps)
     \<and> (\<exists>g. sg_segment s = Some g \<and> distinct (segment_ids g))
     \<and> list_all (\<lambda>f. cf_reason f = SegmentLimit \<and> \<not> cf_session_complete f) (sg_files s)
     \<and> recorded os_values s = concat (map packet_rows ps) \<and> recorded os_sample_index s = concat (map packet_indices ps)
     \<and> recorded os_packet_record_offset s = offsets_from 0 ps"

lemma rotate_recording:
  assumes "recording_ok m ps s" "rotate_segment e s = Returns s'" "ids_distinct e"
  shows "recording_ok m ps s'"
proof -
  obtain g where g: "sg_segment s = Some g" using assms(1) by (auto simp: recording_ok_def)
  from assms(2) obtain s1 where r: "close_segment e SegmentLimit False s = Returns s1"
    "open_segment e (s1\<lparr>sg_segment_index := sg_segment_index s1 + 1\<rparr>) = Returns s'" by (auto simp: rotate_segment_def)
  obtain fin where c: "s1 = s\<lparr>sg_segment := None, sg_files := sg_files s @ [\<lparr>cf_segment = g\<lparr>os_writer := os_writer g @ [H5Close]\<rparr>,
     cf_finalised = fin, cf_reason = SegmentLimit, cf_session_complete = False\<rparr>]\<rparr>"
    using close_segment_Returns [OF r(1) g] by blast
  obtain g' where o: "s' = s1\<lparr>sg_segment_index := sg_segment_index s1 + 1, sg_segment := Some g'\<rparr>" "distinct (segment_ids g')"
    "\<forall>d. frames_of d (os_writer g') = []" using open_segment_Returns [OF r(2) assms(3)] by auto
  show ?thesis using assms(1) g c o by (simp add: recording_ok_def recorded_def file_frames_def)
qed

lemma append_recording:
  assumes "recording_ok m ps s" "session_append e p s = Returns s'" "ids_distinct e"
  shows "recording_ok m (ps @ [p]) s'"
proof -
  obtain g where g: "sg_segment s = Some g" "distinct (segment_ids g)" and m: "sg_metadata s = Some m"
    using assms(1) by (auto simp: recording_ok_def)
  let ?w = "4 * length (se_sources m)" and ?off = "sg_session_record_offset s"
  let ?fs = "record_frames g p ?w @ packet_frames g p ?off"
  define seg where "seg = g\<lparr>os_writer := os_writer g @ ?fs\<rparr>"
  define s1 where "s1 = s\<lparr>sg_segment := Some seg, sg_session_record_offset := ?off + packet_records p\<rparr>"
  define s2 where "s2 = s1\<lparr>sg_segment := Some (seg\<lparr>os_writer := os_writer seg @ [H5Flush], os_last_flush := fe_now e\<rparr>)\<rparr>"
  from assms(2) g(1) m have n: "unat (sh_n_sources (pk_header p)) = length (se_sources m)"
    by (auto simp: session_append_def Let_def split: if_splits)
  have "s' = s1 \<or> s' = s2 \<or> rotate_segment e s2 = Returns s'"
    using assms(2) g(1) m
    by (auto simp: session_append_def Let_def s1_def s2_def seg_def dest!: h5_all_Returns split: if_splits)
  moreover have "?w = 4 * unat (sh_n_sources (pk_header p))" using n by simp
  note fr = append_frames [OF g(2) this, of ?off]
  have ids: "segment_ids seg = segment_ids g" "os_values seg = os_values g" "os_sample_index seg = os_sample_index g"
    "os_packet_record_offset seg = os_packet_record_offset g" by (simp_all add: seg_def segment_ids_def)
  have "frames_of (os_values g) (os_writer seg) = frames_of (os_values g) (os_writer g) @ packet_rows p"
    "frames_of (os_sample_index g) (os_writer seg) = frames_of (os_sample_index g) (os_writer g) @ packet_indices p"
    "frames_of (os_packet_record_offset g) (os_writer seg) = frames_of (os_packet_record_offset g) (os_writer g) @ [i64_to_le (int ?off)]"
    using fr by (simp_all add: seg_def)
  then have ok1: "recording_ok m (ps @ [p]) s1"
    using assms(1) g ids by (simp add: recording_ok_def s1_def recorded_def file_frames_def offsets_from_append)
  have ok2: "recording_ok m (ps @ [p]) s2"
    using ok1 by (simp add: recording_ok_def s2_def s1_def recorded_def file_frames_def segment_ids_def)
  ultimately show ?thesis using ok1 ok2 rotate_recording [OF ok2 _ assms(3)] by blast
qed

lemma start_recording_ok:
  assumes "session_start e m s = Returns s'" "ids_distinct e" "sg_files s = []"
  shows "recording_ok m [] s'"
proof -
  from assms(1) obtain t where o: "open_segment e (s\<lparr>sg_prefix := t @ as_bytes ''_'' @ sanitise (se_experiment m), sg_session_id := Some (fe_uuid e),
      sg_metadata := Some m, sg_segment_index := 0, sg_session_record_offset := 0\<rparr>) = Returns s'"
    by (auto simp: session_start_def split: if_splits option.splits)
  from open_segment_Returns [OF o assms(2)] assms(3) show ?thesis
    by (auto simp: recording_ok_def recorded_def file_frames_def)
qed

lemma worker_packets:
  assumes "recording_ok m ps s" "storage_worker (map (\<lambda>(e, p). (e, StPacket p)) eps @ rest) s = (s', False)" "\<forall>(e, p) \<in> set eps. ids_distinct e"
  shows "\<exists>s1. recording_ok m (ps @ map snd eps) s1 \<and> storage_worker rest s1 = (s', False)"
  using assms
proof (induction eps arbitrary: ps s)
  case Nil
  then show ?case by auto
next
  case (Cons ep eps)
  obtain e p where ep: "ep = (e, p)" by (cases ep)
  from Cons.prems(2) ep obtain s1 where a: "session_append e p s = Returns s1"
    "storage_worker (map (\<lambda>(e, p). (e, StPacket p)) eps @ rest) s1 = (s', False)"
    by (auto split: answer.splits)
  have "recording_ok m (ps @ [p]) s1" using append_recording [OF Cons.prems(1) a(1)] Cons.prems(3) ep by simp
  from Cons.IH [OF this a(2)] Cons.prems(3) ep show ?case by simp
qed

lemma rows_payload: "concat (map (\<lambda>r. take w (drop (k + r * w) xs)) [0..<n]) = take (n * w) (drop k xs)"
proof (induction n)
  case (Suc n)
  then show ?case using take_add [of "n * w" w "drop k xs"] by (simp add: add.commute)
qed simp

lemma concat_packet_rows:
  assumes "packet_ok p"
  shows "concat (packet_rows p) = payload_of (pk_wire p)"
proof -
  let ?w = "4 * unat (sh_n_sources (pk_header p))"
  have "concat (packet_rows p) = take (packet_records p * ?w) (drop STREAM_HEADER_LEN (pk_wire p))"
    using rows_payload [of ?w STREAM_HEADER_LEN "pk_wire p" "packet_records p"]
    by (simp add: packet_rows_def row_bytes_def [abs_def] Let_def subslice_def)
  also have "\<dots> = payload_of (pk_wire p)" using packet_ok_facts(3) [OF assms] by (simp add: payload_of_def mult.commute)
  finally show ?thesis .
qed

text \<open>
  C21: a recording holds every record exactly once and in order, over however many segments it was rotated.
  When the worker takes a start, any packets and a stop without an error, the values appended over the finished
  files are the payloads of the packets byte for byte, the sample indices are the packet's first index advanced
  by the decimation per row, and the record offset stored with each packet is the number of records before it in
  the session. Every file but the last is closed at the segment limit and not marked complete, the last with
  the given reason, which is written into the file; no segment stays open.
\<close>

theorem recording_is_exact:
  assumes "storage_worker ((e0, StStart m) # map (\<lambda>(e, p). (e, StPacket p)) eps @ [(e1, StStop reason)]) (session_new limit) = (s, False)"
    "ids_distinct e0" "\<forall>(e, p) \<in> set eps. ids_distinct e \<and> packet_ok p"
  shows "concat (file_frames os_values s) = payloads (map snd eps)
    \<and> file_frames os_sample_index s = concat (map packet_indices (map snd eps))
    \<and> file_frames os_packet_record_offset s = offsets_from 0 (map snd eps)
    \<and> sg_segment s = None \<and> sg_files s \<noteq> []
    \<and> H5Write (as_bytes ''close_reason'') [close_reason_u8 reason] \<in> set (cf_finalised (last (sg_files s)))
    \<and> cf_reason (last (sg_files s)) = reason \<and> cf_session_complete (last (sg_files s)) = completes_session reason
    \<and> list_all (\<lambda>f. cf_reason f = SegmentLimit \<and> \<not> cf_session_complete f) (butlast (sg_files s))"
proof -
  from assms(1) obtain s0 where s0: "session_start e0 m (session_new limit) = Returns s0"
    "storage_worker (map (\<lambda>(e, p). (e, StPacket p)) eps @ [(e1, StStop reason)]) s0 = (s, False)"
    by (auto split: answer.splits)
  have "recording_ok m [] s0" by (rule start_recording_ok [OF s0(1) assms(2)]) (simp add: session_new_def)
  then obtain s1 where s1: "recording_ok m (map snd eps) s1" "storage_worker [(e1, StStop reason)] s1 = (s, False)"
    using worker_packets [OF _ s0(2), of m "[]"] assms(3) by auto
  obtain g where g: "sg_segment s1 = Some g" using s1(1) by (auto simp: recording_ok_def)
  from s1(2) g obtain s2 where s2: "close_segment e1 reason (completes_session reason) s1 = Returns s2"
    "s = s2\<lparr>sg_metadata := None, sg_session_id := None\<rparr>"
    by (auto simp: session_stop_def split: answer.splits)
  obtain fin where c: "s2 = s1\<lparr>sg_segment := None, sg_files := sg_files s1 @ [\<lparr>cf_segment = g\<lparr>os_writer := os_writer g @ [H5Close]\<rparr>,
     cf_finalised = fin, cf_reason = reason, cf_session_complete = completes_session reason\<rparr>]\<rparr>"
      "finalise_file e1 (os_partial_path g) reason (completes_session reason) = Returns fin"
    using close_segment_Returns [OF s2(1) g] by blast
  have fin: "H5Write (as_bytes ''close_reason'') [close_reason_u8 reason] \<in> set fin"
    using h5_all_Returns [OF c(2) [unfolded finalise_file_def]] by simp
  have "file_frames ds s = recorded ds s1" if "\<And>g w. ds (g\<lparr>os_writer := w\<rparr>) = ds g" for ds
    using c s2(2) g that by (simp add: file_frames_def recorded_def)
  from this [of os_values] this [of os_sample_index] this [of os_packet_record_offset] s1(1)
  have fs: "file_frames os_values s = concat (map packet_rows (map snd eps))"
    "file_frames os_sample_index s = concat (map packet_indices (map snd eps))"
    "file_frames os_packet_record_offset s = offsets_from 0 (map snd eps)"
    by (simp_all add: recording_ok_def)
  have "concat (file_frames os_values s) = payloads (map snd eps)"
    unfolding fs(1) payloads_def using assms(3)
    by (induction eps) (auto simp: concat_packet_rows)
  with fin show ?thesis using fs(2,3) c s2(2) s1(1) by (simp add: recording_ok_def)
qed

text \<open>A library and file system on which every call succeeds.\<close>

definition easy_env :: StorageEnv where
  "easy_env = \<lparr>fe_ok = (\<lambda>_ _. True), fe_id = length, fe_exists = (\<lambda>_. False), fe_len = 0, fe_now = 0, fe_unix_timestamp_nanos = 0,
     fe_timestamp = (\<lambda>_. Some (as_bytes ''t'')), fe_uuid = [1], fe_rename_ok = True\<rparr>"

definition demo_session :: SessionMetadata where
  "demo_session = \<lparr>se_experiment = as_bytes ''rig'', se_firmware = as_bytes ''fw'', se_sample_rate_hz = from_bits 0x45FA0000,
     se_decimation = 2, se_configured_count = 0, se_sources = [\<lparr>sm_name = as_bytes ''x'', sm_unit = as_bytes ''V''\<rparr>], se_started_utc_ns = 0\<rparr>"

lemma easy_h5: "h5 easy_env c calls = Returns (calls @ [c])" "h5_all easy_env cs calls = Returns (calls @ cs)"
proof -
  show h: "h5 easy_env c calls = Returns (calls @ [c])" for c calls by (simp add: easy_env_def)
  show "h5_all easy_env cs calls = Returns (calls @ cs)" by (induction cs arbitrary: calls) (simp_all add: h)
qed

lemma easy_open: "sg_metadata s = Some m \<Longrightarrow> sg_session_id s = Some i \<Longrightarrow> \<exists>g. open_segment easy_env s = Returns (s\<lparr>sg_segment := Some g\<rparr>) \<and> os_last_flush g = 0"
proof -
  have d: "\<exists>calls' ds. h5_datasets easy_env specs calls = Returns (calls', ds)" for specs calls
    by (induction specs arbitrary: calls) (auto simp: h5_dataset_def easy_h5 Let_def)
  assume a: "sg_metadata s = Some m" "sg_session_id s = Some i"
  have ex: "\<not> fe_exists easy_env x" "fe_now easy_env = 0" for x by (simp_all add: easy_env_def)
  let ?base = "segment_base (sg_prefix s) (sg_segment_index s)"
  obtain calls ds where "h5_datasets easy_env (segment_datasets m) (segment_header (?base @ as_bytes ''.partial'') m i s) = Returns (calls, ds)"
    using d by blast
  then show ?thesis using a ex
    by (simp add: open_segment_def Let_def easy_h5 open_datasets_def) (rule exI, rule conjI, rule refl, simp)
qed

lemma easy_recording:
  "\<exists>s. storage_worker [(easy_env, StStart demo_session), (easy_env, StPacket demo_packet), (easy_env, StStop CloseStreamStop)] (session_new 1) = (s, False)"
proof -
  let ?s = "(session_new 1)\<lparr>sg_prefix := as_bytes ''t'' @ as_bytes ''_'' @ sanitise (se_experiment demo_session), sg_session_id := Some [1],
      sg_metadata := Some demo_session, sg_segment_index := 0, sg_session_record_offset := 0\<rparr>"
  obtain g where g: "open_segment easy_env ?s = Returns (?s\<lparr>sg_segment := Some g\<rparr>)" "os_last_flush g = 0"
    using easy_open [of ?s demo_session "[1]"] by auto
  have "session_start easy_env demo_session (session_new 1) = open_segment easy_env ?s"
    by (simp add: session_start_def session_new_def demo_session_def easy_env_def)
  moreover have "\<exists>g' n. session_append easy_env demo_packet (?s\<lparr>sg_segment := Some g\<rparr>) = Returns (?s\<lparr>sg_segment := Some g', sg_session_record_offset := n\<rparr>)"
  proof -
    have "unat (sh_n_sources (pk_header demo_packet)) = length (se_sources demo_session)" "fe_now easy_env - 0 < 1000000000"
      "\<not> length (pk_wire demo_packet) < STREAM_HEADER_LEN + packet_records demo_packet * (4 * length (se_sources demo_session))"
      by (simp_all add: demo_packet_def demo_header_def demo_session_def packet_records_def STREAM_HEADER_LEN_def easy_env_def)
    then show ?thesis using g(2) by (simp add: session_append_def Let_def easy_h5) blast
  qed
  ultimately show ?thesis using g(1)
    by (auto simp: session_stop_def close_segment_def finalise_file_def easy_h5) (simp_all add: easy_env_def)
qed

theorem recording_is_exact_witness:
  "\<exists>s. storage_worker [(easy_env, StStart demo_session), (easy_env, StPacket demo_packet), (easy_env, StStop CloseStreamStop)] (session_new 1) = (s, False)
     \<and> concat (file_frames os_values s) = payload_of (pk_wire demo_packet) \<and> cf_session_complete (last (sg_files s))"
proof -
  obtain s where s: "storage_worker [(easy_env, StStart demo_session), (easy_env, StPacket demo_packet), (easy_env, StStop CloseStreamStop)] (session_new 1) = (s, False)"
    using easy_recording by blast
  have "ids_distinct easy_env" by (simp add: ids_distinct_def easy_env_def)
  then show ?thesis
    using recording_is_exact [of easy_env demo_session "[(easy_env, demo_packet)]" easy_env CloseStreamStop 1 s] s packet_decode_ok [OF demo_packet_decodes]
    by (auto simp: payloads_def completes_session_def)
qed

end
