(* ===== verification/Broker_Config.thy ===== *)
theory Broker_Config
  imports Broker_Storage Float64
begin

text \<open>
  The command line of the broker, \<open>helic-broker/src/config.rs\<close>: the parsers of sizes and durations and the
  validated configuration. Splitting the command line into options and their defaults is the \<open>clap\<close> crate's.
  The standard library's parsers of \<open>u64\<close> and \<open>f64\<close> and \<open>Duration::from_secs_f64\<close> are written out.
\<close>

subsection \<open>Text to numbers\<close>

definition strip_suffix :: "bytes \<Rightarrow> bytes \<Rightarrow> bytes option" where
  "strip_suffix suf value =
     (if length suf \<le> length value \<and> drop (length value - length suf) value = suf
      then Some (take (length value - length suf) value) else None)"

definition digit :: "u8 \<Rightarrow> bool" where
  "digit b \<longleftrightarrow> 0x30 \<le> b \<and> b \<le> 0x39"

fun digits_value :: "nat \<Rightarrow> bytes \<Rightarrow> nat" where
  "digits_value acc [] = acc"
| "digits_value acc (b # bs) = digits_value (10 * acc + unat (b - 0x30)) bs"

text \<open>\<open>u64::from_str\<close>: an optional plus sign, at least one digit, nothing else, and no overflow.\<close>

definition parse_u64 :: "bytes \<Rightarrow> u64 option" where
  "parse_u64 value =
     (let ds = (case value of b # bs \<Rightarrow> if b = 0x2B then bs else value | [] \<Rightarrow> [])
      in if ds \<noteq> [] \<and> list_all digit ds \<and> digits_value 0 ds < 2 ^ 64 then Some (of_nat (digits_value 0 ds)) else None)"

text \<open>
  \<open>f64::from_str\<close>: an optional sign, then \<open>inf\<close>, \<open>infinity\<close> or \<open>nan\<close> in any case, or digits with an optional
  point (at least one digit on one side of it) and an optional exponent. The value is the nearest \<open>f64\<close> of the
  decimal, to even on a tie.
\<close>

definition lower :: "u8 \<Rightarrow> u8" where
  "lower b = (if 0x41 \<le> b \<and> b \<le> 0x5A then b + 0x20 else b)"

definition split_sign :: "bytes \<Rightarrow> bool \<times> bytes" where
  "split_sign value = (case value of b # bs \<Rightarrow> if b = 0x2D then (True, bs) else if b = 0x2B then (False, bs) else (False, value) | [] \<Rightarrow> (False, []))"

definition parse_exponent :: "bytes \<Rightarrow> int option" where
  "parse_exponent bs =
     (case bs of
        [] \<Rightarrow> Some 0
      | e # rest \<Rightarrow>
          let (neg, ds) = split_sign rest; n = int (digits_value 0 ds)
          in if lower e = 0x65 \<and> ds \<noteq> [] \<and> list_all digit ds then Some (if neg then - n else n) else None)"

definition decimal_f64 :: "bool \<Rightarrow> nat \<Rightarrow> int \<Rightarrow> f64" where
  "decimal_f64 neg mantissa expo =
     f64_make neg (f64_code (if 0 \<le> expo then f64_lit (int mantissa * 10 ^ nat expo) 1 else f64_lit (int mantissa) (10 ^ nat (- expo))))"

definition parse_f64 :: "bytes \<Rightarrow> f64 option" where
  "parse_f64 value =
     (let (neg, body) = split_sign value; word = map lower body; whole = takeWhile digit body; after = dropWhile digit body;
          (frac, tail) = (case after of b # bs \<Rightarrow> if b = 0x2E then (takeWhile digit bs, dropWhile digit bs) else ([], after) | [] \<Rightarrow> ([], []))
      in if word = as_bytes ''inf'' \<or> word = as_bytes ''infinity'' then Some (f64_make neg f64_top)
         else if word = as_bytes ''nan'' then Some f64_nan
         else if whole @ frac = [] then None
         else map_option (\<lambda>e. decimal_f64 neg (digits_value 0 (whole @ frac)) (e - int (length frac))) (parse_exponent tail))"

subsection \<open>Durations\<close>

record Duration =
  du_secs :: u64
  du_nanos :: u32

definition duration_zero :: "Duration \<Rightarrow> bool" where
  "duration_zero d \<longleftrightarrow> du_secs d = 0 \<and> du_nanos d = 0"

text \<open>
  \<open>Duration::from_secs_f64\<close>: nanoseconds to nearest, to even on a tie. A negative, infinite or NaN argument and
  one of \<open>2^64\<close> seconds or more panic.
\<close>

definition from_secs_f64 :: "f64 \<Rightarrow> Duration answer" where
  "from_secs_f64 x =
     (if \<not> f64_is_finite x \<or> f64_units x < 0 then Panics
      else let nanos = rne (f64_units x * 1000000000) (2 ^ 1074)
           in if 2 ^ 64 \<le> nanos div 1000000000 then Panics
              else Returns \<lparr>du_secs = word_of_int (nanos div 1000000000), du_nanos = word_of_int (nanos mod 1000000000)\<rparr>)"

definition duration_unit :: "bytes \<Rightarrow> (bytes \<times> f64) option" where
  "duration_unit value =
     (case strip_suffix (as_bytes ''ms'') value of
        Some number \<Rightarrow> Some (number, f64_lit 1 1000)
      | None \<Rightarrow> (case strip_suffix (as_bytes ''s'') value of
          Some number \<Rightarrow> Some (number, f64_lit 1 1)
        | None \<Rightarrow> (case strip_suffix (as_bytes ''m'') value of
            Some number \<Rightarrow> Some (number, f64_lit 60 1)
          | None \<Rightarrow> (case strip_suffix (as_bytes ''h'') value of
              Some number \<Rightarrow> Some (number, f64_lit 3600 1)
            | None \<Rightarrow> None))))"

definition parse_duration :: "bytes \<Rightarrow> Duration answer" where
  "parse_duration value =
     (case duration_unit value of
        None \<Rightarrow> Fails
      | Some (text, scale) \<Rightarrow>
          case parse_f64 text of
            None \<Rightarrow> Fails
          | Some number \<Rightarrow>
              if \<not> f64_is_finite number \<or> f64_le number (f64_lit 0 1) then Fails
              else from_secs_f64 (f64_mul number scale))"

subsection \<open>Sizes\<close>

definition SIZE_UNITS :: "(bytes \<times> nat) list" where
  "SIZE_UNITS = [(as_bytes ''GiB'', 1024 * 1024 * 1024), (as_bytes ''MiB'', 1024 * 1024), (as_bytes ''KiB'', 1024),
     (as_bytes ''GB'', 1000 * 1000 * 1000), (as_bytes ''MB'', 1000 * 1000), (as_bytes ''KB'', 1000)]"

definition checked_mul_u64 :: "u64 \<Rightarrow> nat \<Rightarrow> u64 option" where
  "checked_mul_u64 a b = (if unat a * b < 2 ^ 64 then Some (of_nat (unat a * b)) else None)"

fun parse_units :: "(bytes \<times> nat) list \<Rightarrow> bytes \<Rightarrow> u64 answer" where
  "parse_units [] value = (case parse_u64 value of None \<Rightarrow> Fails | Some n \<Rightarrow> Returns n)"
| "parse_units ((suf, multiplier) # units) value =
     (case strip_suffix suf value of
        None \<Rightarrow> parse_units units value
      | Some number \<Rightarrow>
          case parse_u64 number of
            None \<Rightarrow> Fails
          | Some parsed \<Rightarrow> (case checked_mul_u64 parsed multiplier of None \<Rightarrow> Fails | Some n \<Rightarrow> Returns n))"

definition parse_size :: "bytes \<Rightarrow> u64 answer" where
  "parse_size value = parse_units SIZE_UNITS value"

subsection \<open>The configuration\<close>

record Config =
  cf_mcu_host :: bytes
  cf_output_dir :: "bytes option"
  cf_mcu_control_port :: u16
  cf_mcu_stream_port :: u16
  cf_mcu_discovery_port :: u16
  cf_control_port :: u16
  cf_stream_port :: u16
  cf_discovery_port :: u16
  cf_history :: Duration
  cf_segment_size :: u64
  cf_request_timeout :: Duration
  cf_reconnect_delay :: Duration
  cf_log_level :: bytes

text \<open>\<open>Config::validate\<close>: the argument says which output directories can be created.\<close>

definition validate_config :: "(bytes \<Rightarrow> bool) \<Rightarrow> Config \<Rightarrow> unit answer" where
  "validate_config create_dir_all c =
     (if duration_zero (cf_history c) then Fails
      else if cf_segment_size c < 1024 * 1024 then Fails
      else if duration_zero (cf_request_timeout c) \<or> duration_zero (cf_reconnect_delay c) then Fails
      else case cf_output_dir c of
             Some dir \<Rightarrow> if create_dir_all dir then Returns () else Fails
           | None \<Rightarrow> Returns ())"

definition recording_notice :: "Config \<Rightarrow> bytes" where
  "recording_notice c =
     (case cf_output_dir c of
        Some dir \<Rightarrow> as_bytes ''Captures are being saved to '' @ dir @ as_bytes ''.''
      | None \<Rightarrow> as_bytes ''Captures are not being saved.'')"

text \<open>
  What \<open>Config::parse\<close> gives for the one required option and the defaults of all others.
\<close>

definition default_config :: "bytes \<Rightarrow> Config answer" where
  "default_config mcu_host =
     and_then (parse_duration (as_bytes ''10s'')) (\<lambda>history.
     and_then (parse_size (as_bytes ''1GiB'')) (\<lambda>segment_size.
     and_then (parse_duration (as_bytes ''5s'')) (\<lambda>request_timeout.
     and_then (parse_duration (as_bytes ''1s'')) (\<lambda>reconnect_delay.
       Returns \<lparr>cf_mcu_host = mcu_host, cf_output_dir = None, cf_mcu_control_port = CONTROL_PORT, cf_mcu_stream_port = STREAM_PORT,
         cf_mcu_discovery_port = DISCOVERY_PORT, cf_control_port = CONTROL_PORT, cf_stream_port = STREAM_PORT,
         cf_discovery_port = DISCOVERY_PORT, cf_history = history, cf_segment_size = segment_size,
         cf_request_timeout = request_timeout, cf_reconnect_delay = reconnect_delay, cf_log_level = as_bytes ''info''\<rparr>))))"


subsection \<open>What the parsers accept\<close>

lemma strip_suffix_Some: "strip_suffix suf v = Some y \<longleftrightarrow> v = y @ suf"
  by (auto simp: strip_suffix_def) (metis append_take_drop_id)

lemma strip_suffix_append [simp]: "strip_suffix suf (y @ suf) = Some y"
  by (simp add: strip_suffix_Some)

lemma strip_suffix_None: "strip_suffix suf v = None \<longleftrightarrow> (\<forall>r. rev v \<noteq> rev suf @ r)"
proof -
  have "rev v = rev suf @ r \<longleftrightarrow> v = rev r @ suf" for r by (metis rev_append rev_rev_ident)
  then have "(\<exists>r. rev v = rev suf @ r) \<longleftrightarrow> (\<exists>y. v = y @ suf)" by (metis rev_rev_ident)
  then show ?thesis using strip_suffix_Some [of suf v] by (metis not_Some_eq)
qed

lemma digit_of_nat: "n < 10 \<Longrightarrow> digit (of_nat n + 0x30) \<and> unat (of_nat n + 0x30 - 0x30 :: u8) = n"
proof -
  assume "n < 10"
  then have "n \<in> set [0..<10]" by simp
  moreover have "list_all (\<lambda>k. digit (of_nat k + 0x30)) [0..<10]" by (simp add: digit_def upt_rec)
  ultimately show ?thesis using \<open>n < 10\<close> by (simp add: list_all_iff unat_of_nat)
qed

lemma digits_value_append: "digits_value acc (xs @ ys) = digits_value (digits_value acc xs) ys"
  by (induction xs arbitrary: acc) simp_all

lemma decimal_digits: "list_all digit (decimal n) \<and> decimal n \<noteq> [] \<and> digits_value 0 (decimal n) = n"
proof (induction n rule: decimal.induct)
  case (1 n)
  show ?case
  proof (cases "n < 10")
    case True
    then show ?thesis using digit_of_nat [of n] by (simp add: decimal.simps)
  next
    case False
    then show ?thesis using 1 digit_of_nat [of "n mod 10"] by (simp add: decimal.simps [of n] digits_value_append)
  qed
qed

lemmas decimal_simps [simp] = decimal_digits [THEN conjunct1] decimal_digits [THEN conjunct2, THEN conjunct1]
  decimal_digits [THEN conjunct2, THEN conjunct2]

lemma digit_not: "digit b \<Longrightarrow> b \<notin> set (as_bytes ''+-.GiMKBsmhnf'')"
  by (auto simp: digit_def as_bytes_def)

lemma decimal_hd: "\<exists>b bs. decimal n = b # bs \<and> digit b"
  using decimal_simps(1) [of n] decimal_simps(2) [of n] by (cases "decimal n") auto

lemma decimal_rev: "\<exists>b bs. rev (decimal n) = b # bs \<and> digit b"
proof -
  have "rev (decimal n) \<noteq> []" "list_all digit (rev (decimal n))" using decimal_simps(1,2) [of n] by (simp_all add: list_all_iff)
  then show ?thesis by (cases "rev (decimal n)") auto
qed

lemma parse_u64_decimal: "parse_u64 (decimal n) = (if n < 2 ^ 64 then Some (of_nat n) else None)"
proof -
  obtain b bs where d: "decimal n = b # bs" "digit b" using decimal_hd by blast
  then have "b \<noteq> 0x2B" by (auto simp: digit_def)
  then show ?thesis using d(1) decimal_simps(1,3) [of n] by (simp add: parse_u64_def Let_def)
qed

lemma strip_suffix_decimal:
  assumes "list_all (\<lambda>b. \<not> digit b) suf'" "strip_suffix suf' suf = None"
  shows "strip_suffix suf' (decimal n @ suf) = None"
proof (rule ccontr)
  assume "strip_suffix suf' (decimal n @ suf) \<noteq> None"
  then obtain y where "decimal n @ suf = y @ suf'" by (auto simp: strip_suffix_Some)
  then consider us where "suf = us @ suf'" | us where "decimal n = y @ us" "us @ suf = suf'"
    by (auto simp: append_eq_append_conv2)
  then show False
  proof cases
    case 1
    then show False using assms(2) by simp
  next
    case 2
    then have "list_all digit us" "list_all (\<lambda>b. \<not> digit b) us" using decimal_simps(1) [of n] assms(1) by auto
    then have "us = []" by (cases us) auto
    then show False using 2 assms(2) strip_suffix_append [of suf' "[]"] by simp
  qed
qed

lemma parse_units_unit:
  assumes "list_all (\<lambda>(s, _). list_all (\<lambda>b. \<not> digit b) s \<and> strip_suffix s suf = None) us" "0 < k"
  shows "parse_units (us @ (suf, k) # us') (decimal n @ suf) = (if n * k < 2 ^ 64 then Returns (of_nat (n * k)) else Fails)"
  using assms(1)
proof (induction us)
  case Nil
  have "n \<le> n * k" using assms(2) by simp
  then have "n * k < 2 ^ 64 \<Longrightarrow> n < 2 ^ 64" by (rule le_less_trans)
  then show ?case by (auto simp: parse_u64_decimal checked_mul_u64_def unat_of_nat)
next
  case (Cons u us)
  then show ?case by (cases u) (simp add: strip_suffix_decimal split del: if_split)
qed

definition units_apart :: "bytes \<Rightarrow> nat \<Rightarrow> bool" where
  "units_apart s k \<longleftrightarrow> s \<noteq> [] \<and> list_all (\<lambda>b. \<not> digit b) s \<and> 0 < k \<and> list_all (\<lambda>t. s = t \<or> strip_suffix s t = None) ([] # map fst SIZE_UNITS)"

lemma size_units_apart: "(s, k) \<in> set SIZE_UNITS \<Longrightarrow> units_apart s k"
proof -
  have "list_all (\<lambda>(s, k). units_apart s k) SIZE_UNITS"
    by (simp add: SIZE_UNITS_def as_bytes_def digit_def strip_suffix_def units_apart_def)
  then show "(s, k) \<in> set SIZE_UNITS \<Longrightarrow> units_apart s k" by (auto simp: list_all_iff)
qed

text \<open>
  Sizes on the command line mean what they say: a number printed in decimal, with no suffix or with any of the
  six units, is parsed to its multiple of the unit when that fits 64 bits, and refused when it does not; no
  suffix is taken for another and nothing wraps around.
\<close>

theorem parse_size_exact:
  assumes "(suf, k) \<in> set (([], 1) # SIZE_UNITS)"
  shows "parse_size (decimal n @ suf) = (if n * k < 2 ^ 64 then Returns (of_nat (n * k)) else Fails)"
proof (cases "(suf, k) \<in> set SIZE_UNITS")
  case True
  then obtain us us' where u: "SIZE_UNITS = us @ (suf, k) # us'" by (auto dest: split_list)
  have "distinct (map fst SIZE_UNITS)" by (simp add: SIZE_UNITS_def as_bytes_def)
  then have "s \<noteq> suf \<and> (s, m) \<in> set SIZE_UNITS" if "(s, m) \<in> set us" for s m using that by (force simp: u)
  then have "list_all (\<lambda>(s, _). list_all (\<lambda>b. \<not> digit b) s \<and> strip_suffix s suf = None) us"
    using size_units_apart True by (force simp: list_all_iff units_apart_def)
  moreover have "0 < k" using size_units_apart [OF True] by (simp add: units_apart_def)
  ultimately show ?thesis unfolding parse_size_def u by (rule parse_units_unit)
next
  case False
  then have e: "suf = []" "k = 1" using assms by auto
  have "strip_suffix s (decimal n) = None" if "(s, m) \<in> set SIZE_UNITS" for s m
    using strip_suffix_decimal [of s "[]" n] size_units_apart [OF that] by (auto simp: units_apart_def)
  then have "parse_units us (decimal n) = parse_units [] (decimal n)" if "set us \<subseteq> set SIZE_UNITS" for us
    using that
  proof (induction us)
    case (Cons u us)
    then show ?case by (cases u) auto
  qed simp
  then show ?thesis using e by (simp add: parse_size_def parse_u64_decimal)
qed

theorem parse_size_exact_witness:
  "parse_size (decimal 3 @ as_bytes ''MiB'') = Returns 3145728 \<and> parse_size (decimal (2 ^ 40) @ as_bytes ''GiB'') = Fails"
  using parse_size_exact [of "as_bytes ''MiB''" "1024 * 1024" 3] parse_size_exact [of "as_bytes ''GiB''" "1024 * 1024 * 1024" "2 ^ 40"]
  by (simp add: SIZE_UNITS_def)

lemma parse_f64_decimal: "parse_f64 (decimal n) = Some (f64_make False (f64_code (f64_lit (int n) 1)))"
proof -
  obtain b bs where d: "decimal n = b # bs" "digit b" using decimal_hd by blast
  have b: "b \<noteq> 0x2D" "b \<noteq> 0x2B" "lower b \<noteq> 0x69" "lower b \<noteq> 0x6E" using d(2) by (auto simp: digit_def lower_def)
  have all: "\<forall>x \<in> set (decimal n). digit x" using decimal_simps(1) by (simp add: list_all_iff)
  then have w: "takeWhile digit (decimal n) = decimal n" "dropWhile digit (decimal n) = []" by auto
  have s: "split_sign (decimal n) = (False, decimal n)" using b d(1) by (simp add: split_sign_def)
  have "map lower (decimal n) \<noteq> as_bytes ''inf''" "map lower (decimal n) \<noteq> as_bytes ''infinity''" "map lower (decimal n) \<noteq> as_bytes ''nan''"
    using b d(1) by (auto simp: as_bytes_def)
  then show ?thesis by (simp add: parse_f64_def s w parse_exponent_def decimal_f64_def)
qed

definition DURATION_UNITS :: "(bytes \<times> nat) list" where
  "DURATION_UNITS = [(as_bytes ''s'', 1), (as_bytes ''m'', 60), (as_bytes ''h'', 3600)]"

lemma duration_unit_decimal:
  assumes "(suf, k) \<in> set DURATION_UNITS"
  shows "duration_unit (decimal n @ suf) = Some (decimal n, f64_lit (int k) 1)"
proof -
  have "list_all (\<lambda>b. \<not> digit b) s" if "s \<in> {as_bytes ''ms'', as_bytes ''s'', as_bytes ''m''}" for s
    using that by (auto simp: as_bytes_def digit_def)
  moreover have "strip_suffix (as_bytes ''ms'') t = None" if "t \<in> {as_bytes ''s'', as_bytes ''m'', as_bytes ''h''}" for t
    using that by (auto simp: as_bytes_def strip_suffix_def)
  moreover have "strip_suffix (as_bytes ''s'') t = None" if "t \<in> {as_bytes ''m'', as_bytes ''h''}" for t
    using that by (auto simp: as_bytes_def strip_suffix_def)
  moreover have "strip_suffix (as_bytes ''m'') (as_bytes ''h'') = None" by (simp add: as_bytes_def strip_suffix_def)
  ultimately show ?thesis using assms strip_suffix_decimal
    by (auto simp: DURATION_UNITS_def duration_unit_def)
qed

lemma f64_whole_make: "f64_whole x n \<Longrightarrow> f64_whole (f64_make False (f64_code x)) n"
  using f64_code_range(1) [of x] by (auto simp: f64_whole_def f64_is_finite_def f64_units_def)

lemma from_secs_whole:
  assumes "f64_whole x n" "0 \<le> n" "n < 2 ^ 64"
  shows "from_secs_f64 x = Returns \<lparr>du_secs = word_of_int n, du_nanos = 0\<rparr>"
proof -
  have "rne (f64_units x * 1000000000) (2 ^ 1074) = n * 1000000000"
    using assms rne_exact [of "2 ^ 1074" "n * 1000000000"] by (simp only: f64_whole_def) (simp add: mult.assoc mult.left_commute mult.commute)
  then show ?thesis using assms by (simp add: from_secs_f64_def f64_whole_def)
qed

text \<open>Whole seconds, minutes and hours below \<open>2^53\<close> seconds are exact.\<close>

lemma parse_duration_whole:
  assumes "(suf, k) \<in> set DURATION_UNITS" "0 < n" "n * k < 2 ^ 53"
  shows "parse_duration (decimal n @ suf) = Returns \<lparr>du_secs = of_nat (n * k), du_nanos = 0\<rparr>"
proof -
  have k: "0 < k" "k < 2 ^ 53" using assms(1) by (auto simp: DURATION_UNITS_def)
  then have "n \<le> n * k" by simp
  then have "n < 2 ^ 53" using assms(3) by (rule le_less_trans)
  then have n: "int n < 2 ^ 53" "int n * int k < 2 ^ 53" using assms(3) by (simp_all flip: of_nat_mult)
  have w: "f64_whole (f64_make False (f64_code (f64_lit (int n) 1))) (int n)" "f64_whole (f64_lit (int k) 1) (int k)"
    using n(1) k by (auto intro!: f64_whole_make f64_whole_lit)
  have p: "f64_whole (f64_mul (f64_make False (f64_code (f64_lit (int n) 1))) (f64_lit (int k) 1)) (int n * int k)"
    using f64_whole_mul [OF w] n by simp
  show ?thesis
    using duration_unit_decimal [OF assms(1), of n] f64_whole_pos [OF w(1)] assms(2) w(1) from_secs_whole [OF p] n
    by (simp add: parse_duration_def parse_f64_decimal f64_whole_def flip: of_nat_mult)
qed


text \<open>
  A duration of \<open>2^64\<close> seconds or more passes the check for a finite positive number and panics inside
  \<open>Duration::from_secs_f64\<close> instead of being refused.
\<close>

lemma power_code: "units_of 52 ((int e + 1) * 2 ^ 52) = 2 ^ (52 + e)"
proof -
  have "(int e + 1) * 2 ^ 52 div 2 ^ 52 = int e + 1" "(int e + 1) * 2 ^ 52 mod (2 ^ 52 :: int) = 0" by simp_all
  moreover have "\<not> (int e + 1) * 2 ^ 52 < (2 ^ 52 :: int)" by simp
  ultimately show ?thesis unfolding units_of_def by (simp add: power_add del: power_numeral)
qed

lemma f64_lit_range:
  assumes "2 ^ 64 \<le> n" "n < 2 ^ 1000"
  shows "f64_is_finite (f64_lit n 1) \<and> \<not> f64_sign (f64_lit n 1) \<and> 2 ^ 64 * 2 ^ 1074 \<le> f64_units (f64_lit n 1)"
proof -
  let ?c = "code_of 52 (n * 2 ^ 1074) 1" and ?lo = "(int 1086 + 1) * 2 ^ 52" and ?hi = "(int 2022 + 1) * 2 ^ 52"
  have n: "0 \<le> n * 2 ^ 1074" using assms(1) by simp
  have u: "units_of 52 ?lo = 2 ^ 64 * 2 ^ 1074" "units_of 52 ?hi = 2 ^ 1000 * 2 ^ 1074"
    unfolding power_code power_add [symmetric] by simp_all
  have lo: "?lo \<le> ?c" by (rule code_of_ge) (use assms u(1) in \<open>simp_all only: mult_1_right\<close>, auto intro: mult_right_mono)
  have hi: "?c \<le> ?hi" by (rule code_of_le) (use assms n u(2) in \<open>simp_all only: mult_1_right\<close>, auto intro: mult_right_mono)
  have c: "0 \<le> ?c" "?c < f64_top" using lo hi by simp_all
  have "units_of 52 ?lo \<le> units_of 52 ?c" using lo c(1) by (subst units_of_le_iff) simp_all
  then have "2 ^ 64 * 2 ^ 1074 \<le> units_of 52 ?c" by (simp only: u(1))
  then show ?thesis using c assms(1) by (simp add: f64_lit_def f64_is_finite_def f64_units_def min_def)
qed


lemma f64_mul_one:
  assumes "f64_is_finite x" "\<not> f64_sign x"
  shows "f64_mul x (f64_lit 1 1) = f64_make False (f64_code x)"
proof -
  have one: "f64_is_finite (f64_lit 1 1)" "\<not> f64_sign (f64_lit 1 1)" "f64_units (f64_lit 1 1) = 2 ^ 1074"
    using f64_whole_lit [of 1] by (simp_all add: f64_whole_def)
  have "code_of 52 (units_of 52 (f64_code x) * 2 ^ 1074) (2 ^ 1074) = f64_code x"
    using code_of_scale [of "units_of 52 (f64_code x)" 1 "2 ^ 1074" 52] by (simp add: units_of_nonneg code_of_units_of)
  then show ?thesis using assms one
    by (simp add: f64_mul_def f64_is_finite_def f64_is_nan_def f64_is_infinite_def units_of_nonneg f64_units_def [of x] del: power_numeral)
qed

lemma from_secs_panics:
  assumes "2 ^ 64 * 2 ^ 1074 \<le> f64_units x"
  shows "from_secs_f64 x = Panics"
proof -
  have "2 ^ 64 * 1000000000 \<le> rne (f64_units x * 1000000000) (2 ^ 1074)"
  proof (rule rne_ge)
    have "2 ^ 64 * 2 ^ 1074 * 1000000000 \<le> f64_units x * 1000000000" using assms by (rule mult_right_mono) simp
    then show "2 ^ 64 * 1000000000 * 2 ^ 1074 \<le> f64_units x * 1000000000" by (simp add: mult.assoc mult.commute mult.left_commute)
  qed simp
  then have "2 ^ 64 * 1000000000 div 1000000000 \<le> rne (f64_units x * 1000000000) (2 ^ 1074) div (1000000000 :: int)"
    by (rule zdiv_mono1) simp
  then show ?thesis by (simp add: from_secs_f64_def Let_def)
qed

lemma parse_duration_panics:
  assumes "2 ^ 64 \<le> n" "n < 2 ^ 1000"
  shows "parse_duration (decimal n @ as_bytes ''s'') = Panics"
proof -
  let ?l = "f64_lit (int n) 1" and ?x = "f64_make False (f64_code (f64_lit (int n) 1))"
  have "2 ^ 64 \<le> int n" "int n < 2 ^ 1000" using assms by (metis of_nat_le_iff of_nat_power of_nat_numeral, metis of_nat_less_iff of_nat_power of_nat_numeral)
  note l = f64_lit_range [OF this]
  have x: "f64_is_finite ?x" "\<not> f64_sign ?x" "f64_code ?x = f64_code ?l" "f64_units ?x = f64_units ?l" using l by (simp_all add: f64_is_finite_def f64_units_def)
  have "f64_code ?l \<noteq> 0" using l by (auto simp: f64_units_def)
  then have "0 < f64_code ?x" using f64_code_range(1) [of ?l] x(3) by linarith
  moreover have "f64_key (f64_lit 0 1) = 0" by (simp add: f64_lit_def f64_key_def)
  moreover have "f64_key ?x = f64_code ?x" using x(2) by (simp only: f64_key_def if_False)
  ultimately have pos: "\<not> f64_le ?x (f64_lit 0 1)" by (simp only: f64_le_def) linarith
  have "f64_mul ?x (f64_lit 1 1) = ?x" using f64_mul_one [OF x(1,2)] x(3) by simp
  then have "from_secs_f64 (f64_mul ?x (f64_lit 1 1)) = Panics" using from_secs_panics [of ?x] x(4) l by simp
  then show ?thesis using duration_unit_decimal [of "as_bytes ''s''" 1 n] x(1) pos
    by (simp add: DURATION_UNITS_def parse_duration_def parse_f64_decimal)
qed

text \<open>A configuration that passes \<open>validate\<close> has positive durations and a segment size of at least a mebibyte; the defaults pass it.\<close>

lemma validated_config:
  assumes "validate_config create c = Returns ()"
  shows "0 < du_secs (cf_history c) \<or> 0 < du_nanos (cf_history c)" "2 ^ 20 \<le> unat (cf_segment_size c)"
    "\<not> duration_zero (cf_request_timeout c)" "\<not> duration_zero (cf_reconnect_delay c)"
  using assms by (auto simp: validate_config_def duration_zero_def word_less_nat_alt word_neq_0_conv split: if_splits)

lemma broker_defaults_valid:
  "\<exists>c. default_config host = Returns c \<and> validate_config create c = Returns () \<and> cf_history c = \<lparr>du_secs = 10, du_nanos = 0\<rparr>
     \<and> cf_segment_size c = 2 ^ 30 \<and> cf_control_port c = CONTROL_PORT \<and> cf_output_dir c = None"
proof -
  have d: "decimal 10 = as_bytes ''10''" "decimal 5 = as_bytes ''5''" "decimal 1 = as_bytes ''1''" by (simp_all add: decimal.simps as_bytes_def)
  have "parse_duration (as_bytes ''10s'') = Returns \<lparr>du_secs = 10, du_nanos = 0\<rparr>"
    "parse_duration (as_bytes ''5s'') = Returns \<lparr>du_secs = 5, du_nanos = 0\<rparr>" "parse_duration (as_bytes ''1s'') = Returns \<lparr>du_secs = 1, du_nanos = 0\<rparr>"
    using parse_duration_whole [of "as_bytes ''s''" 1 10] parse_duration_whole [of "as_bytes ''s''" 1 5] parse_duration_whole [of "as_bytes ''s''" 1 1]
    unfolding d by (simp_all add: DURATION_UNITS_def as_bytes_def)
  moreover have "parse_size (as_bytes ''1GiB'') = Returns (2 ^ 30)"
    by (simp add: parse_size_def SIZE_UNITS_def strip_suffix_def parse_u64_def digit_def checked_mul_u64_def as_bytes_def)
  ultimately show ?thesis by (simp add: default_config_def validate_config_def duration_zero_def)
qed

end
