(* ===== verification/Async_Tasks.thy ===== *)
theory Async_Tasks
  imports Main
begin

text \<open>
  Asynchronous tasks: what the broker's \<open>async fn\<close>s are made of. A task runs from one await point to
  the next without interruption and may be suspended there; it is a resumption, the next atomic section and
  what follows it. A section reads an input \<open>'e\<close> of the environment (a clock, a socket, a
  worker's acknowledgement) and the shared state, and is \<open>None\<close> while the task has to wait, as on
  a held lock. The tasks of a system interleave at the await points.
\<close>

datatype ('e, 's, 'r) Proc = Done 'r | Step "'e \<Rightarrow> 's \<Rightarrow> ('s \<times> ('e, 's, 'r) Proc) option"

primrec and_await :: "('e, 's, 'a) Proc \<Rightarrow> ('a \<Rightarrow> ('e, 's, 'b) Proc) \<Rightarrow> ('e, 's, 'b) Proc" where
  "and_await (Done x) k = k x"
| "and_await (Step f) k = Step (\<lambda>e s. map_option (map_prod id (\<lambda>p. and_await p k)) (f e s))"

definition section_of :: "('e \<Rightarrow> 's \<Rightarrow> 's \<times> 'a) \<Rightarrow> ('e, 's, 'a) Proc" where
  "section_of f = Step (\<lambda>e s. case f e s of (s', x) \<Rightarrow> Some (s', Done x))"

definition wait_until :: "('s \<Rightarrow> bool) \<Rightarrow> ('s \<Rightarrow> 's) \<Rightarrow> ('e, 's, unit) Proc" where
  "wait_until ready f = Step (\<lambda>e s. if ready s then Some (f s, Done ()) else None)"

primrec for_each :: "('a \<Rightarrow> ('e, 's, unit) Proc) \<Rightarrow> 'a list \<Rightarrow> ('e, 's, unit) Proc" where
  "for_each body [] = Done ()"
| "for_each body (x # xs) = and_await (body x) (\<lambda>_. for_each body xs)"

subsection \<open>Interleaving\<close>

inductive interleave :: "'s \<times> ('e, 's, 'r) Proc list \<Rightarrow> 's \<times> ('e, 's, 'r) Proc list \<Rightarrow> bool" where
  "i < length ps \<Longrightarrow> ps ! i = Step f \<Longrightarrow> f e s = Some (s', p) \<Longrightarrow> interleave (s, ps) (s', ps[i := p])"

inductive_cases interleaveE: "interleave (s, ps) c"

subsection \<open>Rely and guarantee\<close>

text \<open>
  \<open>rely t s s'\<close>: what task \<open>t\<close> may count on of a section of another task that leads from \<open>s\<close> to \<open>s'\<close>. A task
  owes every other task theirs. \<open>triple ok rely t P p Q\<close>: started where \<open>P\<close> holds, every section of \<open>p\<close>
  keeps \<open>ok\<close> and the guarantee, whatever happens in between, and \<open>Q\<close> holds at the end. At an await point
  the assertion must survive what the other tasks do.
\<close>

definition guarantee :: "('t \<Rightarrow> 's \<Rightarrow> 's \<Rightarrow> bool) \<Rightarrow> 't \<Rightarrow> 's \<Rightarrow> 's \<Rightarrow> bool" where
  "guarantee rely t s s' \<longleftrightarrow> (\<forall>t'. t' \<noteq> t \<longrightarrow> rely t' s s')"

definition stable :: "('t \<Rightarrow> 's \<Rightarrow> 's \<Rightarrow> bool) \<Rightarrow> 't \<Rightarrow> ('s \<Rightarrow> bool) \<Rightarrow> bool" where
  "stable rely t P \<longleftrightarrow> (\<forall>s s'. P s \<longrightarrow> rely t s s' \<longrightarrow> P s')"

inductive triple ::
  "('s \<Rightarrow> bool) \<Rightarrow> ('t \<Rightarrow> 's \<Rightarrow> 's \<Rightarrow> bool) \<Rightarrow> 't \<Rightarrow> ('s \<Rightarrow> bool) \<Rightarrow> ('e, 's, 'r) Proc \<Rightarrow> ('r \<Rightarrow> 's \<Rightarrow> bool) \<Rightarrow> bool"
  for ok :: "'s \<Rightarrow> bool" and rely :: "'t \<Rightarrow> 's \<Rightarrow> 's \<Rightarrow> bool" and t :: 't where
  triple_Done: "(\<And>s. ok s \<Longrightarrow> P s \<Longrightarrow> Q r s) \<Longrightarrow> triple ok rely t P (Done r) Q"
| triple_Step: "stable rely t P0 \<Longrightarrow> (\<And>s. ok s \<Longrightarrow> P s \<Longrightarrow> P0 s) \<Longrightarrow>
    (\<And>e s s' p. ok s \<Longrightarrow> P0 s \<Longrightarrow> f e s = Some (s', p) \<Longrightarrow>
       ok s' \<and> guarantee rely t s s' \<and> (\<exists>P'. P' s' \<and> triple ok rely t P' p Q)) \<Longrightarrow>
    triple ok rely t P (Step f) Q"

inductive_cases triple_StepE: "triple ok rely t P (Step f) Q"
inductive_cases triple_DoneE: "triple ok rely t P (Done r) Q"

lemma triple_strengthen:
  assumes "triple ok rely t P p Q" "\<And>s. ok s \<Longrightarrow> P' s \<Longrightarrow> P s"
  shows "triple ok rely t P' p Q"
  using assms by (cases p) (auto elim!: triple_StepE triple_DoneE intro!: triple_Done triple_Step)

text \<open>What is known of values, rather than of the state.\<close>

lemma triple_pure:
  assumes "b \<Longrightarrow> triple ok rely t P p Q"
  shows "triple ok rely t (\<lambda>s. b \<and> P s) p Q"
proof (cases b)
  case True
  with assms show ?thesis by simp
next
  case False
  then show ?thesis
    by (cases p) (auto intro: triple_Done triple_Step [where P0 = "\<lambda>_. False"] simp: stable_def)
qed

lemma triple_post:
  assumes "triple ok rely t P p Q" "\<And>r s. ok s \<Longrightarrow> Q r s \<Longrightarrow> Q' r s"
  shows "triple ok rely t P p Q'"
  using assms
proof (induction rule: triple.induct)
  case (triple_Done P Q r)
  then show ?case by (auto intro: triple.triple_Done)
next
  case (triple_Step P0 P f Q)
  show ?case
  proof (rule triple.triple_Step [OF triple_Step(1,2)])
    fix e s s' p assume "ok s" "P0 s" "f e s = Some (s', p)"
    from triple_Step(3) [OF this] triple_Step(4)
    show "ok s' \<and> guarantee rely t s s' \<and> (\<exists>P'. P' s' \<and> triple ok rely t P' p Q')" by blast
  qed
qed

lemma triple_await:
  assumes "triple ok rely t P m R" "\<And>x. triple ok rely t (R x) (k x) Q"
  shows "triple ok rely t P (and_await m k) Q"
  using assms
proof (induction rule: triple.induct)
  case (triple_Done P R r)
  then show ?case by (auto intro: triple_strengthen)
next
  case (triple_Step P0 P f R)
  show ?case unfolding and_await.simps
  proof (rule triple.triple_Step [OF triple_Step(1,2)])
    fix e s s' p assume a: "ok s" "P0 s" "map_option (map_prod id (\<lambda>p. and_await p k)) (f e s) = Some (s', p)"
    then obtain p0 where "f e s = Some (s', p0)" "p = and_await p0 k" by auto
    with triple_Step(3) [OF a(1,2)] triple_Step(4)
    show "ok s' \<and> guarantee rely t s s' \<and> (\<exists>P'. P' s' \<and> triple ok rely t P' p Q)" by blast
  qed
qed

lemma triple_section:
  assumes "stable rely t P" "\<And>e s. ok s \<Longrightarrow> P s \<Longrightarrow>
    ok (fst (f e s)) \<and> guarantee rely t s (fst (f e s)) \<and> Q (snd (f e s)) (fst (f e s))"
  shows "triple ok rely t P (section_of f) Q"
  unfolding section_of_def
proof (rule triple_Step [OF assms(1)], goal_cases)
  case (2 e s s' p)
  obtain x where x: "f e s = (s', x)" "p = Done x" using 2(3) by (auto split: prod.splits)
  then have "triple ok rely t (\<lambda>s. s = s') p Q" using assms(2) [OF 2(1,2), of e] by (auto intro: triple_Done)
  then show ?case using assms(2) [OF 2(1,2), of e] x by auto
qed

lemma triple_wait:
  assumes "stable rely t P" "\<And>s. ok s \<Longrightarrow> P s \<Longrightarrow> ready s \<Longrightarrow> ok (f s) \<and> guarantee rely t s (f s) \<and> Q () (f s)"
  shows "triple ok rely t P (wait_until ready f) Q"
  unfolding wait_until_def
proof (rule triple_Step [OF assms(1)], goal_cases)
  case (2 e s s' p)
  then have x: "ready s" "s' = f s" "p = Done ()" by (auto split: if_splits)
  have "triple ok rely t (\<lambda>s. s = s') p Q" using assms(2) [OF 2(1,2) x(1)] x by (auto intro: triple_Done)
  then show ?case using assms(2) [OF 2(1,2) x(1)] x by auto
qed

lemma triple_for_each:
  assumes "\<And>x. x \<in> set xs \<Longrightarrow> triple ok rely t P (body x) (\<lambda>_. P)"
  shows "triple ok rely t P (for_each body xs) (\<lambda>_. P)"
  using assms by (induction xs) (auto intro: triple_Done triple_await)

text \<open>
  The interface of a system of tasks: an invariant of the shared state, and what a task relies on. A task that
  is proved against it may run beside any others that are: the invariant holds in every interleaving.
\<close>

locale task_system =
  fixes ok :: "'s \<Rightarrow> bool" and rely :: "nat \<Rightarrow> 's \<Rightarrow> 's \<Rightarrow> bool"
  assumes rely_refl: "rely t s s"
begin

text \<open>A section that only reads.\<close>

lemma triple_read:
  assumes "stable rely t P" "\<And>e s. ok s \<Longrightarrow> P s \<Longrightarrow> Q (g e s) s"
  shows "triple ok rely t P (section_of (\<lambda>e s. (s, g e s))) Q"
  using assms rely_refl by (intro triple_section) (auto simp: guarantee_def)

definition verified :: "'s \<Rightarrow> nat \<Rightarrow> ('e, 's, 'r) Proc \<Rightarrow> bool" where
  "verified s i p \<longleftrightarrow> (\<exists>P Q. P s \<and> triple ok rely i P p Q)"

lemma verified_rely:
  assumes "verified s i p" "ok s" "rely i s s'"
  shows "verified s' i p"
proof (cases p)
  case (Done r)
  then show ?thesis unfolding verified_def
    by (intro exI [of _ "\<lambda>_. True"] exI [of _ "\<lambda>_ _. True"]) (auto intro: triple_Done)
next
  case (Step f)
  with assms(1) obtain P Q where "P s" "triple ok rely i P (Step f) Q" by (auto simp: verified_def)
  then obtain P0 where p: "stable rely i P0" "P0 s"
    "\<And>e s s' p. ok s \<Longrightarrow> P0 s \<Longrightarrow> f e s = Some (s', p) \<Longrightarrow>
       ok s' \<and> guarantee rely i s s' \<and> (\<exists>P'. P' s' \<and> triple ok rely i P' p Q)"
    using assms(2) by (elim triple_StepE) blast
  have "triple ok rely i P0 (Step f) Q" by (rule triple_Step [OF p(1) _ p(3)])
  moreover have "P0 s'" using assms(3) p(1,2) by (auto simp: stable_def)
  ultimately show ?thesis using Step unfolding verified_def by blast
qed

lemma verified_step:
  assumes "ok s" "\<forall>i < length ps. verified s i (ps ! i)" "interleave (s, ps) (s', ps')"
  shows "ok s' \<and> length ps' = length ps \<and> (\<forall>i < length ps'. verified s' i (ps' ! i))"
  using assms(3)
proof (rule interleaveE)
  fix i f e s1 p assume st: "(s', ps') = (s1, ps[i := p])" "i < length ps" "ps ! i = Step f" "f e s = Some (s1, p)"
  obtain P Q where "P s" "triple ok rely i P (Step f) Q" using assms(2) st(2,3) by (auto simp: verified_def)
  then obtain P0 where "P0 s" "\<And>e s s' p. ok s \<Longrightarrow> P0 s \<Longrightarrow> f e s = Some (s', p) \<Longrightarrow>
       ok s' \<and> guarantee rely i s s' \<and> (\<exists>P'. P' s' \<and> triple ok rely i P' p Q)"
    using assms(1) by (elim triple_StepE) blast
  with assms(1) st(1,4) have n: "ok s'" "guarantee rely i s s'" "verified s' i p"
    unfolding verified_def by blast+
  have "verified s' j (ps' ! j)" if "j < length ps'" for j
  proof (cases "j = i")
    case True
    then show ?thesis using st n(3) by simp
  next
    case False
    then have "verified s j (ps ! j)" "rely j s s'" using assms(2) that st n(2) by (auto simp: guarantee_def)
    then show ?thesis using verified_rely [OF _ assms(1), of j "ps ! j" s'] False st by simp
  qed
  then show ?thesis using n(1) st by simp
qed

theorem invariant_in_every_interleaving:
  assumes "interleave\<^sup>*\<^sup>* (s, ps) (s', ps')" "ok s" "\<forall>i < length ps. verified s i (ps ! i)"
  shows "ok s'"
proof -
  have "ok s' \<and> length ps' = length ps \<and> (\<forall>i < length ps'. verified s' i (ps' ! i))"
    using assms(1)
  proof (induction "(s', ps')" arbitrary: s' ps' rule: rtranclp_induct)
    case base
    then show ?case using assms by simp
  next
    case (step y)
    obtain s1 ps1 where y: "y = (s1, ps1)" by (cases y)
    from step(3) [OF y] step(2) y show ?case using verified_step [of s1 ps1 s' ps'] by auto
  qed
  then show ?thesis by simp
qed

end

end
