(* ===== verification/Broker_Server.thy ===== *)
theory Broker_Server
  imports Broker_Config Async_Tasks Float64 "HOL-Library.AList"
begin

text \<open>
  The broker of \<open>helic-broker/src/server.rs\<close>: its shared state, and every \<open>async fn\<close> as a task of
  \<open>Async_Tasks\<close>. One section is what runs while a \<open>tokio\<close> mutex is held, or one completed await on a
  socket or on the storage worker; between sections the other tasks run. The \<open>upstream\<close> mutex is
  held from writing a request to reading its response, so a request is one section. \<open>stream_operations\<close>
  is held across awaits and is part of the state. A \<open>HashMap\<close> is an association list without duplicate keys.
\<close>

definition PRIMER :: bytes where "PRIMER = as_bytes ''helic-daq-stream-prime''"
definition TABLE_TRANSACTION_TIMEOUT :: nat where "TABLE_TRANSACTION_TIMEOUT = 5000000000"

type_synonym SocketAddr = "u32 \<times> u16"

subsection \<open>Configuration and shared state\<close>

record StreamConfiguration =
  sc_decimation :: u16
  sc_count :: u32
  sc_sources :: bytes

definition stream_configuration_decode :: "bytes \<Rightarrow> StreamConfiguration answer" where
  "stream_configuration_decode payload =
     (if length payload < 7 then Fails
      else
        let decimation = u16_from_le (payload ! 0) (payload ! 1);
            count = u32_from_le (payload ! 2) (payload ! 3) (payload ! 4) (payload ! 5);
            n_sources = unat (payload ! 6)
        in if decimation = 0 \<or> n_sources = 0 \<or> n_sources > MAX_SOURCES \<or> length payload \<noteq> 7 + n_sources then Fails
           else Returns \<lparr>sc_decimation = decimation, sc_count = count, sc_sources = drop 7 payload\<rparr>)"

record ClientState =
  cs_endpoint :: "SocketAddr option"
  cs_quiet :: bool

definition client_default :: ClientState where
  "client_default = \<lparr>cs_endpoint = None, cs_quiet = False\<rparr>"

record TableOwner =
  to_client_id :: u64
  to_touched :: nat

record SharedState =
  bs_configuration :: "StreamConfiguration option"
  bs_running :: bool
  bs_received_records :: nat
  bs_clients :: "(u64 \<times> ClientState) list"
  bs_history :: History
  bs_table_owner :: "TableOwner option"

definition shared_default :: SharedState where
  "shared_default = \<lparr>bs_configuration = None, bs_running = False, bs_received_records = 0, bs_clients = [],
     bs_history = history_default, bs_table_owner = None\<rparr>"

text \<open>\<open>Instant::elapsed\<close> saturates at zero; times are nanoseconds.\<close>

definition expire_table_owner :: "nat \<Rightarrow> SharedState \<Rightarrow> SharedState" where
  "expire_table_owner now s =
     (case bs_table_owner s of
        Some owner \<Rightarrow> if now - to_touched owner \<ge> TABLE_TRANSACTION_TIMEOUT then s\<lparr>bs_table_owner := None\<rparr> else s
      | None \<Rightarrow> s)"

definition detach_all :: "SharedState \<Rightarrow> SharedState" where
  "detach_all s = s\<lparr>bs_clients := map (\<lambda>(k, c). (k, c\<lparr>cs_endpoint := None, cs_quiet := False\<rparr>)) (bs_clients s)\<rparr>"

definition client_get :: "u64 \<Rightarrow> SharedState \<Rightarrow> ClientState option" where
  "client_get k s = map_of (bs_clients s) k"

definition client_insert :: "u64 \<Rightarrow> ClientState \<Rightarrow> SharedState \<Rightarrow> SharedState" where
  "client_insert k c s = s\<lparr>bs_clients := AList.update k c (bs_clients s)\<rparr>"

definition client_remove :: "u64 \<Rightarrow> SharedState \<Rightarrow> SharedState" where
  "client_remove k s = s\<lparr>bs_clients := filter (\<lambda>(k', _). k' \<noteq> k) (bs_clients s)\<rparr>"

subsection \<open>The application\<close>

record App =
  ap_config :: Config
  ap_upstream :: "UpstreamControl option"
  ap_metadata :: "DeviceMetadata option"
  ap_state :: SharedState
  ap_stream_operations :: "nat option"
  ap_storage :: "StorageCommand list option"
  ap_epoch :: u64
  ap_next_generation :: u64
  ap_next_client :: u64
  ap_fatal :: bool
  ap_mcu_frames :: "bytes list"
  ap_mcu_datagrams :: "(bytes \<times> SocketAddr) list"
  ap_datagrams :: "(bytes \<times> SocketAddr) list"

text \<open>
  The input of a section: the clocks, what the MCU delivers for a frame written after those of the list,
  whether the storage worker accepts and acknowledges, whether a UDP or TCP write succeeds, and
  the outcome of connecting (peer address and local UDP port) and of the beacon query.
\<close>

record Env =
  en_now :: nat
  en_utc_ns :: int
  en_mcu :: "bytes list \<Rightarrow> bytes \<Rightarrow> bytes option"
  en_storage_ok :: bool
  en_udp_ok :: bool
  en_tcp_ok :: bool
  en_connect :: "(u32 \<times> u16) option"
  en_beacon :: "bytes option"

type_synonym 'r task = "(Env, App, 'r) Proc"

definition net_of :: "Env \<Rightarrow> bytes list mcu" where
  "net_of e sent bs = (sent @ [bs], en_mcu e sent bs)"

definition with_state :: "(SharedState \<Rightarrow> SharedState \<times> 'a) \<Rightarrow> App \<Rightarrow> App \<times> 'a" where
  "with_state f a = (case f (ap_state a) of (s, x) \<Rightarrow> (a\<lparr>ap_state := s\<rparr>, x))"

text \<open>The question-mark operator in an \<open>async fn\<close>.\<close>

definition and_try :: "'a answer task \<Rightarrow> ('a \<Rightarrow> 'b answer task) \<Rightarrow> 'b answer task" where
  "and_try m k = and_await m (\<lambda>r. case r of Panics \<Rightarrow> Done Panics | Fails \<Rightarrow> Done Fails | Returns x \<Rightarrow> k x)"

text \<open>\<open>let _operation = app.stream_operations.lock().await\<close>, held until the body returns.\<close>

definition lock_operations :: "nat \<Rightarrow> unit task" where
  "lock_operations t = wait_until (\<lambda>a. ap_stream_operations a = None) (\<lambda>a. a\<lparr>ap_stream_operations := Some t\<rparr>)"

definition unlock_operations :: "unit task" where
  "unlock_operations = section_of (\<lambda>e a. (a\<lparr>ap_stream_operations := None\<rparr>, ()))"

definition with_operations :: "nat \<Rightarrow> 'a task \<Rightarrow> 'a task" where
  "with_operations t body =
     and_await (lock_operations t) (\<lambda>_. and_await body (\<lambda>r. and_await unlock_operations (\<lambda>_. Done r)))"

subsection \<open>Recording\<close>

definition storage_send :: "StorageCommand \<Rightarrow> Env \<Rightarrow> App \<Rightarrow> App \<times> unit answer" where
  "storage_send command e a =
     (case ap_storage a of
        None \<Rightarrow> (a, Returns ())
      | Some log \<Rightarrow>
          if en_storage_ok e then (a\<lparr>ap_storage := Some (log @ [command])\<rparr>, Returns ()) else (a, Fails))"

definition start_recording :: "SessionMetadata \<Rightarrow> unit answer task" where
  "start_recording metadata = section_of (storage_send (StStart metadata))"

definition record_packet :: "Packet \<Rightarrow> Env \<Rightarrow> App \<Rightarrow> App \<times> unit answer" where
  "record_packet packet = storage_send (StPacket packet)"

definition stop_recording :: "CloseReason \<Rightarrow> unit answer task" where
  "stop_recording reason = section_of (storage_send (StStop reason))"

definition shutdown_recording :: "unit task" where
  "shutdown_recording = section_of (\<lambda>e a. (fst (storage_send StShutdown e a), ()))"

subsection \<open>The upstream session\<close>

definition upstream_ready :: "App \<Rightarrow> bool" where "upstream_ready a \<longleftrightarrow> ap_upstream a \<noteq> None"

definition current_generation :: "App \<Rightarrow> u64 option" where
  "current_generation a = map_option uc_generation (ap_upstream a)"

definition take_upstream :: "u64 \<Rightarrow> bool task" where
  "take_upstream generation = section_of (\<lambda>e a.
     if current_generation a = Some generation then (a\<lparr>ap_upstream := None\<rparr>, True) else (a, False))"

text \<open>The state section that both failure and reboot run.\<close>

definition reset_session :: "SharedState \<Rightarrow> SharedState \<times> bool" where
  "reset_session s =
     ((detach_all (s\<lparr>bs_running := False, bs_configuration := None, bs_received_records := 0,
         bs_history := history_clear (bs_history s)\<rparr>))\<lparr>bs_table_owner := None\<rparr>, bs_running s)"

text \<open>The state section of \<open>stream_stop\<close> and of \<open>rollback_failed_start\<close>.\<close>

definition stop_session :: "SharedState \<Rightarrow> SharedState \<times> bool" where
  "stop_session s =
     (detach_all (s\<lparr>bs_running := False, bs_received_records := 0, bs_history := history_clear (bs_history s)\<rparr>), bs_running s)"

definition clear_metadata :: "unit task" where
  "clear_metadata = section_of (\<lambda>e a. (a\<lparr>ap_metadata := None\<rparr>, ()))"

definition advance_epoch :: "unit task" where
  "advance_epoch = section_of (\<lambda>e a. (a\<lparr>ap_epoch := ap_epoch a + 1\<rparr>, ()))"

definition stop_if :: "bool \<Rightarrow> CloseReason \<Rightarrow> unit task" where
  "stop_if was_running reason = (if was_running then and_await (stop_recording reason) (\<lambda>_. Done ()) else Done ())"

definition mark_upstream_failed :: "u64 \<Rightarrow> unit task" where
  "mark_upstream_failed generation =
     and_await (take_upstream generation) (\<lambda>removed.
       if \<not> removed then Done ()
       else and_await (section_of (\<lambda>e. with_state reset_session)) (\<lambda>was_running.
            and_await (stop_if was_running UpstreamLost) (\<lambda>_.
            and_await clear_metadata (\<lambda>_. advance_epoch))))"

definition complete_mcu_reboot :: "u64 \<Rightarrow> unit task" where
  "complete_mcu_reboot generation =
     and_await (take_upstream generation) (\<lambda>removed.
       if \<not> removed then Done ()
       else and_await (section_of (\<lambda>e. with_state reset_session)) (\<lambda>was_running.
            and_await clear_metadata (\<lambda>_.
            and_await advance_epoch (\<lambda>_. stop_if was_running McuReboot))))"

definition send_request :: "u8 \<Rightarrow> bytes \<Rightarrow> Env \<Rightarrow> App \<Rightarrow> App \<times> (u64 \<times> UpstreamResponse answer) option" where
  "send_request message_type payload e a =
     (case ap_upstream a of
        None \<Rightarrow> (a, None)
      | Some u \<Rightarrow>
          (case upstream_request (net_of e) message_type payload (ap_mcu_frames a) u of
             (frames, u', r) \<Rightarrow> (a\<lparr>ap_upstream := Some u', ap_mcu_frames := frames\<rparr>, Some (uc_generation u, r))))"

definition request_with_generation :: "u8 \<Rightarrow> bytes \<Rightarrow> (u64 \<times> UpstreamResponse) answer task" where
  "request_with_generation message_type payload =
     and_await (section_of (send_request message_type payload)) (\<lambda>sent.
       case sent of
         None \<Rightarrow> Done Fails
       | Some (generation, Returns response) \<Rightarrow> Done (Returns (generation, response))
       | Some (generation, Fails) \<Rightarrow> and_await (mark_upstream_failed generation) (\<lambda>_. Done Fails)
       | Some (generation, Panics) \<Rightarrow> Done Panics)"

definition request :: "u8 \<Rightarrow> bytes \<Rightarrow> UpstreamResponse answer task" where
  "request message_type payload = and_try (request_with_generation message_type payload) (\<lambda>(_, response). Done (Returns response))"

definition force_upstream_disconnect :: "unit task" where
  "force_upstream_disconnect =
     and_await (section_of (\<lambda>e a. (a, current_generation a))) (\<lambda>generation.
       case generation of None \<Rightarrow> Done () | Some g \<Rightarrow> mark_upstream_failed g)"

subsection \<open>Clients\<close>

definition history_capacity_ms :: "Config \<Rightarrow> u32" where
  "history_capacity_ms c = of_nat (min (unat (du_secs (cf_history c)) * 1000 + unat (du_nanos (cf_history c)) div 1000000) (2 ^ 32 - 1))"

definition flag_if :: "bool \<Rightarrow> u8 \<Rightarrow> u8 \<Rightarrow> u8" where
  "flag_if b flag flags = (if b then flags OR flag else flags)"

definition broker_info_section :: "Config \<Rightarrow> bool \<Rightarrow> u64 \<Rightarrow> nat \<Rightarrow> SharedState \<Rightarrow> SharedState \<times> BrokerInfo answer" where
  "broker_info_section config connected client_id now state0 =
     (let state = expire_table_owner now state0;
          client = (case client_get client_id state of None \<Rightarrow> client_default | Some c \<Rightarrow> c);
          flags = flag_if (bs_table_owner state \<noteq> None) STATE_TABLE_TRANSACTION
                  (flag_if (cs_quiet client) STATE_CLIENT_QUIET
                  (flag_if (cs_endpoint client \<noteq> None) STATE_CLIENT_ATTACHED
                  (flag_if (bs_running state) STATE_RUNNING
                  (flag_if (bs_configuration state \<noteq> None) STATE_CONFIGURED
                  (flag_if connected STATE_UPSTREAM_CONNECTED 0)))))
      in (state,
          case bs_configuration state of
            None \<Rightarrow>
              Returns \<lparr>bi_state = flags, bi_capabilities = CAPABILITIES, bi_history_capacity_ms = history_capacity_ms config,
                bi_history_available_records = of_nat (min (hs_records (bs_history state)) (2 ^ 32 - 1)),
                bi_decimation = 1, bi_count = 0,
                bi_connected_clients = of_nat (min (length (bs_clients state)) 65535),
                bi_n_sources = 0, bi_sources = replicate MAX_SOURCES 0\<rparr>
          | Some configuration \<Rightarrow>
              if length (sc_sources configuration) > MAX_SOURCES then Panics
              else Returns \<lparr>bi_state = flags, bi_capabilities = CAPABILITIES, bi_history_capacity_ms = history_capacity_ms config,
                bi_history_available_records = of_nat (min (hs_records (bs_history state)) (2 ^ 32 - 1)),
                bi_decimation = sc_decimation configuration, bi_count = sc_count configuration,
                bi_connected_clients = of_nat (min (length (bs_clients state)) 65535),
                bi_n_sources = of_nat (length (sc_sources configuration)),
                bi_sources = copy_at (replicate MAX_SOURCES 0) 0 (sc_sources configuration)\<rparr>))"

definition broker_info :: "u64 \<Rightarrow> BrokerInfo answer task" where
  "broker_info client_id =
     and_await (section_of (\<lambda>e a. (a, upstream_ready a))) (\<lambda>connected.
       section_of (\<lambda>e a. with_state (broker_info_section (ap_config a) connected client_id (en_now e)) a))"

text \<open>The identifier is taken by an atomic \<open>fetch_add\<close>, the state section follows after an await.\<close>

definition register_client :: "u64 task" where
  "register_client =
     and_await (section_of (\<lambda>e a. (a\<lparr>ap_next_client := ap_next_client a + 1\<rparr>, ap_next_client a))) (\<lambda>client_id.
     and_await (section_of (\<lambda>e. with_state (\<lambda>s. (client_insert client_id client_default s, ())))) (\<lambda>_. Done client_id))"

definition disarm_request :: "u16 \<Rightarrow> bytes" where
  "disarm_request arm_index = u16_to_le arm_index @ u32_to_le 0"

definition disarm_mcu :: "unit task" where
  "disarm_mcu =
     and_await (section_of (\<lambda>e a. (a, Option.bind (ap_metadata a) dm_arm_index))) (\<lambda>arm_index.
       case arm_index of
         None \<Rightarrow> Done ()
       | Some index \<Rightarrow>
           and_await (request (msg_type_u8 SetPar) (disarm_request index)) (\<lambda>r.
             case r of
               Returns response \<Rightarrow>
                 if ur_type response = msg_type_u8 SetPar then Done () else force_upstream_disconnect
             | _ \<Rightarrow> Done ()))"

definition unregister_section :: "u64 \<Rightarrow> SharedState \<Rightarrow> SharedState \<times> bool" where
  "unregister_section client_id s =
     (let s1 = client_remove client_id s;
          s2 = (if map_option to_client_id (bs_table_owner s1) = Some client_id then s1\<lparr>bs_table_owner := None\<rparr> else s1)
      in (s2, bs_clients s2 = []))"

definition unregister_client :: "u64 \<Rightarrow> unit task" where
  "unregister_client client_id =
     and_await (section_of (\<lambda>e. with_state (unregister_section client_id))) (\<lambda>last_client.
       if last_client then disarm_mcu else Done ())"

definition rollback_failed_start :: "unit task" where
  "rollback_failed_start =
     and_await (section_of (\<lambda>e. with_state stop_session)) (\<lambda>was_running. stop_if was_running StartRejected)"

subsection \<open>Stream packets\<close>

definition send_datagram :: "bytes \<times> SocketAddr \<Rightarrow> unit task" where
  "send_datagram d = section_of (\<lambda>e a. (if en_udp_ok e then a\<lparr>ap_datagrams := ap_datagrams a @ [d]\<rparr> else a, ()))"

definition stream_targets :: "SharedState \<Rightarrow> SocketAddr list" where
  "stream_targets s = List.map_filter cs_endpoint (filter (\<lambda>c. \<not> cs_quiet c) (map snd (bs_clients s)))"

text \<open>The state section of \<open>process_packet\<close>: \<open>Returns None\<close> is an early return, the pair is the targets and \<open>complete\<close>.\<close>

definition accept_packet :: "Packet \<Rightarrow> Env \<Rightarrow> App \<Rightarrow> App \<times> (SocketAddr list \<times> bool) option answer" where
  "accept_packet packet e a =
     (let state = ap_state a
      in case bs_configuration state of
           None \<Rightarrow> (a, Returns None)
         | Some configuration \<Rightarrow>
             if \<not> bs_running state then (a, Returns None)
             else if unat (sh_n_sources (pk_header packet)) \<noteq> length (sc_sources configuration)
                     \<or> sh_decimation (pk_header packet) \<noteq> sc_decimation configuration then (a, Returns None)
             else
               (case record_packet packet e a of
                  (a1, Fails) \<Rightarrow> (a1, Fails)
                | (a1, Panics) \<Rightarrow> (a1, Panics)
                | (a1, Returns _) \<Rightarrow>
                    (case history_push packet (bs_history state) of
                       None \<Rightarrow> (a1, Panics)
                     | Some history \<Rightarrow>
                         let received = bs_received_records state + packet_records packet
                         in (a1\<lparr>ap_state := state\<lparr>bs_history := history, bs_received_records := received\<rparr>\<rparr>,
                             Returns (Some (stream_targets state,
                               sc_count configuration \<noteq> 0 \<and> received \<ge> unat (sc_count configuration)))))))"

text \<open>The state section once the count is complete.\<close>

definition complete_section :: "SharedState \<Rightarrow> SharedState \<times> bool" where
  "complete_section s = (if \<not> bs_running s then (s, False) else (fst (stop_session s), True))"

definition complete_stream :: "nat \<Rightarrow> unit answer task" where
  "complete_stream t =
     with_operations t (
       and_await (section_of (\<lambda>e. with_state complete_section)) (\<lambda>was_running.
         if was_running then stop_recording CountComplete else Done (Returns ())))"

definition process_packet :: "nat \<Rightarrow> bytes \<Rightarrow> unit answer task" where
  "process_packet t wire =
     and_await (section_of (\<lambda>e a. (a, packet_decode wire (en_utc_ns e)))) (\<lambda>decoded.
       case decoded of
         None \<Rightarrow> Done (Returns ())
       | Some packet \<Rightarrow>
           and_try (section_of (accept_packet packet)) (\<lambda>accepted.
             case accepted of
               None \<Rightarrow> Done (Returns ())
             | Some (targets, complete) \<Rightarrow>
                 and_await (for_each send_datagram (map (\<lambda>target. (pk_wire packet, target)) targets)) (\<lambda>_.
                   if complete then complete_stream t else Done (Returns ()))))"

definition broker_shutdown :: "unit task" where
  "broker_shutdown =
     and_await (section_of (\<lambda>e a. (a, bs_running (ap_state a)))) (\<lambda>running.
     and_await (if running
                then and_await (request (msg_type_u8 StreamStop) []) (\<lambda>_.
                     and_await (stop_recording BrokerShutdown) (\<lambda>_. Done ()))
                else Done ()) (\<lambda>_.
     and_await disarm_mcu (\<lambda>_.
     and_await shutdown_recording (\<lambda>_.
       section_of (\<lambda>e a. (a\<lparr>ap_upstream := None\<rparr>, ()))))))"

subsection \<open>Requests\<close>

record Handled =
  hd_response_type :: u8
  hd_payload :: bytes
  hd_datagrams :: "(bytes \<times> SocketAddr) list"
  hd_reboot_generation :: "u64 option"

definition handled_response :: "UpstreamResponse \<Rightarrow> Handled" where
  "handled_response r = \<lparr>hd_response_type = ur_type r, hd_payload = ur_payload r, hd_datagrams = [], hd_reboot_generation = None\<rparr>"

definition handled_empty :: "u8 \<Rightarrow> Handled" where
  "handled_empty ty = \<lparr>hd_response_type = ty, hd_payload = [], hd_datagrams = [], hd_reboot_generation = None\<rparr>"

definition handled_error :: "u8 \<Rightarrow> u8 \<Rightarrow> Handled" where
  "handled_error request_type code =
     \<lparr>hd_response_type = msg_type_u8 MsgError, hd_payload = [code, request_type], hd_datagrams = [], hd_reboot_generation = None\<rparr>"

abbreviation refuse :: "u8 \<Rightarrow> u8 \<Rightarrow> Handled answer task" where
  "refuse request_type code \<equiv> Done (Returns (handled_error request_type code))"

definition set_parameter :: "bytes \<Rightarrow> Handled answer task" where
  "set_parameter payload =
     and_await (section_of (\<lambda>e a. (a, Option.bind (ap_metadata a) dm_mcu_reboot_index))) (\<lambda>reboot_index.
       let requested_index = (if length payload < 2 then None else Some (u16_from_le (payload ! 0) (payload ! 1)))
       in and_try (request_with_generation (msg_type_u8 SetPar) payload) (\<lambda>(generation, response).
            let is_reboot = (ur_type response = msg_type_u8 SetPar
                             \<and> (case requested_index of None \<Rightarrow> False | Some index \<Rightarrow> Some index = reboot_index));
                handled = handled_response response
            in Done (Returns (if is_reboot then handled\<lparr>hd_reboot_generation := Some generation\<rparr> else handled))))"

text \<open>\<open>stream_setup\<close> once the payload was decoded, with \<open>stream_operations\<close> held.\<close>

definition setup_upstream :: "bytes \<Rightarrow> StreamConfiguration \<Rightarrow> Handled answer task" where
  "setup_upstream payload configuration =
     and_await (section_of (\<lambda>e a. (a, current_generation a))) (\<lambda>generation.
     and_try (request (msg_type_u8 StreamSetup) payload) (\<lambda>response.
       if ur_type response \<noteq> msg_type_u8 StreamSetup then Done (Returns (handled_response response))
       else and_await (section_of (\<lambda>e a. (a, current_generation a = generation))) (\<lambda>same.
         if \<not> same then Done (Returns (handled_response response))
         else and_await (section_of (\<lambda>e. with_state (\<lambda>s. (s\<lparr>bs_configuration := Some configuration\<rparr>, ())))) (\<lambda>_.
                Done (Returns (handled_response response))))))"

definition broker_stream_setup :: "nat \<Rightarrow> bytes \<Rightarrow> Handled answer task" where
  "broker_stream_setup t payload =
     with_operations t (
       and_await (section_of (\<lambda>e a. (a, bs_running (ap_state a)))) (\<lambda>running.
         if running then refuse (msg_type_u8 StreamSetup) (error_code_u8 Busy)
         else case stream_configuration_decode payload of
                Returns configuration \<Rightarrow> setup_upstream payload configuration
              | _ \<Rightarrow> refuse (msg_type_u8 StreamSetup) (error_code_u8 BadValue)))"

text \<open>\<open>f64::ceil\<close> and the saturating \<open>as usize\<close>.\<close>

definition f64_ceil_usize :: "f64 \<Rightarrow> nat" where
  "f64_ceil_usize x =
     (if f64_is_nan x then 0
      else if f64_is_infinite x then (if f64_sign x then 0 else 2 ^ 64 - 1)
      else nat (max 0 (min (2 ^ 64 - 1) (- ((- f64_units x) div 2 ^ 1074)))))"

definition history_secs_f64 :: "Config \<Rightarrow> f64" where
  "history_secs_f64 c =
     f64_add (f64_lit (uint (du_secs (cf_history c))) 1) (f64_div (f64_lit (uint (du_nanos (cf_history c))) 1) (f64_lit 1000000000 1))"

definition history_capacity :: "Config \<Rightarrow> f32 \<Rightarrow> u16 \<Rightarrow> nat" where
  "history_capacity c sample_rate_hz decimation =
     max (f64_ceil_usize (f64_div (f64_mul (f64_of_f32 sample_rate_hz) (history_secs_f64 c)) (f64_lit (uint decimation) 1))) 1"

text \<open>\<open>clients.get_mut(&client_id)\<close> and the two assignments; \<open>None\<close> when the client is gone.\<close>

definition attach_client :: "u64 \<Rightarrow> SocketAddr \<Rightarrow> bool \<Rightarrow> SharedState \<Rightarrow> SharedState option" where
  "attach_client client_id target quiet s =
     map_option (\<lambda>client. client_insert client_id (client\<lparr>cs_endpoint := Some target, cs_quiet := quiet\<rparr>) s) (client_get client_id s)"

definition attach_if_running :: "u64 \<Rightarrow> SocketAddr \<Rightarrow> bool \<Rightarrow> SharedState \<Rightarrow> SharedState \<times> bool answer" where
  "attach_if_running client_id target quiet s =
     (if \<not> bs_running s then (s, Returns False)
      else case attach_client client_id target quiet s of None \<Rightarrow> (s, Fails) | Some s' \<Rightarrow> (s', Returns True))"

definition begin_session :: "nat \<Rightarrow> u64 \<Rightarrow> SocketAddr \<Rightarrow> bool \<Rightarrow> SharedState \<Rightarrow> SharedState \<times> unit answer" where
  "begin_session capacity client_id target quiet s =
     (let s1 = s\<lparr>bs_running := True, bs_received_records := 0, bs_history := history_reset capacity (bs_history s)\<rparr>
      in case attach_client client_id target quiet s1 of None \<Rightarrow> (s1, Fails) | Some s2 \<Rightarrow> (s2, Returns ()))"

definition session_metadata :: "DeviceMetadata \<Rightarrow> StreamConfiguration \<Rightarrow> int \<Rightarrow> SessionMetadata" where
  "session_metadata metadata configuration now =
     \<lparr>se_experiment = dm_experiment metadata, se_firmware = dm_firmware metadata, se_sample_rate_hz = dm_sample_rate_hz metadata,
      se_decimation = sc_decimation configuration, se_configured_count = sc_count configuration,
      se_sources = map (\<lambda>source. dm_sources metadata ! unat source) (sc_sources configuration), se_started_utc_ns = now\<rparr>"

text \<open>The block of \<open>start_client\<close> that primes the UDP path and asks the MCU to stream.\<close>

definition prime_and_start :: "UpstreamResponse answer task" where
  "prime_and_start =
     and_try (section_of (\<lambda>e a. (a, case ap_upstream a of None \<Rightarrow> Fails | Some u \<Rightarrow> Returns (uc_peer_ip u, uc_udp_port u)))) (\<lambda>(peer_ip, port).
     and_try (section_of (\<lambda>e a.
         if en_udp_ok e
         then (a\<lparr>ap_mcu_datagrams := ap_mcu_datagrams a @ [(PRIMER, (peer_ip, cf_mcu_stream_port (ap_config a)))]\<rparr>, Returns ())
         else (a, Fails))) (\<lambda>_.
       request (msg_type_u8 StreamStart) (u16_to_le port)))"

definition start_stream :: "u64 \<Rightarrow> SocketAddr \<Rightarrow> bool \<Rightarrow> u8 \<Rightarrow> Handled answer task" where
  "start_stream client_id target quiet request_type =
     and_await (section_of (\<lambda>e a. (a, bs_configuration (ap_state a)))) (\<lambda>configured.
       case configured of
         None \<Rightarrow> refuse request_type (error_code_u8 BadValue)
       | Some configuration \<Rightarrow>
           and_await (section_of (\<lambda>e a. (a, (ap_metadata a, en_utc_ns e)))) (\<lambda>(known, now).
             case known of
               None \<Rightarrow> Done Fails
             | Some metadata \<Rightarrow>
                 if list_ex (\<lambda>source. unat source \<ge> length (dm_sources metadata)) (sc_sources configuration)
                 then refuse request_type (error_code_u8 BadValue)
                 else
                   and_try (start_recording (session_metadata metadata configuration now)) (\<lambda>_.
                   and_try (section_of (\<lambda>e a. with_state (begin_session
                       (history_capacity (ap_config a) (dm_sample_rate_hz metadata) (sc_decimation configuration))
                       client_id target quiet) a)) (\<lambda>_.
                   and_await prime_and_start (\<lambda>started.
                     case started of
                       Returns response \<Rightarrow>
                         if ur_type response = msg_type_u8 StreamStart then Done (Returns (handled_empty request_type))
                         else and_await rollback_failed_start (\<lambda>_. Done (Returns (handled_response response)))
                     | Fails \<Rightarrow> and_await rollback_failed_start (\<lambda>_. Done Fails)
                     | Panics \<Rightarrow> Done Panics)))))"

definition start_client :: "nat \<Rightarrow> u64 \<Rightarrow> u32 \<Rightarrow> bytes \<Rightarrow> bool \<Rightarrow> Handled answer task" where
  "start_client t client_id peer_ip payload quiet =
     (let request_type = (if quiet then QUIET_STREAM_START else msg_type_u8 StreamStart)
      in if length payload \<noteq> 2 then refuse request_type (error_code_u8 BadLength)
         else
           let port = u16_from_le (payload ! 0) (payload ! 1)
           in if port = 0 then refuse request_type (error_code_u8 BadValue)
              else with_operations t (
                     and_try (section_of (\<lambda>e. with_state (attach_if_running client_id (peer_ip, port) quiet))) (\<lambda>attached.
                       if attached then Done (Returns (handled_empty request_type))
                       else start_stream client_id (peer_ip, port) quiet request_type)))"

definition broker_stream_stop :: "nat \<Rightarrow> bytes \<Rightarrow> Handled answer task" where
  "broker_stream_stop t payload =
     (if payload \<noteq> [] then refuse (msg_type_u8 StreamStop) (error_code_u8 BadLength)
      else with_operations t (
             and_try (request (msg_type_u8 StreamStop) []) (\<lambda>response.
               if ur_type response = msg_type_u8 StreamStop
               then and_await (section_of (\<lambda>e. with_state stop_session)) (\<lambda>was_running.
                      and_try (if was_running then stop_recording CloseStreamStop else Done (Returns ())) (\<lambda>_.
                        Done (Returns (handled_response response))))
               else Done (Returns (handled_response response)))))"

definition set_quiet_section :: "u64 \<Rightarrow> u8 \<Rightarrow> bool \<Rightarrow> SharedState \<Rightarrow> SharedState \<times> Handled answer" where
  "set_quiet_section client_id message_type quiet s =
     (case client_get client_id s of
        None \<Rightarrow> (s, Fails)
      | Some client \<Rightarrow>
          if cs_endpoint client = None then (s, Returns (handled_error message_type (broker_error_u8 NotAttached)))
          else (client_insert client_id (client\<lparr>cs_quiet := quiet\<rparr>) s, Returns (handled_empty message_type)))"

definition set_quiet :: "u64 \<Rightarrow> u8 \<Rightarrow> bytes \<Rightarrow> Handled answer task" where
  "set_quiet client_id message_type payload =
     (if length payload \<noteq> 1 then refuse message_type (error_code_u8 BadLength)
      else if payload ! 0 > 1 then refuse message_type (error_code_u8 BadValue)
      else section_of (\<lambda>e. with_state (set_quiet_section client_id message_type (payload ! 0 \<noteq> 0))))"

definition get_recent_section :: "u64 \<Rightarrow> u8 \<Rightarrow> u32 \<Rightarrow> SharedState \<Rightarrow> Handled answer" where
  "get_recent_section client_id message_type requested s =
     (if \<not> bs_running s then Returns (handled_error message_type (broker_error_u8 NoActiveStream))
      else case client_get client_id s of
             None \<Rightarrow> Fails
           | Some client \<Rightarrow>
               (case cs_endpoint client of
                  None \<Rightarrow> Returns (handled_error message_type (broker_error_u8 NotAttached))
                | Some endpoint \<Rightarrow>
                    if \<not> cs_quiet client then Returns (handled_error message_type (broker_error_u8 NotQuiet))
                    else case history_recent (unat requested) (bs_history s) of
                           None \<Rightarrow> Panics
                         | Some None \<Rightarrow> Returns (handled_error message_type (broker_error_u8 InsufficientHistory))
                         | Some (Some packets) \<Rightarrow>
                             Returns \<lparr>hd_response_type = message_type, hd_payload = u32_to_le requested,
                               hd_datagrams = map (\<lambda>packet. (packet, endpoint)) packets, hd_reboot_generation = None\<rparr>))"

definition get_recent :: "u64 \<Rightarrow> u8 \<Rightarrow> bytes \<Rightarrow> Handled answer task" where
  "get_recent client_id message_type payload =
     (if length payload \<noteq> 4 then refuse message_type (error_code_u8 BadLength)
      else
        let requested = u32_from_le (payload ! 0) (payload ! 1) (payload ! 2) (payload ! 3)
        in if requested = 0 then refuse message_type (error_code_u8 BadValue)
           else section_of (\<lambda>e a. (a, get_recent_section client_id message_type requested (ap_state a))))"

text \<open>The ownership check before a table request, and what its response does to the ownership.\<close>

definition table_check :: "u64 \<Rightarrow> nat \<Rightarrow> SharedState \<Rightarrow> SharedState \<times> bool" where
  "table_check client_id now s =
     (let s1 = expire_table_owner now s
      in (s1, case bs_table_owner s1 of None \<Rightarrow> False | Some owner \<Rightarrow> to_client_id owner \<noteq> client_id))"

definition table_settle :: "u64 \<Rightarrow> u8 \<Rightarrow> UpstreamResponse \<Rightarrow> nat \<Rightarrow> SharedState \<Rightarrow> SharedState" where
  "table_settle client_id message_type response now s =
     (if message_type = msg_type_u8 SetBlock \<and> ur_type response = message_type
      then s\<lparr>bs_table_owner := Some \<lparr>to_client_id = client_id, to_touched = now\<rparr>\<rparr>
      else if message_type = msg_type_u8 Commit
      then (if ur_type response = msg_type_u8 MsgError \<and> get_at (ur_payload response) 0 = Some (error_code_u8 Busy)
            then s\<lparr>bs_table_owner := map_option (\<lambda>owner. owner\<lparr>to_touched := now\<rparr>) (bs_table_owner s)\<rparr>
            else s\<lparr>bs_table_owner := None\<rparr>)
      else s)"

definition table_request :: "u64 \<Rightarrow> u8 \<Rightarrow> bytes \<Rightarrow> Handled answer task" where
  "table_request client_id message_type payload =
     and_await (section_of (\<lambda>e. with_state (table_check client_id (en_now e)))) (\<lambda>taken.
       if taken then refuse message_type (error_code_u8 Busy)
       else and_try (request message_type payload) (\<lambda>response.
            and_await (section_of (\<lambda>e. with_state (\<lambda>s. (table_settle client_id message_type response (en_now e) s, ())))) (\<lambda>_.
              Done (Returns (handled_response response)))))"

definition handle_broker_info :: "u64 \<Rightarrow> bytes \<Rightarrow> Handled answer task" where
  "handle_broker_info client_id payload =
     (if payload \<noteq> [] then refuse BROKER_INFO (error_code_u8 BadLength)
      else and_try (broker_info client_id) (\<lambda>info.
        case broker_info_encode info (replicate (INFO_HEADER_LEN + unat (bi_n_sources info)) 0) of
          Inl _ \<Rightarrow> Done Fails
        | Inr (encoded, _) \<Rightarrow>
            Done (Returns \<lparr>hd_response_type = BROKER_INFO, hd_payload = encoded, hd_datagrams = [], hd_reboot_generation = None\<rparr>)))"

definition handle_request :: "nat \<Rightarrow> u64 \<Rightarrow> u32 \<Rightarrow> u8 \<Rightarrow> bytes \<Rightarrow> Handled answer task" where
  "handle_request t client_id peer_ip message_type payload =
     (if message_type = BROKER_INFO then handle_broker_info client_id payload
      else if message_type = QUIET_STREAM_START then start_client t client_id peer_ip payload True
      else if message_type = SET_CLIENT_QUIET then set_quiet client_id message_type payload
      else if message_type = GET_RECENT then get_recent client_id message_type payload
      else if message_type = msg_type_u8 StreamSetup then broker_stream_setup t payload
      else if message_type = msg_type_u8 StreamStart then start_client t client_id peer_ip payload False
      else if message_type = msg_type_u8 StreamStop then broker_stream_stop t payload
      else if message_type = msg_type_u8 SetBlock \<or> message_type = msg_type_u8 Commit
      then table_request client_id message_type payload
      else if message_type = msg_type_u8 SetPar then set_parameter payload
      else and_try (request message_type payload) (\<lambda>response. Done (Returns (handled_response response))))"

subsection \<open>The tasks of the broker\<close>

text \<open>What a client connection meets next: a frame, a failed read, or a change of the epoch.\<close>

datatype ClientInput = InFrame u8 u8 bytes | InError | InEpoch

text \<open>The loop of \<open>serve_client\<close> over what arrives; the result says whether the connection ended.\<close>

primrec serve_loop :: "nat \<Rightarrow> u64 \<Rightarrow> u32 \<Rightarrow> u64 \<Rightarrow> ClientInput list \<Rightarrow> bool task" where
  "serve_loop t client_id peer_ip starting_epoch [] = Done False"
| "serve_loop t client_id peer_ip starting_epoch (input # inputs) =
     (case input of
        InError \<Rightarrow> Done True
      | InEpoch \<Rightarrow>
          and_await (section_of (\<lambda>e a. (a, ap_epoch a \<noteq> starting_epoch))) (\<lambda>changed.
            if changed then Done True else serve_loop t client_id peer_ip starting_epoch inputs)
      | InFrame message_type sequence payload \<Rightarrow>
          and_await (handle_request t client_id peer_ip message_type payload) (\<lambda>r.
            case r of
              Returns handled \<Rightarrow>
                and_await (section_of (\<lambda>e a. (a, en_tcp_ok e
                    \<and> write_frame (hd_response_type handled) sequence (hd_payload handled) \<noteq> Fails))) (\<lambda>written.
                  if \<not> written then Done True
                  else and_await (for_each send_datagram (hd_datagrams handled)) (\<lambda>_.
                    case hd_reboot_generation handled of
                      None \<Rightarrow> serve_loop t client_id peer_ip starting_epoch inputs
                    | Some generation \<Rightarrow> and_await (complete_mcu_reboot generation) (\<lambda>_. Done True)))
            | _ \<Rightarrow> Done True))"

definition serve_client :: "nat \<Rightarrow> u32 \<Rightarrow> ClientInput list \<Rightarrow> unit task" where
  "serve_client t peer_ip inputs =
     and_await register_client (\<lambda>client_id.
     and_await (section_of (\<lambda>e a. (a, ap_epoch a))) (\<lambda>starting_epoch.
     and_await (serve_loop t client_id peer_ip starting_epoch inputs) (\<lambda>ended.
       if ended then unregister_client client_id else Done ())))"

text \<open>\<open>run\<close> accepts a connection only while the MCU is connected; otherwise it is dropped.\<close>

definition accept_connection :: "nat \<Rightarrow> u32 \<Rightarrow> ClientInput list \<Rightarrow> unit task" where
  "accept_connection t peer_ip inputs =
     and_await (section_of (\<lambda>e a. (a, upstream_ready a))) (\<lambda>ready. if ready then serve_client t peer_ip inputs else Done ())"

definition install_upstream :: "UpstreamControl \<times> DeviceMetadata \<Rightarrow> unit task" where
  "install_upstream c =
     and_await (section_of (\<lambda>e a. (a\<lparr>ap_metadata := Some (snd c)\<rparr>, ()))) (\<lambda>_.
       section_of (\<lambda>e a. (a\<lparr>ap_upstream := Some (fst c)\<rparr>, ())))"

definition connect_section :: "Env \<Rightarrow> App \<Rightarrow> App \<times> (UpstreamControl \<times> DeviceMetadata) option" where
  "connect_section e a =
     (case en_connect e of
        None \<Rightarrow> (a, None)
      | Some (peer_ip, udp_port) \<Rightarrow>
          (case connect_upstream (net_of e) (en_beacon e) (ap_next_generation a) peer_ip udp_port (ap_mcu_frames a) of
             (frames, u, r) \<Rightarrow>
               (a\<lparr>ap_next_generation := ap_next_generation a + 1, ap_mcu_frames := frames\<rparr>,
                case r of Returns metadata \<Rightarrow> Some (u, metadata) | _ \<Rightarrow> None)))"

text \<open>\<open>n\<close> passes of \<open>reconnect_loop\<close>: wait while connected, then connect, on failure after a delay.\<close>

primrec reconnect_loop :: "nat \<Rightarrow> unit task" where
  "reconnect_loop 0 = Done ()"
| "reconnect_loop (Suc n) =
     and_await (wait_until (\<lambda>a. \<not> upstream_ready a) (\<lambda>a. a)) (\<lambda>_.
     and_await (section_of connect_section) (\<lambda>r.
     and_await (case r of None \<Rightarrow> Done () | Some c \<Rightarrow> install_upstream c) (\<lambda>_. reconnect_loop n)))"

text \<open>What the upstream UDP socket or the epoch gives next to \<open>upstream_udp_loop\<close>.\<close>

datatype UdpInput = FromPeer bytes | FromOther | UdpError | UdpEpoch

primrec upstream_udp_loop :: "nat \<Rightarrow> u64 \<Rightarrow> u64 \<Rightarrow> UdpInput list \<Rightarrow> unit task" where
  "upstream_udp_loop t generation starting_epoch [] = Done ()"
| "upstream_udp_loop t generation starting_epoch (input # inputs) =
     (case input of
        FromPeer wire \<Rightarrow>
          and_await (process_packet t wire) (\<lambda>r.
            if r = Returns () then upstream_udp_loop t generation starting_epoch inputs
            else section_of (\<lambda>e a. (a\<lparr>ap_fatal := True\<rparr>, ())))
      | FromOther \<Rightarrow> upstream_udp_loop t generation starting_epoch inputs
      | UdpError \<Rightarrow> mark_upstream_failed generation
      | UdpEpoch \<Rightarrow>
          and_await (section_of (\<lambda>e a. (a, ap_epoch a \<noteq> starting_epoch))) (\<lambda>changed.
            if changed then Done () else upstream_udp_loop t generation starting_epoch inputs))"

primrec heartbeat_loop :: "nat \<Rightarrow> unit task" where
  "heartbeat_loop 0 = Done ()"
| "heartbeat_loop (Suc n) =
     and_await (section_of (\<lambda>e a. (a, upstream_ready a))) (\<lambda>ready.
     and_await (if ready then and_await (request (msg_type_u8 Status) []) (\<lambda>_. Done ()) else Done ()) (\<lambda>_. heartbeat_loop n))"

definition storage_failure_monitor :: "unit task" where
  "storage_failure_monitor = section_of (\<lambda>e a. (a\<lparr>ap_fatal := True\<rparr>, ()))"

text \<open>\<open>discovery_server\<close>: the answer to one datagram, if it gets one.\<close>

definition discovery_answer :: "bytes \<Rightarrow> App \<Rightarrow> bytes option" where
  "discovery_answer datagram a =
     (if datagram \<noteq> REQUEST then None
      else case ap_metadata a of
             None \<Rightarrow> None
           | Some metadata \<Rightarrow>
               Some (beacon_encode
                 \<lparr>br_version = VERSION, br_control_port = cf_control_port (ap_config a), br_mac = dm_mac metadata,
                  br_experiment = fixed_identity (dm_experiment metadata),
                  br_firmware = fixed_identity (as_bytes ''helic-broker 0.3'')\<rparr> (replicate RESPONSE_LEN 0)))"

definition app_initial :: "Config \<Rightarrow> App" where
  "app_initial config =
     \<lparr>ap_config = config, ap_upstream = None, ap_metadata = None, ap_state = shared_default, ap_stream_operations = None,
      ap_storage = map_option (\<lambda>_. []) (cf_output_dir config), ap_epoch = 0, ap_next_generation = 1, ap_next_client = 1,
      ap_fatal = False, ap_mcu_frames = [], ap_mcu_datagrams = [], ap_datagrams = []\<rparr>"

end
