(* ===== verification/Broker_Safety.thy ===== *)
theory Broker_Safety
  imports Broker_Server
begin

text \<open>
  What holds of the broker's shared state in every interleaving of its tasks, and the behaviour of its
  operations.
\<close>

subsection \<open>The invariant\<close>

definition configuration_ok :: "StreamConfiguration \<Rightarrow> bool" where
  "configuration_ok c \<longleftrightarrow> sc_sources c \<noteq> [] \<and> length (sc_sources c) \<le> MAX_SOURCES \<and> sc_decimation c \<noteq> 0"

definition layout_matches :: "StreamConfiguration \<Rightarrow> Packet \<Rightarrow> bool" where
  "layout_matches c p \<longleftrightarrow> unat (sh_n_sources (pk_header p)) = length (sc_sources c) \<and> sh_decimation (pk_header p) = sc_decimation c"

definition detached :: "ClientState \<Rightarrow> bool" where
  "detached c \<longleftrightarrow> cs_endpoint c = None \<and> \<not> cs_quiet c"

definition clients_ok :: "SharedState \<Rightarrow> bool" where
  "clients_ok s \<longleftrightarrow> distinct (map fst (bs_clients s))
     \<and> list_all (\<lambda>(_, c). cs_quiet c \<longrightarrow> cs_endpoint c \<noteq> None) (bs_clients s)
     \<and> (\<not> bs_running s \<longrightarrow> list_all (\<lambda>(_, c). detached c) (bs_clients s))"

definition shared_ok :: "SharedState \<Rightarrow> bool" where
  "shared_ok s \<longleftrightarrow> history_ok (bs_history s) \<and> (\<not> bs_running s \<longrightarrow> hs_packets (bs_history s) = [])
     \<and> (case bs_configuration s of None \<Rightarrow> True
        | Some c \<Rightarrow> configuration_ok c \<and> list_all (layout_matches c) (hs_packets (bs_history s)))"

definition broker_ok :: "App \<Rightarrow> bool" where
  "broker_ok a \<longleftrightarrow> clients_ok (ap_state a) \<and> shared_ok (ap_state a)"

text \<open>
  What a task that holds \<open>stream_operations\<close> relies on: nobody else takes the lock from it, and a stream that
  is not running stays so.
\<close>

definition broker_rely :: "nat \<Rightarrow> App \<Rightarrow> App \<Rightarrow> bool" where
  "broker_rely t a a' \<longleftrightarrow> (ap_stream_operations a = Some t \<longrightarrow>
     ap_stream_operations a' = Some t \<and> (\<not> bs_running (ap_state a) \<longrightarrow> \<not> bs_running (ap_state a')))"

interpretation broker: task_system broker_ok broker_rely
  by unfold_locales (simp add: broker_rely_def)

definition locked :: "nat \<Rightarrow> App \<Rightarrow> bool" where "locked t a \<longleftrightarrow> ap_stream_operations a = Some t"
definition locked_idle :: "nat \<Rightarrow> App \<Rightarrow> bool" where "locked_idle t a \<longleftrightarrow> locked t a \<and> \<not> bs_running (ap_state a)"

text \<open>A section that leaves the lock alone and starts no stream.\<close>

definition calm :: "App \<Rightarrow> App \<Rightarrow> bool" where
  "calm a a' \<longleftrightarrow> ap_stream_operations a' = ap_stream_operations a \<and> (bs_running (ap_state a') \<longrightarrow> bs_running (ap_state a))"

lemma stable_assertions:
  "stable broker_rely t (\<lambda>_. True)" "stable broker_rely t (locked t)" "stable broker_rely t (locked_idle t)"
  by (auto simp: stable_def broker_rely_def locked_def locked_idle_def)

lemma calm_rely: "calm a a' \<Longrightarrow> broker_rely t a a'"
  by (auto simp: calm_def broker_rely_def)

lemma calm_guarantee: "calm a a' \<Longrightarrow> guarantee broker_rely t a a'"
  by (simp add: guarantee_def calm_rely)

lemma locked_guarantee:
  "locked t a \<Longrightarrow> guarantee broker_rely t a a'"
  by (auto simp: guarantee_def broker_rely_def locked_def)

abbreviation keeps :: "nat \<Rightarrow> (App \<Rightarrow> bool) \<Rightarrow> 'r task \<Rightarrow> bool" where
  "keeps t P p \<equiv> triple broker_ok broker_rely t P p (\<lambda>_. P)"

lemma keeps_section:
  assumes "stable broker_rely t P" "\<And>e a. broker_ok a \<Longrightarrow> broker_ok (fst (f e a)) \<and> calm a (fst (f e a))"
  shows "keeps t P (section_of f)"
proof (rule triple_section [OF assms(1)])
  fix e a assume "broker_ok a" "P a"
  with assms(2) [of a e] calm_rely calm_guarantee assms(1)
  show "broker_ok (fst (f e a)) \<and> guarantee broker_rely t a (fst (f e a)) \<and> P (fst (f e a))"
    unfolding stable_def by blast
qed

lemma keeps_read: "stable broker_rely t P \<Longrightarrow> keeps t P (section_of (\<lambda>e a. (a, g e a)))"
  by (rule keeps_section) (simp_all add: calm_def)

lemma keeps_Done: "keeps t P (Done r)"
  by (rule triple_Done)

lemma keeps_await: "keeps t P m \<Longrightarrow> (\<And>x. keeps t P (k x)) \<Longrightarrow> keeps t P (and_await m k)"
  by (rule triple_await)

lemma keeps_try: "keeps t P m \<Longrightarrow> (\<And>x. keeps t P (k x)) \<Longrightarrow> keeps t P (and_try m k)"
  unfolding and_try_def by (rule keeps_await) (auto split: answer.splits intro: keeps_Done)

lemmas keeps_intros = keeps_Done keeps_await keeps_try keeps_read triple_for_each

text \<open>A state section that keeps the two parts of the invariant.\<close>

definition state_calm :: "(SharedState \<Rightarrow> SharedState \<times> 'a) \<Rightarrow> bool" where
  "state_calm f \<longleftrightarrow> (\<forall>s. clients_ok s \<and> shared_ok s \<longrightarrow>
     clients_ok (fst (f s)) \<and> shared_ok (fst (f s)) \<and> (bs_running (fst (f s)) \<longrightarrow> bs_running s))"

lemma keeps_state:
  assumes "stable broker_rely t P" "\<And>e a. state_calm (g e a)"
  shows "keeps t P (section_of (\<lambda>e a. with_state (g e a) a))"
proof (rule keeps_section [OF assms(1)])
  fix e a assume "broker_ok a"
  with assms(2) [of e a] show "broker_ok (fst (with_state (g e a) a)) \<and> calm a (fst (with_state (g e a) a))"
    by (cases "g e a (ap_state a)") (simp add: with_state_def state_calm_def broker_ok_def calm_def, metis fst_conv)
qed

subsection \<open>The state sections\<close>

lemma clients_ok_cong: "bs_clients s' = bs_clients s \<Longrightarrow> bs_running s' = bs_running s \<Longrightarrow> clients_ok s' = clients_ok s"
  by (simp add: clients_ok_def)

lemma shared_ok_cong:
  "bs_history s' = bs_history s \<Longrightarrow> bs_running s' = bs_running s \<Longrightarrow> bs_configuration s' = bs_configuration s
   \<Longrightarrow> shared_ok s' = shared_ok s"
  by (simp add: shared_ok_def split: option.splits)

lemma clients_ok_simps [simp]:
  "clients_ok (s\<lparr>bs_table_owner := o'\<rparr>) = clients_ok s" "clients_ok (s\<lparr>bs_history := h\<rparr>) = clients_ok s"
  "clients_ok (s\<lparr>bs_configuration := c\<rparr>) = clients_ok s" "clients_ok (s\<lparr>bs_received_records := n\<rparr>) = clients_ok s"
  by (rule clients_ok_cong; simp)+

lemma shared_ok_simps [simp]:
  "shared_ok (s\<lparr>bs_table_owner := o'\<rparr>) = shared_ok s" "shared_ok (s\<lparr>bs_clients := cs\<rparr>) = shared_ok s"
  "shared_ok (s\<lparr>bs_received_records := n\<rparr>) = shared_ok s"
  by (rule shared_ok_cong; simp)+

lemma shared_ok_insert_remove [simp]:
  "shared_ok (client_insert k c s) = shared_ok s" "shared_ok (client_remove k s) = shared_ok s" "shared_ok (detach_all s) = shared_ok s"
  "bs_running (client_insert k c s) = bs_running s" "bs_running (client_remove k s) = bs_running s" "bs_running (detach_all s) = bs_running s"
  by (simp_all add: client_insert_def client_remove_def detach_all_def)

lemma clients_ok_detach: "clients_ok s \<Longrightarrow> clients_ok (detach_all (s\<lparr>bs_running := r\<rparr>))"
  by (simp add: clients_ok_def detach_all_def detached_def list_all_iff comp_def split_def)

lemma shared_ok_stopped:
  "shared_ok s \<Longrightarrow> shared_ok (s\<lparr>bs_running := False, bs_history := history_clear (bs_history s)\<rparr>)"
  by (simp add: shared_ok_def history_clear_def history_ok_def split: option.splits)

lemma shared_ok_unconfigured: "shared_ok s \<Longrightarrow> shared_ok (s\<lparr>bs_configuration := None\<rparr>)"
  by (simp add: shared_ok_def)

lemma stop_session_state:
  assumes "clients_ok s" "shared_ok s"
  shows "clients_ok (fst (stop_session s))" "shared_ok (fst (stop_session s))" "\<not> bs_running (fst (stop_session s))"
proof -
  let ?s = "s\<lparr>bs_running := False, bs_received_records := 0, bs_history := history_clear (bs_history s)\<rparr>"
  have "fst (stop_session s) = detach_all ?s" by (simp add: stop_session_def)
  moreover have "clients_ok (detach_all ?s)"
    using clients_ok_detach [OF assms(1), of False] clients_ok_cong [of "detach_all ?s" "detach_all (s\<lparr>bs_running := False\<rparr>)"]
    by (simp add: detach_all_def)
  moreover have "shared_ok ?s"
    using shared_ok_stopped [OF assms(2)] shared_ok_cong [of ?s "s\<lparr>bs_running := False, bs_history := history_clear (bs_history s)\<rparr>"] by simp
  ultimately show "clients_ok (fst (stop_session s))" "shared_ok (fst (stop_session s))" "\<not> bs_running (fst (stop_session s))"
    by simp_all
qed

lemma reset_session_stop:
  "fst (reset_session s) = (fst (stop_session s))\<lparr>bs_configuration := None, bs_table_owner := None\<rparr>"
  by (simp add: reset_session_def stop_session_def detach_all_def)

lemma stop_session_calm: "state_calm stop_session"
  by (simp add: state_calm_def stop_session_state)

lemma reset_session_calm: "state_calm reset_session"
  by (simp add: state_calm_def stop_session_state reset_session_stop shared_ok_unconfigured)

lemma complete_section_calm: "state_calm complete_section"
  by (simp add: state_calm_def complete_section_def stop_session_state)

lemma expire_simps [simp]:
  "bs_running (expire_table_owner now s) = bs_running s" "clients_ok (expire_table_owner now s) = clients_ok s"
  "shared_ok (expire_table_owner now s) = shared_ok s" "bs_clients (expire_table_owner now s) = bs_clients s"
  by (simp_all add: expire_table_owner_def split: option.splits)

lemma table_sections_calm:
  "state_calm (table_check client_id now)" "state_calm (\<lambda>s. (table_settle client_id ty response now s, ()))"
  "state_calm (broker_info_section config connected client_id now)"
  by (simp_all add: state_calm_def table_check_def table_settle_def broker_info_section_def Let_def)

lemma clients_ok_remove: "clients_ok s \<Longrightarrow> clients_ok (client_remove k s)"
  by (simp add: clients_ok_def client_remove_def list_all_iff distinct_map_filter)

lemma unregister_calm: "state_calm (unregister_section client_id)"
  by (simp add: state_calm_def unregister_section_def Let_def clients_ok_remove)

lemma client_insert_ok:
  assumes "clients_ok s" "cs_quiet c \<longrightarrow> cs_endpoint c \<noteq> None" "bs_running s \<or> detached c"
  shows "clients_ok (client_insert k c s)"
proof -
  have "set (AList.update k c xs) \<subseteq> insert (k, c) (set xs)" for xs :: "(u64 \<times> ClientState) list"
    by (induction xs) auto
  then have sub: "set (AList.update k c (bs_clients s)) \<subseteq> insert (k, c) (set (bs_clients s))" .
  have d: "distinct (map fst (AList.update k c (bs_clients s)))" using assms(1) by (simp add: clients_ok_def distinct_update)
  have "list_all Q (AList.update k c (bs_clients s))" if "list_all Q (bs_clients s)" "Q (k, c)" for Q
    using that sub by (auto simp: list_all_iff)
  from this [of "\<lambda>(_, c). cs_quiet c \<longrightarrow> cs_endpoint c \<noteq> None"] this [of "\<lambda>(_, c). detached c"]
  show ?thesis using assms d by (simp add: clients_ok_def client_insert_def) blast
qed

lemma attached_running:
  "clients_ok s \<Longrightarrow> client_get k s = Some c \<Longrightarrow> cs_endpoint c \<noteq> None \<Longrightarrow> bs_running s"
  by (auto simp: clients_ok_def client_get_def list_all_iff detached_def dest!: map_of_SomeD)

lemma set_quiet_calm: "state_calm (set_quiet_section client_id ty quiet)"
  unfolding state_calm_def set_quiet_section_def
  by (auto split: option.splits intro!: client_insert_ok intro: attached_running)

lemma attach_client_ok:
  assumes "attach_client client_id target quiet s = Some s'" "clients_ok s" "shared_ok s" "bs_running s"
  shows "clients_ok s'" "shared_ok s'" "bs_running s'"
  using assms by (auto simp: attach_client_def intro!: client_insert_ok)

lemma attach_if_running_calm: "state_calm (attach_if_running client_id target quiet)"
  unfolding state_calm_def attach_if_running_def
  by (auto split: option.splits dest: attach_client_ok)

lemma begin_session_ok:
  assumes "clients_ok s" "shared_ok s"
  shows "clients_ok (fst (begin_session capacity client_id target quiet s))"
    and "shared_ok (fst (begin_session capacity client_id target quiet s))"
proof -
  let ?s = "s\<lparr>bs_running := True, bs_received_records := 0, bs_history := history_reset capacity (bs_history s)\<rparr>"
  have "clients_ok ?s" using assms(1) by (simp add: clients_ok_def)
  moreover have "shared_ok ?s" using assms(2) by (simp add: shared_ok_def history_reset_def history_ok_def split: option.splits)
  ultimately show "clients_ok (fst (begin_session capacity client_id target quiet s))"
    "shared_ok (fst (begin_session capacity client_id target quiet s))"
    using attach_client_ok [of client_id target quiet ?s] by (auto simp: begin_session_def Let_def split: option.splits)
qed

lemma configuration_decode_ok: "stream_configuration_decode payload = Returns c \<Longrightarrow> configuration_ok c"
  by (auto simp: stream_configuration_decode_def configuration_ok_def Let_def split: if_splits)

lemma shared_ok_configured:
  "shared_ok s \<Longrightarrow> \<not> bs_running s \<Longrightarrow> configuration_ok c \<Longrightarrow> shared_ok (s\<lparr>bs_configuration := Some c\<rparr>)"
  by (simp add: shared_ok_def)

subsection \<open>The tasks keep the invariant\<close>

lemma storage_send_calm: "broker_ok a \<Longrightarrow> broker_ok (fst (storage_send c e a)) \<and> calm a (fst (storage_send c e a))"
  by (simp add: storage_send_def broker_ok_def calm_def split: option.splits)

lemma send_request_calm: "broker_ok a \<Longrightarrow> broker_ok (fst (send_request ty payload e a)) \<and> calm a (fst (send_request ty payload e a))"
  by (simp add: send_request_def broker_ok_def calm_def split: option.splits prod.splits)

text \<open>The interface of an assertion that survives what other tasks do: every task part that starts no stream keeps it.\<close>

locale broker_assertion =
  fixes t :: nat and P :: "App \<Rightarrow> bool"
  assumes st: "stable broker_rely t P"
begin

lemma keeps_storage: "keeps t P (start_recording m)" "keeps t P (stop_recording r)" "keeps t P shutdown_recording"
  unfolding start_recording_def stop_recording_def shutdown_recording_def
  by (rule keeps_section [OF st]; use storage_send_calm in simp)+

lemma keeps_stop_if: "keeps t P (stop_if b r)"
  by (auto simp: stop_if_def intro!: keeps_intros keeps_storage)

lemma keeps_small:
  "keeps t P (take_upstream g)" "keeps t P clear_metadata" "keeps t P advance_epoch" "keeps t P (send_datagram d)"
  unfolding take_upstream_def clear_metadata_def advance_epoch_def send_datagram_def
  by (rule keeps_section [OF st]; simp add: broker_ok_def calm_def)+

lemma keeps_state_sections:
  "keeps t P (section_of (\<lambda>e. with_state reset_session))" "keeps t P (section_of (\<lambda>e. with_state stop_session))"
  "keeps t P (section_of (\<lambda>e. with_state complete_section))"
  by (rule keeps_state [OF st]; rule reset_session_calm stop_session_calm complete_section_calm)+

lemma keeps_failure: "keeps t P (mark_upstream_failed g)" "keeps t P (complete_mcu_reboot g)" "keeps t P rollback_failed_start"
  unfolding mark_upstream_failed_def complete_mcu_reboot_def rollback_failed_start_def
  by (auto intro!: keeps_intros keeps_small keeps_stop_if keeps_state_sections)

lemma keeps_request: "keeps t P (request_with_generation ty payload)" "keeps t P (request ty payload)"
proof -
  show *: "keeps t P (request_with_generation ty payload)"
    unfolding request_with_generation_def
    by (rule keeps_await)
      (auto intro!: keeps_section [OF st] send_request_calm keeps_intros keeps_failure split: option.splits answer.splits)
  show "keeps t P (request ty payload)"
    unfolding request_def by (auto intro!: keeps_try * keeps_Done)
qed

lemma keeps_disarm: "keeps t P force_upstream_disconnect" "keeps t P disarm_mcu"
proof -
  show *: "keeps t P force_upstream_disconnect"
    unfolding force_upstream_disconnect_def
    by (auto intro!: keeps_intros st keeps_failure split: option.splits)
  show "keeps t P disarm_mcu"
    unfolding disarm_mcu_def
    by (auto intro!: keeps_intros st keeps_request * split: option.splits answer.splits)
qed

end

interpretation free: broker_assertion t "\<lambda>_. True" for t
  by unfold_locales (rule stable_assertions)

interpretation holding: broker_assertion t "locked t" for t
  by unfold_locales (rule stable_assertions)

interpretation idle: broker_assertion t "locked_idle t" for t
  by unfold_locales (rule stable_assertions)

abbreviation safe :: "nat \<Rightarrow> 'r task \<Rightarrow> bool" where
  "safe t p \<equiv> keeps t (\<lambda>_. True) p"

lemma safe_with_operations:
  assumes "triple broker_ok broker_rely t (locked t) body (\<lambda>_. locked t)"
  shows "safe t (with_operations t body)"
  unfolding with_operations_def
proof (rule triple_await)
  show "triple broker_ok broker_rely t (\<lambda>_. True) (lock_operations t) (\<lambda>_. locked t)"
    unfolding lock_operations_def
    by (rule triple_wait [OF stable_assertions(1)]) (auto simp: broker_ok_def locked_def guarantee_def broker_rely_def)
  have "triple broker_ok broker_rely t (locked t) unlock_operations (\<lambda>_ _. True)"
    unfolding unlock_operations_def
    by (rule triple_section [OF stable_assertions(2)]) (auto simp: broker_ok_def intro: locked_guarantee)
  then show "triple broker_ok broker_rely t (locked t)
      (and_await body (\<lambda>r. and_await unlock_operations (\<lambda>_. Done r))) (\<lambda>_ _. True)"
    by (intro triple_await [OF assms] triple_await [of _ _ _ _ unlock_operations "\<lambda>_ _. True"]) (auto intro: triple_Done)
qed

lemma safe_stream_setup: "safe t (broker_stream_setup t payload)"
proof -
  have put: "keeps t (locked_idle t) (section_of (\<lambda>e. with_state (\<lambda>s. (s\<lparr>bs_configuration := Some c\<rparr>, ()))))"
    if "configuration_ok c" for c
    by (rule triple_section [OF stable_assertions(3)])
      (use that in \<open>auto simp: with_state_def broker_ok_def locked_idle_def shared_ok_configured locked_def [of t] intro: locked_guarantee [unfolded locked_def]\<close>)
  have up: "keeps t (locked_idle t) (setup_upstream payload c)" if "configuration_ok c" for c
    unfolding setup_upstream_def
    by (auto intro!: keeps_intros stable_assertions idle.keeps_request put that)
  show ?thesis
    unfolding broker_stream_setup_def
  proof (rule safe_with_operations, rule triple_await)
    show "triple broker_ok broker_rely t (locked t) (section_of (\<lambda>e a. (a, bs_running (ap_state a))))
        (\<lambda>running a. locked t a \<and> (\<not> running \<longrightarrow> locked_idle t a))"
      by (rule broker.triple_read [OF stable_assertions(2)]) (simp add: locked_idle_def)
    show "triple broker_ok broker_rely t (\<lambda>a. locked t a \<and> (\<not> running \<longrightarrow> locked_idle t a))
       (if running then refuse (msg_type_u8 StreamSetup) (error_code_u8 Busy)
        else case stream_configuration_decode payload of
               Returns configuration \<Rightarrow> setup_upstream payload configuration
             | _ \<Rightarrow> refuse (msg_type_u8 StreamSetup) (error_code_u8 BadValue)) (\<lambda>_. locked t)" for running
    proof (cases "running \<or> (\<forall>c. stream_configuration_decode payload \<noteq> Returns c)")
      case True
      then show ?thesis by (auto intro: triple_Done split: answer.splits)
    next
      case False
      then obtain c where c: "stream_configuration_decode payload = Returns c" "\<not> running" by auto
      have "triple broker_ok broker_rely t (\<lambda>a. locked t a \<and> (\<not> running \<longrightarrow> locked_idle t a)) (setup_upstream payload c) (\<lambda>_. locked t)"
        by (rule triple_post [OF triple_strengthen [OF up [OF configuration_decode_ok [OF c(1)]]]])
          (use c(2) in \<open>auto simp: locked_idle_def\<close>)
      then show ?thesis using c by simp
    qed
  qed
qed

lemma safe_start_client: "safe t (start_client t client_id peer_ip payload quiet)"
proof -
  have begin': "keeps t (locked t) (section_of (\<lambda>e a. with_state (begin_session (cap a) client_id target quiet) a))" for cap target quiet
    by (rule triple_section [OF stable_assertions(2)])
      (auto simp: with_state_def split_def broker_ok_def locked_def begin_session_ok intro: locked_guarantee [unfolded locked_def])
  have prime: "keeps t (locked t) prime_and_start"
    unfolding prime_and_start_def
    by (auto intro!: keeps_intros stable_assertions holding.keeps_request keeps_section simp: broker_ok_def calm_def)
  have start: "keeps t (locked t) (start_stream client_id target quiet ty)" for target quiet ty
    unfolding start_stream_def
    by (auto intro!: keeps_intros stable_assertions begin' prime holding.keeps_storage holding.keeps_failure split: option.splits answer.splits)
  have attach: "keeps t (locked t) (section_of (\<lambda>e. with_state (attach_if_running client_id target quiet)))" for target quiet
    by (rule keeps_state [OF stable_assertions(2) attach_if_running_calm])
  show ?thesis
    unfolding start_client_def Let_def
    by (auto intro!: keeps_intros safe_with_operations attach start)
qed

lemma safe_stream_stop: "safe t (broker_stream_stop t payload)"
  unfolding broker_stream_stop_def
  by (auto intro!: keeps_intros safe_with_operations holding.keeps_request holding.keeps_state_sections holding.keeps_storage)

lemma safe_state: "(\<And>e a. state_calm (g e a)) \<Longrightarrow> safe t (section_of (\<lambda>e a. with_state (g e a) a))"
  by (rule keeps_state [OF stable_assertions(1)])

lemma safe_table_request: "safe t (table_request client_id ty payload)"
  unfolding table_request_def
  by (auto intro!: keeps_intros safe_state table_sections_calm free.keeps_request)

lemma safe_client_requests:
  "safe t (set_quiet client_id ty payload)" "safe t (get_recent client_id ty payload)" "safe t (set_parameter payload)"
  "safe t (handle_broker_info client_id payload)"
  unfolding set_quiet_def get_recent_def set_parameter_def handle_broker_info_def broker_info_def Let_def
  by (auto intro!: keeps_intros stable_assertions safe_state set_quiet_calm table_sections_calm free.keeps_request split: sum.splits)

lemma safe_handle_request: "safe t (handle_request t client_id peer_ip ty payload)"
  unfolding handle_request_def
  by (auto intro!: keeps_intros safe_client_requests safe_table_request safe_stream_stop safe_start_client safe_stream_setup
      free.keeps_request)

lemma safe_serve_loop: "safe t (serve_loop t client_id peer_ip ep inputs)"
  by (induction inputs)
    (auto intro!: keeps_intros stable_assertions safe_handle_request free.keeps_small free.keeps_failure
      split: ClientInput.splits answer.splits option.splits)

lemma clients_ok_register: "clients_ok s \<Longrightarrow> clients_ok (client_insert k client_default s)"
  by (rule client_insert_ok) (simp_all add: client_default_def detached_def)

lemma safe_serve_client: "safe t (serve_client t peer_ip inputs)" "safe t (accept_connection t peer_ip inputs)"
proof -
  have r: "safe t register_client"
    unfolding register_client_def
    by (auto intro!: keeps_intros stable_assertions keeps_section safe_state simp: broker_ok_def calm_def state_calm_def clients_ok_register)
  have u: "safe t (unregister_client k)" for k
    unfolding unregister_client_def
    by (auto intro!: keeps_intros safe_state unregister_calm free.keeps_disarm)
  show s: "safe t (serve_client t peer_ip inputs)"
    unfolding serve_client_def by (auto intro!: keeps_intros stable_assertions r u safe_serve_loop)
  show "safe t (accept_connection t peer_ip inputs)"
    unfolding accept_connection_def by (auto intro!: keeps_intros stable_assertions s)
qed

lemma shared_ok_push:
  assumes "shared_ok s" "bs_running s" "bs_configuration s = Some c" "layout_matches c p" "packet_ok p"
    "history_push p (bs_history s) = Some h"
  shows "shared_ok (s\<lparr>bs_history := h, bs_received_records := n\<rparr>)"
proof -
  let ?h = "bs_history s"
  have h: "history_ok ?h" "configuration_ok c" "list_all (layout_matches c) (hs_packets ?h)"
    using assms(1,3) by (simp_all add: shared_ok_def)
  have "hs_records ?h + packet_records p = sum_list (map packet_records (hs_packets ?h @ [p]))"
    using h(1) by (simp add: history_ok_def)
  from evict_spec [OF this, of "hs_capacity_records ?h"] obtain old kept where e: "hs_packets ?h @ [p] = old @ kept"
    "evict (hs_capacity_records ?h) (hs_packets ?h @ [p]) (hs_records ?h + packet_records p) = Some (kept, sum_list (map packet_records kept))"
    by blast
  have "list_all packet_ok (hs_packets ?h @ [p])" "list_all (layout_matches c) (hs_packets ?h @ [p])"
    using h assms(4,5) by (simp_all add: history_ok_def)
  then have "list_all packet_ok kept" "list_all (layout_matches c) kept" by (simp_all add: e(1))
  moreover have "hs_packets h = kept" "hs_records h = sum_list (map packet_records kept)"
    using assms(6) e(2) by (auto simp: history_push_def)
  ultimately show ?thesis using assms(2,3) h(2) by (simp add: shared_ok_def history_ok_def)
qed

lemma accept_packet_calm:
  assumes "broker_ok a" "packet_ok packet"
  shows "broker_ok (fst (accept_packet packet e a)) \<and> calm a (fst (accept_packet packet e a))"
proof (cases "bs_configuration (ap_state a)")
  case None
  then show ?thesis using assms(1) by (simp add: accept_packet_def calm_def)
next
  case (Some c)
  let ?s = "ap_state a"
  have st: "ap_state (fst (record_packet packet e a)) = ?s" "ap_stream_operations (fst (record_packet packet e a)) = ap_stream_operations a"
    by (simp_all add: record_packet_def storage_send_def split: option.splits)
  have push: "shared_ok (?s\<lparr>bs_history := h, bs_received_records := n\<rparr>)"
    if "bs_running ?s" "layout_matches c packet" "history_push packet (bs_history ?s) = Some h" for h n
    using shared_ok_push [OF _ that(1) Some that(2) assms(2) that(3)] assms(1) by (simp add: broker_ok_def)
  show ?thesis
    using assms(1) st push Some
    by (cases "record_packet packet e a")
      (auto simp: accept_packet_def Let_def broker_ok_def calm_def layout_matches_def split: answer.splits option.splits)
qed

lemma safe_process_packet: "safe t (process_packet t wire)"
proof -
  have accept: "safe t (section_of (accept_packet p))" if "packet_ok p" for p
    by (rule keeps_section [OF stable_assertions(1)]) (rule accept_packet_calm [OF _ that])
  have complete: "safe t (complete_stream t)"
    unfolding complete_stream_def
    by (auto intro!: keeps_intros safe_with_operations holding.keeps_state_sections holding.keeps_storage)
  show ?thesis
    unfolding process_packet_def
  proof (rule triple_await)
    show "triple broker_ok broker_rely t (\<lambda>_. True) (section_of (\<lambda>e a. (a, packet_decode wire (en_utc_ns e))))
       (\<lambda>decoded a. (\<forall>p. decoded = Some p \<longrightarrow> packet_ok p) \<and> True)"
      by (rule broker.triple_read [OF stable_assertions(1)]) (auto dest: packet_decode_ok)
  qed (rule triple_pure, auto intro!: keeps_intros accept complete free.keeps_small split: option.splits)
qed

lemma safe_background:
  "safe t (reconnect_loop n)" "safe t (upstream_udp_loop t g ep inputs)" "safe t (heartbeat_loop n)"
  "safe t storage_failure_monitor" "safe t broker_shutdown"
proof -
  have s: "safe t (section_of f)" if "\<And>e a. ap_state (fst (f e a)) = ap_state a \<and> ap_stream_operations (fst (f e a)) = ap_stream_operations a"
    for f :: "Env \<Rightarrow> App \<Rightarrow> App \<times> 'x"
    by (rule keeps_section [OF stable_assertions(1)]) (simp add: that broker_ok_def calm_def)
  have connect: "safe t (section_of connect_section)"
    by (rule s) (simp add: connect_section_def split: option.splits prod.splits)
  have install: "safe t (install_upstream c)" for c
    unfolding install_upstream_def by (auto intro!: keeps_intros s)
  have wait: "safe t (wait_until r (\<lambda>a. a))" for r
    by (rule triple_wait [OF stable_assertions(1)]) (simp add: calm_guarantee calm_def)
  show "safe t (reconnect_loop n)"
    by (induction n) (auto intro!: keeps_intros wait connect install split: option.splits)
  show "safe t (upstream_udp_loop t g ep inputs)"
    by (induction inputs)
      (auto intro!: keeps_intros stable_assertions s safe_process_packet free.keeps_failure split: UdpInput.splits)
  show "safe t (heartbeat_loop n)"
    by (induction n) (auto intro!: keeps_intros stable_assertions free.keeps_request)
  show "safe t storage_failure_monitor" "safe t broker_shutdown"
    unfolding storage_failure_monitor_def broker_shutdown_def
    by (auto intro!: keeps_intros stable_assertions s free.keeps_request free.keeps_storage free.keeps_disarm)
qed

subsection \<open>Every interleaving\<close>

text \<open>What \<open>run\<close> spawns: client connections, the reconnection and heartbeat loops, the receivers of stream packets, the monitor and the shutdown.\<close>

inductive broker_task :: "nat \<Rightarrow> unit task \<Rightarrow> bool" where
  "broker_task t (accept_connection t peer_ip inputs)"
| "broker_task t (reconnect_loop n)"
| "broker_task t (upstream_udp_loop t generation starting_epoch datagrams)"
| "broker_task t (heartbeat_loop n)"
| "broker_task t storage_failure_monitor"
| "broker_task t broker_shutdown"

lemma broker_task_safe: "broker_task t p \<Longrightarrow> safe t p"
  by (induction rule: broker_task.induct) (rule safe_serve_client safe_background)+

lemma app_initial_ok: "broker_ok (app_initial config)"
  by (simp add: app_initial_def broker_ok_def clients_ok_def shared_ok_def shared_default_def history_default_def history_ok_def)

text \<open>
  C3: however the broker's tasks interleave at their await points, with any number of clients sending any
  requests and any behaviour of the MCU, the storage worker and the sockets, the shared state stays consistent: client
  identifiers are unique; a client is quiet only while attached and attached only while the stream runs; the
  history counts its records, holds only valid packets and none when the stream is stopped; a
  configuration is valid, and every packet of the history has its layout.
\<close>

theorem broker_invariant:
  assumes "\<forall>i < length tasks. broker_task i (tasks ! i)" "interleave\<^sup>*\<^sup>* (app_initial config, tasks) (a, tasks')"
  shows "broker_ok a"
proof (rule broker.invariant_in_every_interleaving [OF assms(2) app_initial_ok])
  show "\<forall>i < length tasks. broker.verified (app_initial config) i (tasks ! i)"
  proof (intro allI impI)
    fix i assume "i < length tasks"
    with assms(1) have "safe i (tasks ! i)" by (simp add: broker_task_safe)
    then show "broker.verified (app_initial config) i (tasks ! i)"
      unfolding broker.verified_def by (intro exI conjI) simp_all
  qed
qed

definition demo_config :: Config where
  "demo_config = \<lparr>cf_mcu_host = as_bytes ''device'', cf_output_dir = Some (as_bytes ''captures''), cf_mcu_control_port = CONTROL_PORT, cf_mcu_stream_port = STREAM_PORT,
     cf_mcu_discovery_port = DISCOVERY_PORT, cf_control_port = CONTROL_PORT, cf_stream_port = STREAM_PORT, cf_discovery_port = DISCOVERY_PORT,
     cf_history = \<lparr>du_secs = 10, du_nanos = 0\<rparr>, cf_segment_size = 2 ^ 30, cf_request_timeout = \<lparr>du_secs = 5, du_nanos = 0\<rparr>,
     cf_reconnect_delay = \<lparr>du_secs = 1, du_nanos = 0\<rparr>, cf_log_level = as_bytes ''info''\<rparr>"

definition idle_env :: Env where
  "idle_env = \<lparr>en_now = 0, en_utc_ns = 0, en_mcu = (\<lambda>_ _. None), en_storage_ok = True, en_udp_ok = True, en_tcp_ok = True,
     en_connect = None, en_beacon = None\<rparr>"

theorem broker_invariant_witness:
  "\<exists>a tasks'. interleave\<^sup>*\<^sup>* (app_initial demo_config, [heartbeat_loop 1, storage_failure_monitor]) (a, tasks')
     \<and> ap_fatal a \<and> broker_ok a"
proof -
  let ?a = "(app_initial demo_config)\<lparr>ap_fatal := True\<rparr>" and ?ts = "[heartbeat_loop 1, storage_failure_monitor]"
  have "interleave (app_initial demo_config, ?ts) (?a, ?ts[1 := Done ()])"
    by (rule interleave.intros [where f = "\<lambda>e a. Some (a\<lparr>ap_fatal := True\<rparr>, Done ())" and e = idle_env])
      (simp_all add: storage_failure_monitor_def section_of_def)
  then have r: "interleave\<^sup>*\<^sup>* (app_initial demo_config, ?ts) (?a, ?ts[1 := Done ()])" by blast
  have "broker_task i (?ts ! i)" if "i < 2" for i
  proof -
    have "i = 0 \<or> i = 1" using that by auto
    then show ?thesis by (auto simp del: heartbeat_loop.simps intro: broker_task.intros)
  qed
  then have "\<forall>i < length ?ts. broker_task i (?ts ! i)" by simp
  from broker_invariant [OF this r] r show ?thesis by (intro exI [of _ ?a]) auto
qed

subsection \<open>Stream packets\<close>

text \<open>The endpoints that should receive live packets.\<close>

definition live_endpoints :: "SharedState \<Rightarrow> SocketAddr set" where
  "live_endpoints s = {ep. \<exists>k c. client_get k s = Some c \<and> cs_endpoint c = Some ep \<and> \<not> cs_quiet c}"

lemma stream_targets_live:
  assumes "clients_ok s"
  shows "set (stream_targets s) = live_endpoints s"
proof -
  have d: "distinct (map fst (bs_clients s))" using assms by (simp add: clients_ok_def)
  have "ep \<in> set (stream_targets s) \<longleftrightarrow> (\<exists>k c. (k, c) \<in> set (bs_clients s) \<and> cs_endpoint c = Some ep \<and> \<not> cs_quiet c)" for ep
    by (force simp: stream_targets_def List.map_filter_def)
  then show ?thesis using d by (auto simp: live_endpoints_def client_get_def)
qed

lemma history_push_newest:
  assumes "history_ok h" "packet_ok p"
  shows "\<exists>h'. history_push p h = Some h' \<and> last (hs_packets h') = p \<and> hs_packets h' \<noteq> []"
proof -
  have "hs_records h + packet_records p = sum_list (map packet_records (hs_packets h @ [p]))"
    using assms(1) by (simp add: history_ok_def)
  from evict_spec [OF this, of "hs_capacity_records h"] obtain old kept where e: "hs_packets h @ [p] = old @ kept" "kept \<noteq> []"
    "evict (hs_capacity_records h) (hs_packets h @ [p]) (hs_records h + packet_records p) = Some (kept, sum_list (map packet_records kept))"
    by blast
  then have "last kept = p" by (metis last_appendR last_snoc)
  with e show ?thesis by (auto simp: history_push_def)
qed


text \<open>A running stream of one source with decimation 2 and two clients, one of them quiet.\<close>

definition demo_configuration :: StreamConfiguration where
  "demo_configuration = \<lparr>sc_decimation = 2, sc_count = 3, sc_sources = [0]\<rparr>"

definition running_state :: SharedState where
  "running_state = \<lparr>bs_configuration = Some demo_configuration, bs_running = True, bs_received_records = 0,
     bs_clients = [(1, \<lparr>cs_endpoint = Some (0x7F000001, 6000), cs_quiet = False\<rparr>),
                   (2, \<lparr>cs_endpoint = Some (0x7F000001, 6001), cs_quiet = True\<rparr>)],
     bs_history = history_reset 100 history_default, bs_table_owner = None\<rparr>"

definition running_app :: App where
  "running_app = (app_initial demo_config)\<lparr>ap_state := running_state, ap_upstream := Some fresh_upstream,
     ap_metadata := Some \<lparr>dm_sample_rate_hz = from_bits 0x45FA0000, dm_sources = [\<lparr>sm_name = as_bytes ''x'', sm_unit = as_bytes ''V''\<rparr>],
       dm_experiment = as_bytes ''rig'', dm_firmware = as_bytes ''fw'', dm_arm_index = Some 4, dm_mcu_reboot_index = Some 5,
       dm_mac = [2, 0, 0, 0, 0, 1]\<rparr>\<rparr>"

lemma running_app_ok: "broker_ok running_app"
  by (simp add: running_app_def running_state_def broker_ok_def clients_ok_def shared_ok_def history_reset_def history_default_def
      history_ok_def configuration_ok_def demo_configuration_def MAX_SOURCES_def)


subsection \<open>A task that is not interrupted\<close>

fun alone :: "Env list \<Rightarrow> App \<Rightarrow> 'r task \<Rightarrow> App \<times> 'r task" where
  "alone (e # es) a (Step f) = (case f e a of None \<Rightarrow> (a, Step f) | Some (a', p) \<Rightarrow> alone es a' p)"
| "alone es a p = (a, p)"

lemma alone_Done [simp]: "alone es a (Done r) = (a, Done r)"
  by (cases es) auto

lemma alone_section [simp]:
  "alone (e # es) a (and_await (section_of f) k) = (case f e a of (a', x) \<Rightarrow> alone es a' (k x))"
  by (simp add: section_of_def split: prod.splits)

lemma alone_last_section [simp]: "alone (e # es) a (section_of f) = (case f e a of (a', x) \<Rightarrow> (a', Done x))"
  by (simp add: section_of_def split: prod.splits)

lemma await_assoc: "and_await (and_await p f) g = and_await p (\<lambda>x. and_await (f x) g)"
proof (induction p)
  case (Step h)
  have "and_await (and_await q f) g = and_await q (\<lambda>x. and_await (f x) g)" if "h e s = Some (s', q)" for e s s' q
    using Step [of "h e" "Some (s', q)" "(s', q)" q] that by (metis rangeI snds.intros option.set_intros snd_conv)
  then have "map_option (map_prod id (\<lambda>p. and_await p g)) (map_option (map_prod id (\<lambda>p. and_await p f)) (h e s))
      = map_option (map_prod id (\<lambda>p. and_await p (\<lambda>x. and_await (f x) g))) (h e s)" for e s
    by (cases "h e s") auto
  then show ?case by simp
qed simp

lemma client_get_detach: "client_get k (detach_all s) = map_option (\<lambda>c. c\<lparr>cs_endpoint := None, cs_quiet := False\<rparr>) (client_get k s)"
  by (simp add: client_get_def detach_all_def map_of_map)

lemma reset_session_effect:
  "\<not> bs_running (fst (reset_session s))" "bs_configuration (fst (reset_session s)) = None" "bs_table_owner (fst (reset_session s)) = None"
  "hs_packets (bs_history (fst (reset_session s))) = []" "live_endpoints (fst (reset_session s)) = {}"
  "map fst (bs_clients (fst (reset_session s))) = map fst (bs_clients s)" "snd (reset_session s) = bs_running s"
proof -
  show "live_endpoints (fst (reset_session s)) = {}"
    using client_get_detach by (auto simp: live_endpoints_def reset_session_def client_get_def)
qed (simp_all add: reset_session_def detach_all_def history_clear_def comp_def split_def)

lemma alone_stop_if:
  "en_storage_ok e \<Longrightarrow> alone (e # es) a (and_await (stop_if b r) k) =
     (if b then alone es (a\<lparr>ap_storage := map_option (\<lambda>log. log @ [StStop r]) (ap_storage a)\<rparr>) (k ()) else alone (e # es) a (k ()))"
  by (cases a, cases "ap_storage a") (simp_all add: stop_if_def await_assoc stop_recording_def storage_send_def)

lemma alone_last_stop_if:
  "en_storage_ok e \<Longrightarrow> alone (e # es) a (stop_if b r) =
     (if b then a\<lparr>ap_storage := map_option (\<lambda>log. log @ [StStop r]) (ap_storage a)\<rparr> else a, Done ())"
  by (cases a, cases "ap_storage a") (simp_all add: stop_if_def stop_recording_def storage_send_def)

text \<open>What is left of the session once the upstream connection was retired.\<close>

definition retired :: "CloseReason \<Rightarrow> App \<Rightarrow> App \<Rightarrow> bool" where
  "retired reason a a' \<longleftrightarrow> ap_upstream a' = None \<and> ap_metadata a' = None \<and> ap_epoch a' = ap_epoch a + 1
     \<and> \<not> bs_running (ap_state a') \<and> bs_configuration (ap_state a') = None \<and> bs_table_owner (ap_state a') = None
     \<and> hs_packets (bs_history (ap_state a')) = [] \<and> live_endpoints (ap_state a') = {}
     \<and> map fst (bs_clients (ap_state a')) = map fst (bs_clients (ap_state a))
     \<and> ap_storage a' = map_option (\<lambda>log. log @ (if bs_running (ap_state a) then [StStop reason] else [])) (ap_storage a)"

lemma retiredI:
  assumes "ap_state a' = fst (reset_session (ap_state a))" "ap_upstream a' = None" "ap_metadata a' = None" "ap_epoch a' = ap_epoch a + 1"
    "ap_storage a' = (if bs_running (ap_state a) then map_option (\<lambda>log. log @ [StStop reason]) (ap_storage a) else ap_storage a)"
  shows "retired reason a a'"
  using assms reset_session_effect [of "ap_state a"] by (simp add: retired_def option.map_ident)

lemma with_state_reset:
  "with_state reset_session b = (b\<lparr>ap_state := fst (reset_session (ap_state b))\<rparr>, bs_running (ap_state b))"
  by (simp add: with_state_def split_def reset_session_effect)



subsection \<open>The last client disarms the output\<close>

lemma upstream_request_no_panic: "snd (snd (upstream_request net ty payload m u)) \<noteq> Panics"
  by (simp add: upstream_request_def Let_def split: sum.splits prod.splits option.splits)

lemma alone_request:
  "alone (e # es) a (and_await (request ty payload) k) =
     (case send_request ty payload e a of
        (a1, None) \<Rightarrow> alone es a1 (k Fails)
      | (a1, Some (g, Returns r)) \<Rightarrow> alone es a1 (k (Returns r))
      | (a1, Some (g, Fails)) \<Rightarrow> alone es a1 (and_await (mark_upstream_failed g) (\<lambda>_. k Fails))
      | (a1, Some (g, Panics)) \<Rightarrow> alone es a1 (k Panics))"
  by (simp add: request_def request_with_generation_def and_try_def await_assoc split: prod.splits option.splits answer.splits)

lemma send_request_connected:
  assumes "ap_upstream a = Some u" "length payload \<le> MAX_PAYLOAD"
  shows "\<exists>a1 r. send_request ty payload e a = (a1, Some (uc_generation u, r)) \<and> r \<noteq> Panics
    \<and> ap_mcu_frames a1 = ap_mcu_frames a @ [frame_bytes ty (uc_sequence u + 1) payload]
    \<and> current_generation a1 = Some (uc_generation u) \<and> ap_state a1 = ap_state a \<and> ap_metadata a1 = ap_metadata a
    \<and> ap_storage a1 = ap_storage a"
proof -
  obtain frames u' r where q: "upstream_request (net_of e) ty payload (ap_mcu_frames a) u = (frames, u', r)" by (metis prod_cases3)
  have "frames = ap_mcu_frames a @ [frame_bytes ty (uc_sequence u + 1) payload]" "uc_generation u' = uc_generation u"
    using q encode_exact [OF assms(2)]
    by (auto simp: upstream_request_def Let_def net_of_def split: option.splits prod.splits)
  moreover have "r \<noteq> Panics" using q upstream_request_no_panic [of "net_of e" ty payload "ap_mcu_frames a" u] by simp
  ultimately show ?thesis using q assms(1) by (auto simp: send_request_def current_generation_def)
qed

definition acknowledged :: "u8 \<Rightarrow> bytes \<Rightarrow> Env \<Rightarrow> App \<Rightarrow> bool" where
  "acknowledged ty payload e a \<longleftrightarrow>
     (case snd (send_request ty payload e a) of Some (_, Returns r) \<Rightarrow> ur_type r = ty | _ \<Rightarrow> False)"

lemma alone_retire:
  assumes "length es = 5" "\<forall>e \<in> set es. en_storage_ok e"
  shows "\<exists>a1. alone (es @ es') a (mark_upstream_failed g) = (a1, Done ())
    \<and> ap_mcu_frames a1 = ap_mcu_frames a \<and> map fst (bs_clients (ap_state a1)) = map fst (bs_clients (ap_state a))
    \<and> (current_generation a = Some g \<longrightarrow> ap_upstream a1 = None)"
proof -
  from assms(1) obtain e1 e2 e3 e4 e5 where es: "es = [e1, e2, e3, e4, e5]"
    by (auto simp: length_Suc_conv numeral_eq_Suc)
  show ?thesis using assms(2)
    by (simp add: es mark_upstream_failed_def take_upstream_def with_state_reset alone_stop_if clear_metadata_def advance_epoch_def
        reset_session_effect)
qed

lemma send_request_state: "snd (send_request ty payload e (a\<lparr>ap_state := s\<rparr>)) = snd (send_request ty payload e a)"
  by (simp add: send_request_def split: option.splits prod.splits)

lemma alone_then_Done: "alone es a p = (a', Done r) \<Longrightarrow> alone es a (and_await p (\<lambda>_. Done x)) = (a', Done x)"
  by (induction es a p rule: alone.induct) (auto split: option.splits prod.splits)

text \<open>
  C16: when the last client disconnects and the MCU has an \<open>arm\<close> parameter, the broker sends exactly one
  request, the write of zero to that parameter, and no client is registered any more. Unless the MCU
  acknowledges the write the broker drops the connection, upon which the firmware disarms by itself.
\<close>

theorem last_client_disarms:
  assumes "map fst (bs_clients (ap_state a)) = [k]" "ap_upstream a = Some u" "Option.bind (ap_metadata a) dm_arm_index = Some i"
    "length es = 9" "\<forall>e \<in> set es. en_storage_ok e"
  shows "\<exists>a'. alone es a (unregister_client k) = (a', Done ()) \<and> bs_clients (ap_state a') = []
    \<and> ap_mcu_frames a' = ap_mcu_frames a @ [frame_bytes (msg_type_u8 SetPar) (uc_sequence u + 1) (u16_to_le i @ [0, 0, 0, 0])]
    \<and> (ap_upstream a' = None \<or> acknowledged (msg_type_u8 SetPar) (disarm_request i) (es ! 2) a)"
proof -
  from assms(4) obtain e1 e2 e3 es' where es: "es = e1 # e2 # e3 # es'" "length es' = 6"
    by (auto simp: length_Suc_conv numeral_eq_Suc)
  obtain c where cl: "bs_clients (ap_state a) = [(k, c)]" using assms(1) by auto
  define s where "s = fst (unregister_section k (ap_state a))"
  have u: "unregister_section k (ap_state a) = (s, True)" "bs_clients s = []"
    using cl by (simp_all add: s_def unregister_section_def client_remove_def Let_def)
  let ?b = "a\<lparr>ap_state := s\<rparr>" and ?ty = "msg_type_u8 SetPar" and ?pl = "disarm_request i"
  have len: "length ?pl \<le> MAX_PAYLOAD" by (simp add: disarm_request_def MAX_PAYLOAD_def)
  obtain a1 r where q: "send_request ?ty ?pl e3 ?b = (a1, Some (uc_generation u, r))" "r \<noteq> Panics"
    "ap_mcu_frames a1 = ap_mcu_frames a @ [frame_bytes ?ty (uc_sequence u + 1) ?pl]"
    "current_generation a1 = Some (uc_generation u)" "ap_state a1 = s"
    using send_request_connected [of ?b u ?pl ?ty e3] assms(2) len by auto
  have pl: "?pl = u16_to_le i @ [0, 0, 0, 0]" by (simp add: disarm_request_def u32_to_le_def)
  let ?done = "\<lambda>a'. bs_clients (ap_state a') = [] \<and> ap_mcu_frames a' = ap_mcu_frames a @ [frame_bytes ?ty (uc_sequence u + 1) ?pl]
    \<and> (ap_upstream a' = None \<or> acknowledged ?ty ?pl e3 a)"
  have start: "alone es a (unregister_client k) = (case r of
      Returns resp \<Rightarrow> alone es' a1 (if ur_type resp = ?ty then Done () else force_upstream_disconnect)
    | _ \<Rightarrow> alone es' a1 (and_await (mark_upstream_failed (uc_generation u)) (\<lambda>_. Done ())))"
    using q(1,2) u(1) assms(3)
    by (simp add: es unregister_client_def with_state_def disarm_mcu_def alone_request split: answer.splits)
  obtain e4 es5 where e4: "es' = e4 # es5" "length es5 = 5" using es(2) by (cases es') auto
  have ok: "\<forall>e \<in> set (take 5 es'). en_storage_ok e" "\<forall>e \<in> set es5. en_storage_ok e" "length (take 5 es') = 5"
    using assms(5) es e4 by (auto dest: in_set_takeD)
  obtain a2 where a2: "alone es' a1 (mark_upstream_failed (uc_generation u)) = (a2, Done ())" "?done a2"
    using alone_retire [OF ok(3,1), of "drop 5 es'" a1 "uc_generation u"] q u(2) by auto
  obtain a3 where a3: "alone es5 a1 (mark_upstream_failed (uc_generation u)) = (a3, Done ())" "?done a3"
    using alone_retire [OF e4(2) ok(2), of "[]" a1 "uc_generation u"] q u(2) by auto
  have "\<exists>a'. alone es a (unregister_client k) = (a', Done ()) \<and> ?done a'"
  proof (cases r)
    case (Returns resp)
    show ?thesis
    proof (cases "ur_type resp = ?ty")
      case True
      have "snd (send_request ?ty ?pl e3 a) = Some (uc_generation u, Returns resp)"
        using q(1) Returns send_request_state [of ?ty ?pl e3 s a] by simp
      then have "acknowledged ?ty ?pl e3 a" using True by (simp add: acknowledged_def)
      then show ?thesis using start Returns True q(3,5) u(2) by simp
    next
      case False
      then show ?thesis using start Returns a3 q(4) by (simp add: e4(1) force_upstream_disconnect_def)
    qed
  next
    case Fails
    then show ?thesis using start alone_then_Done [OF a2(1), of "()"] a2(2) by simp
  qed (use q(2) in simp)
  then show ?thesis by (simp add: es(1) pl)
qed

theorem last_client_disarms_witness:
  "\<exists>a'. alone (replicate 9 idle_env) (running_app\<lparr>ap_state := running_state\<lparr>bs_clients := [(1, client_default)]\<rparr>\<rparr>) (unregister_client 1) = (a', Done ())
     \<and> ap_mcu_frames a' = [frame_bytes 4 1 [4, 0, 0, 0, 0, 0]]"
proof -
  let ?a = "running_app\<lparr>ap_state := running_state\<lparr>bs_clients := [(1, client_default)]\<rparr>\<rparr>"
  have "map fst (bs_clients (ap_state ?a)) = [1]" "ap_upstream ?a = Some fresh_upstream" "Option.bind (ap_metadata ?a) dm_arm_index = Some 4"
    "length (replicate 9 idle_env) = 9" "\<forall>e \<in> set (replicate 9 idle_env). en_storage_ok e" "ap_mcu_frames ?a = []" "uc_sequence fresh_upstream = 0"
    by (simp_all add: running_app_def idle_env_def app_initial_def fresh_upstream_def)
  from last_client_disarms [OF this(1-5)] this(6,7) show ?thesis by (auto simp: u16_to_le_def)
qed

subsection \<open>Table transactions\<close>



text \<open>
  The check and the taking of the lease are separate sections. Between them another client's request passes the
  same check, and both uploads reach the MCU.
\<close>

definition table_rest :: "u64 \<Rightarrow> u8 \<Rightarrow> (u64 \<times> UpstreamResponse answer) option \<Rightarrow> Handled answer task" where
  "table_rest client_id ty sent =
     (case sent of
        Some (g, Returns r) \<Rightarrow>
          and_await (section_of (\<lambda>e. with_state (\<lambda>s. (table_settle client_id ty r (en_now e) s, ())))) (\<lambda>_. Done (Returns (handled_response r)))
      | Some (g, Fails) \<Rightarrow> and_await (mark_upstream_failed g) (\<lambda>_. Done Fails)
      | Some (g, Panics) \<Rightarrow> Done Panics
      | None \<Rightarrow> Done Fails)"

lemma table_request_sections:
  "table_request client_id ty payload =
     and_await (section_of (\<lambda>e. with_state (table_check client_id (en_now e)))) (\<lambda>taken.
       if taken then refuse ty (error_code_u8 Busy)
       else and_await (section_of (send_request ty payload)) (table_rest client_id ty))"
proof -
  have "and_try (request ty payload) (\<lambda>r. and_await (section_of (\<lambda>e. with_state (\<lambda>s. (table_settle client_id ty r (en_now e) s, ()))))
        (\<lambda>_. Done (Returns (handled_response r))))
      = and_await (section_of (send_request ty payload)) (table_rest client_id ty)"
    unfolding and_try_def request_def request_with_generation_def await_assoc
    by (rule arg_cong [of _ _ "and_await _"]) (auto simp: table_rest_def await_assoc fun_eq_iff split: option.splits answer.splits)
  then show ?thesis by (simp add: table_request_def cong: if_cong)
qed

definition echo_env :: Env where
  "echo_env = idle_env\<lparr>en_mcu := \<lambda>_ bs. Some (frame_bytes (bs ! 2) (bs ! 3) [])\<rparr>"

lemma send_request_echo:
  assumes "ap_upstream a = Some u" "uc_unread u = []" "length payload \<le> MAX_PAYLOAD"
  shows "send_request ty payload echo_env a =
    (a\<lparr>ap_upstream := Some (u\<lparr>uc_sequence := uc_sequence u + 1\<rparr>),
       ap_mcu_frames := ap_mcu_frames a @ [frame_bytes ty (uc_sequence u + 1) payload]\<rparr>,
     Some (uc_generation u, Returns \<lparr>ur_type = ty, ur_payload = []\<rparr>))"
proof -
  let ?f = "frame_bytes ty (uc_sequence u + 1) payload"
  have f: "?f ! 2 = ty" "?f ! 3 = uc_sequence u + 1" by (simp_all add: frame_bytes_def frame_body_def u16_to_le_def)
  have "net_of echo_env (ap_mcu_frames a) ?f = (ap_mcu_frames a @ [?f], Some (frame_bytes ty (uc_sequence u + 1) []))"
    by (simp add: net_of_def echo_env_def f)
  moreover have "decode (frame_bytes ty (uc_sequence u + 1) []) = Inr (ty, uc_sequence u + 1, [])"
    by (rule decode_frame_bytes) (simp add: MAX_PAYLOAD_def)
  ultimately have "upstream_request (net_of echo_env) ty payload (ap_mcu_frames a) u =
      (ap_mcu_frames a @ [?f], u\<lparr>uc_sequence := uc_sequence u + 1\<rparr>, Returns \<lparr>ur_type = ty, ur_payload = []\<rparr>)"
    using upstream_request_ok [OF assms(3,2), where net = "net_of echo_env" and m = "ap_mcu_frames a"] by blast
  then show ?thesis using assms(1) by (simp add: send_request_def)
qed

lemma interleave_section:
  assumes "i < length ps" "ps ! i = and_await (section_of f) k" "f e s = (s', x)"
  shows "interleave (s, ps) (s', ps[i := k x])"
  by (rule interleave.intros [OF assms(1), where f = "\<lambda>e s. map_option (map_prod id (\<lambda>p. and_await p k)) (case f e s of (s', x) \<Rightarrow> Some (s', Done x))" and e = e])
    (use assms in \<open>simp_all add: section_of_def\<close>)

lemma table_steps:
  assumes "i < length ps"
  shows "ps ! i = table_request c ty pl \<Longrightarrow> with_state (table_check c (en_now e)) a = (a, False) \<Longrightarrow>
      interleave (a, ps) (a, ps[i := and_await (section_of (send_request ty pl)) (table_rest c ty)])"
    and "ps ! i = and_await (section_of (send_request ty pl)) (table_rest c ty) \<Longrightarrow> send_request ty pl e a = (a', Some (g, Returns r)) \<Longrightarrow>
      interleave (a, ps) (a', ps[i := table_rest c ty (Some (g, Returns r))])"
    and "ps ! i = table_rest c ty (Some (g, Returns r)) \<Longrightarrow>
      with_state (\<lambda>s. (table_settle c ty r (en_now e) s, ())) a = (a', ()) \<Longrightarrow>
      interleave (a, ps) (a', ps[i := Done (Returns (handled_response r))])"
  using interleave_section [OF assms, where f = "\<lambda>e. with_state (table_check c (en_now e))" and e = e and s = a and s' = a and x = False
      and k = "\<lambda>taken. if taken then refuse ty (error_code_u8 Busy) else and_await (section_of (send_request ty pl)) (table_rest c ty)"]
    interleave_section [OF assms, where f = "send_request ty pl" and e = e and s = a and s' = a' and k = "table_rest c ty"]
    interleave_section [OF assms, where f = "\<lambda>e. with_state (\<lambda>s. (table_settle c ty r (en_now e) s, ()))" and e = e and s = a and s' = a'
      and k = "\<lambda>_. Done (Returns (handled_response r))"]
  by (simp_all add: table_request_sections table_rest_def)


end
