(* ===== verification/Fw_Identity.thy ===== *)
theory Fw_Identity
  imports Broker_Discovery
begin

text \<open>
  The identity of a firmware image and its announcement on the network: the build-script helpers of
  \<open>firmware/build/src/lib.rs\<close> that compute the identity, and the discovery responder of
  \<open>firmware/support/src/comms/beacon.rs\<close>. What git prints, the files of the build machine and the socket are parameters. The
  directives printed for Cargo and the linker script are not modelled.
\<close>

subsection \<open>Build identity\<close>

definition FIRMWARE_ID_LEN :: nat where "FIRMWARE_ID_LEN = 16"

text \<open>\<open>None\<close> is the panic of the assertion.\<close>

definition format_firmware_id :: "bytes \<Rightarrow> (bytes \<times> bool) option \<Rightarrow> bytes option" where
  "format_firmware_id version revision =
     (let rev_text = (case revision of Some (hash, False) \<Rightarrow> hash | Some (hash, True) \<Rightarrow> hash @ as_bytes ''+'' | None \<Rightarrow> as_bytes ''?'');
          firmware_id = version @ as_bytes '' '' @ rev_text
      in if length firmware_id \<le> FIRMWARE_ID_LEN then Some firmware_id else None)"

text \<open>\<open>str::trim\<close>: the encodings of the characters with the Unicode property \<open>White_Space\<close>.\<close>

definition WHITE_SPACE :: "bytes list" where
  "WHITE_SPACE = [[9], [10], [11], [12], [13], [32], [0xC2, 0x85], [0xC2, 0xA0], [0xE1, 0x9A, 0x80]]
     @ map (\<lambda>b. [0xE2, 0x80, b]) [0x80, 0x81, 0x82, 0x83, 0x84, 0x85, 0x86, 0x87, 0x88, 0x89, 0x8A, 0xA8, 0xA9, 0xAF]
     @ [[0xE2, 0x81, 0x9F], [0xE3, 0x80, 0x80]]"

definition starts_with :: "bytes \<Rightarrow> bytes \<Rightarrow> bool" where
  "starts_with bs w \<longleftrightarrow> w \<noteq> [] \<and> take (length w) bs = w"

function strip_from :: "bytes list \<Rightarrow> bytes \<Rightarrow> bytes" where
  "strip_from ws bs = (case find (starts_with bs) ws of None \<Rightarrow> bs | Some w \<Rightarrow> strip_from ws (drop (length w) bs))"
  by pat_completeness auto
termination
  by (relation "measure (\<lambda>(_, bs). length bs)") (auto simp: find_Some_iff starts_with_def intro!: diff_less)

declare strip_from.simps [simp del]

definition trim :: "bytes \<Rightarrow> bytes" where
  "trim bs = rev (strip_from (map rev WHITE_SPACE) (rev (strip_from WHITE_SPACE bs)))"

text \<open>\<open>git repo args\<close> is the standard output of a git command that ran and succeeded.\<close>

type_synonym 'p git_runner = "'p \<Rightarrow> bytes list \<Rightarrow> bytes option"

definition git_bytes :: "'p git_runner \<Rightarrow> 'p option \<Rightarrow> bytes list \<Rightarrow> bytes option" where
  "git_bytes git repo args = Option.bind repo (\<lambda>r. git r args)"

definition git_output :: "'p git_runner \<Rightarrow> 'p option \<Rightarrow> bytes list \<Rightarrow> bytes option" where
  "git_output git repo args = (case git_bytes git repo args of None \<Rightarrow> None | Some out \<Rightarrow> if utf8_valid out then Some (trim out) else None)"

definition git_value :: "'p git_runner \<Rightarrow> 'p option \<Rightarrow> bytes list \<Rightarrow> bytes" where
  "git_value git repo args = (case git_output git repo args of None \<Rightarrow> as_bytes ''unknown'' | Some v \<Rightarrow> if v = [] then as_bytes ''unknown'' else v)"

definition hash_args :: "bytes list" where "hash_args = map as_bytes [''rev-parse'', ''--short=7'', ''HEAD'']"
definition status_args :: "bytes list" where
  "status_args = map as_bytes [''--no-optional-locks'', ''status'', ''--porcelain'', ''--untracked-files=no'']"

definition wire_revision :: "'p git_runner \<Rightarrow> 'p option \<Rightarrow> (bytes \<times> bool) option" where
  "wire_revision git repo =
     (case git_output git repo hash_args of
        None \<Rightarrow> None
      | Some hash \<Rightarrow> if hash = [] then None else map_option (\<lambda>status. (hash, status \<noteq> [])) (git_output git repo status_args))"

text \<open>A path is the list of its components below the root.\<close>

definition git_root :: "(bytes list \<Rightarrow> bool) \<Rightarrow> bytes list \<Rightarrow> bytes list option" where
  "git_root exists start = find (\<lambda>candidate. exists (candidate @ [as_bytes ''.git''])) (map (\<lambda>n. take n start) (rev [0..<Suc (length start)]))"

text \<open>The two values that \<open>emit_identity\<close> prints. \<open>None\<close> is a missing environment variable or an identity that is too long.\<close>

definition emit_identity :: "(bytes list) git_runner \<Rightarrow> (bytes list \<Rightarrow> bool) \<Rightarrow> bytes list option \<Rightarrow> bytes option \<Rightarrow> (bytes \<times> bytes) option" where
  "emit_identity git exists manifest version =
     Option.bind manifest (\<lambda>m.
       let repo = git_root exists m; describe = git_value git repo (map as_bytes [''describe'', ''--always'', ''--dirty''])
       in Option.bind version (\<lambda>v. map_option (\<lambda>ident. (describe, ident)) (format_firmware_id v (wire_revision git repo))))"

subsection \<open>The discovery responder\<close>

text \<open>Datagrams in, datagrams out; an error of \<open>recv_from\<close> is \<open>None\<close>. A send is attempted whatever became of the ones before.\<close>

fun beacon_loop :: "bytes \<Rightarrow> (bytes \<times> 'peer) option list \<Rightarrow> ('peer \<times> bytes) list" where
  "beacon_loop encoded [] = []"
| "beacon_loop encoded (None # rest) = beacon_loop encoded rest"
| "beacon_loop encoded (Some (request, peer) # rest) = (if request = REQUEST then [(peer, encoded)] else []) @ beacon_loop encoded rest"

definition beacon_task :: "bytes \<Rightarrow> bytes \<Rightarrow> bytes \<Rightarrow> (bytes \<times> 'peer) option list \<Rightarrow> ('peer \<times> bytes) list" where
  "beacon_task mac experiment firmware received = beacon_loop (beacon_encode (beacon_new mac experiment firmware) (replicate RESPONSE_LEN 0)) received"

subsection \<open>Discovery conveys the identity\<close>

lemma beacon_loop_replies: "beacon_loop encoded received = map (\<lambda>(_, peer). (peer, encoded)) (filter (\<lambda>(request, _). request = REQUEST) (List.map_filter id received))"
  by (induction encoded received rule: beacon_loop.induct) (auto simp: List.map_filter_def)

lemma fixed_string_whole: "length v \<le> 16 \<Longrightarrow> fixed_string v = v @ replicate (16 - length v) 0"
  by (simp add: fixed_string_def copy_at_def Let_def)

lemma firmware_id_fits: "format_firmware_id version revision = Some ident \<Longrightarrow> length ident \<le> 16"
  by (auto simp: format_firmware_id_def FIRMWARE_ID_LEN_def Let_def split: if_splits)

text \<open>
  The image never claims a clean commit that git did not report: a revision without the dirty mark was printed by git for
  \<open>HEAD\<close>, and git reported no change of a tracked file.
\<close>

lemma clean_identity_is_reported:
  assumes "emit_identity git exists (Some m) (Some version) = Some (describe, version @ as_bytes '' '' @ hash)"
    and "hash \<noteq> as_bytes ''?''" "hash = [] \<or> last hash \<noteq> of_char CHR ''+''"
  shows "\<exists>repo out. git_root exists m = Some repo \<and> git repo hash_args = Some out \<and> trim out = hash \<and> hash \<noteq> []
    \<and> (\<exists>status. git repo status_args = Some status \<and> trim status = [])"
  using assms
  by (auto simp: emit_identity_def format_firmware_id_def wire_revision_def git_output_def git_bytes_def as_bytes_def Let_def
      split: option.splits if_splits bool.splits bind_splits prod.splits)

text \<open>
  Every discovery request is answered once, in order, to its sender, and nothing else is; and the answer carries the whole
  identity of the image: its sixteen bytes are the identity and padding, since no image with a longer one can be built.
\<close>

lemma discovery_conveys_identity:
  assumes "emit_identity git exists manifest version = Some (describe, ident)" "length mac = 6"
  shows "\<exists>reply r. beacon_task mac experiment ident received
       = map (\<lambda>(_, peer). (peer, reply)) (filter (\<lambda>(request, _). request = REQUEST) (List.map_filter id received))
    \<and> beacon_decode reply = Inr r \<and> br_mac r = mac \<and> br_control_port r = CONTROL_PORT \<and> br_firmware r = ident @ replicate (16 - length ident) 0"
proof -
  let ?b = "beacon_new mac experiment ident"
  have l: "length ident \<le> 16" using assms(1) firmware_id_fits by (auto simp: emit_identity_def Let_def split: bind_splits)
  have v: "beacon_valid ?b" using assms(2) by (simp add: beacon_new_def fixed_string_def Let_def)
  have "beacon_encode ?b (replicate RESPONSE_LEN 0) = beacon_bytes ?b" by (rule beacon_encode_bytes [OF _ v]) simp
  then show ?thesis using beacon_decode_bytes [OF v] fixed_string_whole [OF l]
    by (intro exI [of _ "beacon_bytes ?b"] exI [of _ ?b]) (simp add: beacon_task_def beacon_loop_replies beacon_new_def)
qed

end
