(* ===== verification/Rt_Mem.thy ===== *)
theory Rt_Mem
  imports Prelude
begin

text \<open>
  The memory helpers of \<open>firmware/rt/src/rt_mem.rs\<close>, which the compiler calls implicitly from the hot loop: copies and
  clears of storage at any alignment. Memory is a function from addresses to bytes. A word access at an address that is
  not a multiple of four is undefined behaviour in the source; here it is the value \<open>None\<close>. A pointer stays inside
  its region, or one past it, so addresses are natural numbers.
\<close>

type_synonym memory = "nat \<Rightarrow> u8"

text \<open>\<open>align_of::<u32>() - 1\<close>.\<close>

definition ALIGN_MASK :: nat where "ALIGN_MASK = 3"

definition read_word :: "memory \<Rightarrow> nat \<Rightarrow> u32 option" where
  "read_word m a = (if a AND ALIGN_MASK = 0 then Some (u32_from_le (m a) (m (a + 1)) (m (a + 2)) (m (a + 3))) else None)"

definition write_word :: "memory \<Rightarrow> nat \<Rightarrow> u32 \<Rightarrow> memory option" where
  "write_word m a v =
     (if a AND ALIGN_MASK = 0
      then Some (m(a := ucast v, a + 1 := ucast (drop_bit 8 v), a + 2 := ucast (drop_bit 16 v), a + 3 := ucast (drop_bit 24 v)))
      else None)"

text \<open>A loop that copies bytes while its condition holds, and the loop that copies words.\<close>

fun copy_bytes :: "(nat \<Rightarrow> nat \<Rightarrow> bool) \<Rightarrow> nat \<Rightarrow> nat \<Rightarrow> nat \<Rightarrow> memory \<Rightarrow> nat \<times> nat \<times> nat \<times> memory" where
  "copy_bytes cond destination source 0 m = (destination, source, 0, m)"
| "copy_bytes cond destination source (Suc len) m =
     (if cond destination source then copy_bytes cond (destination + 1) (source + 1) len (m(destination := m source))
      else (destination, source, Suc len, m))"

function copy_words :: "nat \<Rightarrow> nat \<Rightarrow> nat \<Rightarrow> memory \<Rightarrow> (nat \<times> nat \<times> nat \<times> memory) option" where
  "copy_words destination source len m =
     (if len < 4 then Some (destination, source, len, m)
      else case read_word m source of
             None \<Rightarrow> None
           | Some v \<Rightarrow>
               (case write_word m destination v of
                  None \<Rightarrow> None
                | Some m' \<Rightarrow> copy_words (destination + 4) (source + 4) (len - 4) m'))"
  by auto
termination by (relation "measure (\<lambda>(d, s, n, m). n)") auto

declare copy_words.simps [simp del]

definition aeabi_memcpy :: "nat \<Rightarrow> nat \<Rightarrow> nat \<Rightarrow> memory \<Rightarrow> memory option" where
  "aeabi_memcpy destination source len m =
     (let (d1, s1, n1, m1) = copy_bytes (\<lambda>d s. d AND ALIGN_MASK \<noteq> s AND ALIGN_MASK) destination source len m;
          (d2, s2, n2, m2) = copy_bytes (\<lambda>d s. d AND ALIGN_MASK \<noteq> 0) d1 s1 n1 m1
      in case copy_words d2 s2 n2 m2 of
           None \<Rightarrow> None
         | Some (d3, s3, n3, m3) \<Rightarrow> (let (_, _, _, m4) = copy_bytes (\<lambda>_ _. True) d3 s3 n3 m3 in Some m4))"

definition aeabi_memcpy4 :: "nat \<Rightarrow> nat \<Rightarrow> nat \<Rightarrow> memory \<Rightarrow> memory option" where
  "aeabi_memcpy4 destination source len m =
     (case copy_words destination source len m of
        None \<Rightarrow> None
      | Some (d1, s1, n1, m1) \<Rightarrow> (let (_, _, _, m2) = copy_bytes (\<lambda>_ _. True) d1 s1 n1 m1 in Some m2))"

definition aeabi_memcpy8 :: "nat \<Rightarrow> nat \<Rightarrow> nat \<Rightarrow> memory \<Rightarrow> memory option" where
  "aeabi_memcpy8 destination source len m = aeabi_memcpy4 destination source len m"

fun clear_bytes :: "(nat \<Rightarrow> bool) \<Rightarrow> nat \<Rightarrow> nat \<Rightarrow> memory \<Rightarrow> nat \<times> nat \<times> memory" where
  "clear_bytes cond destination 0 m = (destination, 0, m)"
| "clear_bytes cond destination (Suc len) m =
     (if cond destination then clear_bytes cond (destination + 1) len (m(destination := 0)) else (destination, Suc len, m))"

function clear_words :: "nat \<Rightarrow> nat \<Rightarrow> memory \<Rightarrow> (nat \<times> nat \<times> memory) option" where
  "clear_words destination len m =
     (if len < 4 then Some (destination, len, m)
      else case write_word m destination 0 of None \<Rightarrow> None | Some m' \<Rightarrow> clear_words (destination + 4) (len - 4) m')"
  by auto
termination by (relation "measure (\<lambda>(d, n, m). n)") auto

declare clear_words.simps [simp del]

definition aeabi_memclr :: "nat \<Rightarrow> nat \<Rightarrow> memory \<Rightarrow> memory option" where
  "aeabi_memclr destination len m =
     (let (d1, n1, m1) = clear_bytes (\<lambda>d. d AND ALIGN_MASK \<noteq> 0) destination len m
      in case clear_words d1 n1 m1 of
           None \<Rightarrow> None
         | Some (d2, n2, m2) \<Rightarrow> (let (_, _, m3) = clear_bytes (\<lambda>_. True) d2 n2 m2 in Some m3))"

definition aeabi_memclr4 :: "nat \<Rightarrow> nat \<Rightarrow> memory \<Rightarrow> memory option" where
  "aeabi_memclr4 destination len m =
     (case clear_words destination len m of
        None \<Rightarrow> None
      | Some (d1, n1, m1) \<Rightarrow> (let (_, _, m2) = clear_bytes (\<lambda>_. True) d1 n1 m1 in Some m2))"

definition aeabi_memclr8 :: "nat \<Rightarrow> nat \<Rightarrow> memory \<Rightarrow> memory option" where
  "aeabi_memclr8 destination len m = aeabi_memclr4 destination len m"

subsection \<open>What they are for\<close>

definition copied :: "nat \<Rightarrow> nat \<Rightarrow> nat \<Rightarrow> memory \<Rightarrow> memory" where
  "copied d s n m = (\<lambda>a. if d \<le> a \<and> a < d + n then m (s + (a - d)) else m a)"

definition cleared :: "nat \<Rightarrow> nat \<Rightarrow> memory \<Rightarrow> memory" where
  "cleared d n m = (\<lambda>a. if d \<le> a \<and> a < d + n then 0 else m a)"

definition disjoint_regions :: "nat \<Rightarrow> nat \<Rightarrow> nat \<Rightarrow> bool" where
  "disjoint_regions d s n \<longleftrightarrow> d + n \<le> s \<or> s + n \<le> d"

lemma and_align: "a AND ALIGN_MASK = a mod 4"
  using take_bit_eq_mask [of 2 a] by (simp add: ALIGN_MASK_def take_bit_eq_mod mask_eq_exp_minus_1)

lemma copied_0 [simp]: "copied d s 0 m = m" and cleared_0 [simp]: "cleared d 0 m = m"
  by (rule ext, auto simp: copied_def cleared_def)+

lemma copied_append:
  "disjoint_regions d s (k + n) \<Longrightarrow> copied (d + k) (s + k) n (copied d s k m) = copied d s (k + n) m"
  by (rule ext) (auto simp: copied_def disjoint_regions_def)

lemma cleared_append: "cleared (d + k) n (cleared d k m) = cleared d (k + n) m"
  by (rule ext) (auto simp: cleared_def)

lemma copied_word:
  assumes "d mod 4 = 0" "s mod 4 = 0" "disjoint_regions d s 4"
  shows "(case read_word m s of None \<Rightarrow> None | Some v \<Rightarrow> write_word m d v) = Some (copied d s 4 m)"
proof -
  have cs: "d \<le> x \<and> x < d + 4 \<longleftrightarrow> x = d \<or> x = d + 1 \<or> x = d + 2 \<or> x = d + 3" for x by linarith
  then have "m(d := m s, d + 1 := m (s + 1), d + 2 := m (s + 2), d + 3 := m (s + 3)) = copied d s 4 m"
    by (intro ext) (auto simp: copied_def cs)
  then show ?thesis
    using assms u32_to_le_from_le [of "m s" "m (s + 1)" "m (s + 2)" "m (s + 3)"]
    by (simp add: read_word_def write_word_def and_align u32_to_le_def)
qed

lemma cleared_word: "d mod 4 = 0 \<Longrightarrow> write_word m d 0 = Some (cleared d 4 m)"
proof -
  have cs: "d \<le> x \<and> x < d + 4 \<longleftrightarrow> x = d \<or> x = d + 1 \<or> x = d + 2 \<or> x = d + 3" for x by linarith
  then have "m(d := 0, d + 1 := 0, d + 2 := 0, d + 3 := 0) = cleared d 4 m"
    by (intro ext) (auto simp: cleared_def cs)
  then show "d mod 4 = 0 \<Longrightarrow> write_word m d 0 = Some (cleared d 4 m)" by (simp add: write_word_def and_align)
qed

text \<open>Each loop copies or clears a first part of the region and stops where its condition fails.\<close>

lemma copy_bytes_spec:
  assumes "disjoint_regions d s n"
  shows "\<exists>k \<le> n. copy_bytes cond d s n m = (d + k, s + k, n - k, copied d s k m) \<and> (k < n \<longrightarrow> \<not> cond (d + k) (s + k))"
  using assms
proof (induction cond d s n m rule: copy_bytes.induct)
  case (2 cond d s n m)
  show ?case
  proof (cases "cond d s")
    case True
    have "disjoint_regions (d + 1) (s + 1) n" using 2(2) by (auto simp: disjoint_regions_def)
    from 2(1) [OF True this] obtain k where k: "k \<le> n" "copy_bytes cond (d + 1) (s + 1) n (m(d := m s))
      = (d + 1 + k, s + 1 + k, n - k, copied (d + 1) (s + 1) k (m(d := m s)))" "k < n \<longrightarrow> \<not> cond (d + 1 + k) (s + 1 + k)" by blast
    have "m(d := m s) = copied d s 1 m" by (rule ext) (auto simp: copied_def)
    moreover have "disjoint_regions d s (1 + k)" using 2(2) k(1) by (auto simp: disjoint_regions_def)
    ultimately have "copied (d + 1) (s + 1) k (m(d := m s)) = copied d s (Suc k) m" using copied_append [of d s 1 k m] by simp
    then show ?thesis using k True by (intro exI [of _ "Suc k"]) simp
  qed (intro exI [of _ 0], simp)
qed simp

lemma copy_words_spec:
  assumes "disjoint_regions d s n" "n < 4 \<or> d mod 4 = 0 \<and> s mod 4 = 0"
  shows "\<exists>k \<le> n. copy_words d s n m = Some (d + k, s + k, n - k, copied d s k m)"
  using assms
proof (induction d s n m rule: copy_words.induct)
  case (1 d s n m)
  show ?case
  proof (cases "n < 4")
    case True
    then show ?thesis by (intro exI [of _ 0]) (simp add: copy_words.simps)
  next
    case False
    then have a: "d mod 4 = 0" "s mod 4 = 0" "disjoint_regions d s 4" using 1(2,3) by (auto simp: disjoint_regions_def)
    then obtain v where v: "read_word m s = Some v" "write_word m d v = Some (copied d s 4 m)"
      using copied_word [OF a, of m] by (cases "read_word m s") simp_all
    have dis: "disjoint_regions (d + 4) (s + 4) (n - 4)" using 1(2) False unfolding disjoint_regions_def by linarith
    have "(d + 4) mod 4 = 0 \<and> (s + 4) mod 4 = 0" using a by simp
    from 1(1) [OF False v dis disjI2 [OF this]] obtain k where k: "k \<le> n - 4" "copy_words (d + 4) (s + 4) (n - 4) (copied d s 4 m)
      = Some (d + 4 + k, s + 4 + k, n - 4 - k, copied (d + 4) (s + 4) k (copied d s 4 m))" by blast
    moreover have "disjoint_regions d s (4 + k)" using 1(2) k(1) False by (auto simp: disjoint_regions_def)
    ultimately have "copy_words d s n m = Some (d + (4 + k), s + (4 + k), n - (4 + k), copied d s (4 + k) m)"
      using v False copied_append [of d s 4 k m] by (subst copy_words.simps) (simp add: add.assoc)
    moreover have "4 + k \<le> n" using k(1) False by linarith
    ultimately show ?thesis by blast
  qed
qed


lemma clear_bytes_spec:
  "\<exists>k \<le> n. clear_bytes cond d n m = (d + k, n - k, cleared d k m) \<and> (k < n \<longrightarrow> \<not> cond (d + k))"
proof (induction cond d n m rule: clear_bytes.induct)
  case (2 cond d n m)
  show ?case
  proof (cases "cond d")
    case True
    from 2 [OF True] obtain k where k: "k \<le> n" "clear_bytes cond (d + 1) n (m(d := 0)) = (d + 1 + k, n - k, cleared (d + 1) k (m(d := 0)))"
      "k < n \<longrightarrow> \<not> cond (d + 1 + k)" by blast
    have "m(d := 0) = cleared d 1 m" by (rule ext) (auto simp: cleared_def)
    then have "cleared (d + 1) k (m(d := 0)) = cleared d (Suc k) m" using cleared_append [of d 1 k m] by simp
    then show ?thesis using k True by (intro exI [of _ "Suc k"]) simp
  qed (intro exI [of _ 0], simp)
qed simp

lemma clear_words_spec:
  assumes "n < 4 \<or> d mod 4 = 0"
  shows "\<exists>k \<le> n. clear_words d n m = Some (d + k, n - k, cleared d k m)"
  using assms
proof (induction d n m rule: clear_words.induct)
  case (1 d n m)
  show ?case
  proof (cases "n < 4")
    case True
    then show ?thesis by (intro exI [of _ 0]) (simp add: clear_words.simps)
  next
    case False
    then have a: "d mod 4 = 0" using 1(2) by blast
    note v = cleared_word [OF a, of m]
    have "(d + 4) mod 4 = 0" using a by simp
    from 1(1) [OF False v disjI2 [OF this]] obtain k where k: "k \<le> n - 4" "clear_words (d + 4) (n - 4) (cleared d 4 m) = Some (d + 4 + k, n - 4 - k, cleared (d + 4) k (cleared d 4 m))"
      by blast
    then have "clear_words d n m = Some (d + (4 + k), n - (4 + k), cleared d (4 + k) m)"
      using v False cleared_append [of d 4 k m] by (subst clear_words.simps) (simp add: add.assoc)
    moreover have "4 + k \<le> n" using k(1) False by linarith
    ultimately show ?thesis by blast
  qed
qed

text \<open>The words and the tail after them: what every entry point ends with.\<close>

lemma disjoint_part: "disjoint_regions d s n \<Longrightarrow> k \<le> n \<Longrightarrow> disjoint_regions (d + k) (s + k) (n - k)"
  by (auto simp: disjoint_regions_def)

lemma memcpy4_spec:
  assumes "disjoint_regions d s n" "n < 4 \<or> d mod 4 = 0 \<and> s mod 4 = 0"
  shows "aeabi_memcpy4 d s n m = Some (copied d s n m)"
proof -
  obtain k where k: "k \<le> n" "copy_words d s n m = Some (d + k, s + k, n - k, copied d s k m)" using copy_words_spec [OF assms] by blast
  obtain j where j: "j \<le> n - k" "copy_bytes (\<lambda>_ _. True) (d + k) (s + k) (n - k) (copied d s k m)
    = (d + k + j, s + k + j, n - k - j, copied (d + k) (s + k) j (copied d s k m))" "\<not> j < n - k"
    using copy_bytes_spec [OF disjoint_part [OF assms(1) k(1)], of "\<lambda>_ _. True" "copied d s k m"] by blast
  then have "j = n - k" by simp
  then show ?thesis using j k copied_append [of d s k "n - k" m] assms(1) by (simp add: aeabi_memcpy4_def)
qed

lemma memclr4_spec:
  assumes "n < 4 \<or> d mod 4 = 0"
  shows "aeabi_memclr4 d n m = Some (cleared d n m)"
proof -
  obtain k where k: "k \<le> n" "clear_words d n m = Some (d + k, n - k, cleared d k m)" using clear_words_spec [OF assms] by blast
  obtain j where j: "j \<le> n - k" "clear_bytes (\<lambda>_. True) (d + k) (n - k) (cleared d k m) = (d + k + j, n - k - j, cleared (d + k) j (cleared d k m))"
    "\<not> j < n - k" using clear_bytes_spec [of "n - k" "\<lambda>_. True" "d + k" "cleared d k m"] by blast
  then have "j = n - k" by simp
  then show ?thesis using j k cleared_append [of d k "n - k" m] by (simp add: aeabi_memclr4_def)
qed

text \<open>
  C30: the copy helper that the compiler calls from the real-time loop is a correct \<open>memcpy\<close>: for any two regions that do not
  overlap, at any alignment and of any length, it ends, never makes an unaligned word access, copies exactly
  the bytes of the source and changes nothing outside the destination.
\<close>

theorem memcpy_correct:
  assumes "disjoint_regions d s n"
  shows "aeabi_memcpy d s n m = Some (copied d s n m)"
proof -
  let ?c1 = "\<lambda>d s. d AND ALIGN_MASK \<noteq> s AND ALIGN_MASK" and ?c2 = "\<lambda>d s :: nat. d AND ALIGN_MASK \<noteq> 0"
  obtain k where k: "k \<le> n" "copy_bytes ?c1 d s n m = (d + k, s + k, n - k, copied d s k m)" "k < n \<longrightarrow> \<not> ?c1 (d + k) (s + k)"
    using copy_bytes_spec [OF assms, of ?c1 m] by blast
  let ?d = "d + k" and ?s = "s + k" and ?n = "n - k" and ?m = "copied d s k m"
  have dis: "disjoint_regions ?d ?s ?n" by (rule disjoint_part [OF assms k(1)])
  obtain j where j: "j \<le> ?n" "copy_bytes ?c2 ?d ?s ?n ?m = (?d + j, ?s + j, ?n - j, copied ?d ?s j ?m)" "j < ?n \<longrightarrow> \<not> ?c2 (?d + j) (?s + j)"
    using copy_bytes_spec [OF dis, of ?c2 ?m] by blast
  have "?n - j < 4 \<or> (?d + j) mod 4 = 0 \<and> (?s + j) mod 4 = 0"
  proof (cases "j < ?n")
    case True
    then have "?d mod 4 = ?s mod 4" "(?d + j) mod 4 = 0" using k(3) j(3) by (auto simp: and_align)
    moreover from this(1) have "(?d + j) mod 4 = (?s + j) mod 4" by (rule mod_add_cong) simp
    ultimately show ?thesis by simp
  qed simp
  note w = memcpy4_spec [OF disjoint_part [OF dis j(1)] this, of "copied ?d ?s j ?m"]
  have "copied (?d + j) (?s + j) (?n - j) (copied ?d ?s j ?m) = copied ?d ?s ?n ?m"
    using copied_append [of ?d ?s j "?n - j" ?m] dis j(1) by (simp only: le_add_diff_inverse)
  also have "\<dots> = copied d s n m" using copied_append [of d s k ?n m] assms k(1) by simp
  finally show ?thesis using w k(2) j(2) by (simp add: aeabi_memcpy_def aeabi_memcpy4_def)
qed

theorem memcpy_correct_witness:
  "\<exists>m'. aeabi_memcpy 101 9 7 (\<lambda>a. of_nat a) = Some m' \<and> map m' [100..<109] = [100, 9, 10, 11, 12, 13, 14, 15, 108]"
  using memcpy_correct [of 101 9 7 "\<lambda>a. of_nat a"] by (simp add: disjoint_regions_def copied_def upt_rec)

text \<open>The clearing helpers are correct at any alignment and length.\<close>

lemma memclr_correct: "aeabi_memclr d n m = Some (cleared d n m)"
proof -
  let ?c = "\<lambda>d. d AND ALIGN_MASK \<noteq> 0"
  obtain k where k: "k \<le> n" "clear_bytes ?c d n m = (d + k, n - k, cleared d k m)" "k < n \<longrightarrow> \<not> ?c (d + k)"
    using clear_bytes_spec [of n ?c d m] by blast
  then have "n - k < 4 \<or> (d + k) mod 4 = 0" by (cases "k < n") (auto simp: and_align)
  from memclr4_spec [OF this, of "cleared d k m"] show ?thesis
    using k cleared_append [of d k "n - k" m] by (simp add: aeabi_memclr_def aeabi_memclr4_def)
qed

end
