(* ===== verification/Rt_Clock.thy ===== *)
theory Rt_Clock
  imports Rt_Shared
begin

text \<open>
  The parts of the firmware that poll hardware clocks and FIFOs: the sample clocks of \<open>firmware/rt/src/rig.rs\<close>, the time
  watchdog of \<open>firmware/support/src/time_watchdog.rs\<close>, and the FIFO accesses of the SSI and pulse readers
  (\<open>ssi_pio.rs\<close>, \<open>pulse_pio.rs\<close>). The registers are functions on a hardware state \<open>'h\<close>; a loop that polls them may run
  forever, so it returns an option. The PIO programmes and the one-time set-up of pins and clocks are not modelled.
\<close>

subsection \<open>Registers\<close>

record 'h ClockRegs =
  ck_timerawl :: "'h \<Rightarrow> 'h \<times> u32"
  ck_io_edge_low :: "nat \<Rightarrow> nat \<Rightarrow> 'h \<Rightarrow> 'h \<times> bool"
  ck_io_clear :: "nat \<Rightarrow> nat \<Rightarrow> 'h \<Rightarrow> 'h"
  ck_pwm_intr :: "'h \<Rightarrow> 'h \<times> u32"
  ck_pwm_clear :: "u32 \<Rightarrow> 'h \<Rightarrow> 'h"
  ck_pwm_disable :: "u32 \<Rightarrow> 'h \<Rightarrow> 'h"
  ck_alarm :: "nat \<Rightarrow> u32 \<Rightarrow> 'h \<Rightarrow> 'h"
  ck_armed :: "'h \<Rightarrow> 'h \<times> u8"
  ck_disarm :: "u8 \<Rightarrow> 'h \<Rightarrow> 'h"
  ck_intr_clear :: "nat \<Rightarrow> 'h \<Rightarrow> 'h"
  ck_pend_irq0 :: "'h \<Rightarrow> 'h"
  ck_pwm_free :: "nat \<Rightarrow> u8 \<Rightarrow> u16 \<Rightarrow> 'h \<Rightarrow> 'h"
  ck_alarm_enable :: "nat \<Rightarrow> 'h \<Rightarrow> 'h"
  ck_unpend_irq1 :: "'h \<Rightarrow> 'h"
  ck_enable_irq1 :: "'h \<Rightarrow> 'h"

subsection \<open>Sample clocks\<close>

text \<open>The loop of both \<open>wait\<close> methods: return when the latch is set, after clearing it, or when the time is up.\<close>

partial_function (option) spin_wait ::
  "('h \<Rightarrow> 'h \<times> bool) \<Rightarrow> ('h \<Rightarrow> 'h) \<Rightarrow> ('h \<Rightarrow> 'h \<times> u32) \<Rightarrow> u32 \<Rightarrow> u32 \<Rightarrow> 'h \<Rightarrow> ('h \<times> bool) option" where
  "spin_wait latch clear timer timeout_us start h =
     (let (h1, seen) = latch h
      in if seen then Some (clear h1, True)
         else let (h2, now) = timer h1
              in if now - start > timeout_us then Some (h2, False) else spin_wait latch clear timer timeout_us start h2)"

record BusyEdgeSpinTick =
  be_pin :: u8
  be_timeout_us :: u32

definition busy_edge_new :: "'h ClockRegs \<Rightarrow> u8 \<Rightarrow> SampleRate \<Rightarrow> 'h \<Rightarrow> 'h \<times> BusyEdgeSpinTick" where
  "busy_edge_new H pin rate h =
     (ck_io_clear H (unat pin div 8) (unat pin mod 8) h, \<lparr>be_pin = pin, be_timeout_us = 2 * ucast (sr_period_us rate)\<rparr>)"

definition busy_edge_wait :: "'h ClockRegs \<Rightarrow> BusyEdgeSpinTick \<Rightarrow> 'h \<Rightarrow> ('h \<times> bool) option" where
  "busy_edge_wait H b h =
     (let bank = unat (be_pin b) div 8; group = unat (be_pin b) mod 8; (h1, start) = ck_timerawl H h
      in spin_wait (ck_io_edge_low H bank group) (ck_io_clear H bank group) (ck_timerawl H) (be_timeout_us b) start h1)"

record PwmWrapSpinTick =
  pt_mask :: u32
  pt_divider :: u8
  pt_top :: u16
  pt_timeout_us :: u32

definition pwm_wrap_new :: "'h ClockRegs \<Rightarrow> nat \<Rightarrow> SampleRate \<Rightarrow> 'h \<Rightarrow> 'h \<times> PwmWrapSpinTick" where
  "pwm_wrap_new H slice_no rate h =
     (let m = push_bit slice_no 1; (divider, top) = sr_pwm_params rate
      in (ck_pwm_clear H m (ck_pwm_disable H m (ck_pwm_free H slice_no divider top h)),
          \<lparr>pt_mask = m, pt_divider = divider, pt_top = top, pt_timeout_us = 2 * ucast (sr_period_us rate)\<rparr>))"

definition pwm_wrap_seen :: "'h ClockRegs \<Rightarrow> u32 \<Rightarrow> 'h \<Rightarrow> 'h \<times> bool" where
  "pwm_wrap_seen H m h = (let (h1, intr) = ck_pwm_intr H h in (h1, intr AND m \<noteq> 0))"

definition pwm_wrap_wait :: "'h ClockRegs \<Rightarrow> PwmWrapSpinTick \<Rightarrow> 'h \<Rightarrow> ('h \<times> bool) option" where
  "pwm_wrap_wait H p h =
     (let (h1, start) = ck_timerawl H h
      in spin_wait (pwm_wrap_seen H (pt_mask p)) (ck_pwm_clear H (pt_mask p)) (ck_timerawl H) (pt_timeout_us p) start h1)"

subsection \<open>The time watchdog\<close>

definition KICK_INTERVAL_US :: u32 where "KICK_INTERVAL_US = 50000"
definition ALARM_N :: nat where "ALARM_N = 1"
definition ALARM_BIT :: u8 where "ALARM_BIT = push_bit ALARM_N 1"

partial_function (option) arm_kick :: "'h ClockRegs \<Rightarrow> 'h \<Rightarrow> 'h option" where
  "arm_kick H h =
     (let (h1, t0) = ck_timerawl H h; target = t0 + KICK_INTERVAL_US; h2 = ck_alarm H ALARM_N target h1;
          (h3, now) = ck_timerawl H h2; still_ahead = (0 < sint (target - now));
          (h4, armed) = ck_armed H h3; fired = (armed AND ALARM_BIT = 0)
      in if still_ahead \<or> fired then Some h4 else arm_kick H (ck_disarm H ALARM_BIT h4))"

definition watchdog_on_interrupt :: "'h ClockRegs \<Rightarrow> 'h \<Rightarrow> 'h option" where
  "watchdog_on_interrupt H h = map_option (ck_pend_irq0 H) (arm_kick H (ck_intr_clear H ALARM_N h))"

definition watchdog_start :: "'h ClockRegs \<Rightarrow> 'h \<Rightarrow> 'h option" where
  "watchdog_start H h = map_option (\<lambda>h1. ck_enable_irq1 H (ck_unpend_irq1 H h1)) (arm_kick H (ck_alarm_enable H ALARM_N h))"

subsection \<open>FIFO accesses of the PIO readers\<close>

record 'h PioRegs =
  pi_txfull :: "'h \<Rightarrow> 'h \<times> u8"
  pi_rxempty :: "'h \<Rightarrow> 'h \<times> u8"
  pi_rxstall :: "'h \<Rightarrow> 'h \<times> u8"
  pi_clear_rxstall :: "u8 \<Rightarrow> 'h \<Rightarrow> 'h"
  pi_txf :: "nat \<Rightarrow> u32 \<Rightarrow> 'h \<Rightarrow> 'h"
  pi_rxf :: "nat \<Rightarrow> 'h \<Rightarrow> 'h \<times> u32"

text \<open>\<open>bit_count\<close> of \<open>DualSsiReader::new\<close>, whose assertions on the word length and bit rate are the guards.\<close>

definition ssi_bit_count :: "u8 \<Rightarrow> u32 \<Rightarrow> u32 option" where
  "ssi_bit_count bits bit_rate_hz =
     (if \<not> (1 \<le> bits \<and> bits \<le> 16) then None
      else if \<not> (1 \<le> bit_rate_hz \<and> bit_rate_hz \<le> 4000000) then None
      else Some (ucast (bits - 1)))"

definition ssi_start :: "'h PioRegs \<Rightarrow> nat \<Rightarrow> u32 \<Rightarrow> 'h \<Rightarrow> 'h \<times> bool" where
  "ssi_start H sm bit_count h =
     (let (h1, full) = pi_txfull H h in if full AND push_bit sm 1 \<noteq> 0 then (h1, False) else (pi_txf H sm bit_count h1, True))"

definition pio_read :: "'h PioRegs \<Rightarrow> nat \<Rightarrow> 'h \<Rightarrow> 'h \<times> u32 option" where
  "pio_read H sm h =
     (let (h1, empty) = pi_rxempty H h
      in if empty AND push_bit sm 1 \<noteq> 0 then (h1, None) else (let (h2, x) = pi_rxf H sm h1 in (h2, Some x)))"

definition pulse_stalled :: "'h PioRegs \<Rightarrow> nat \<Rightarrow> 'h \<Rightarrow> 'h \<times> bool" where
  "pulse_stalled H sm h =
     (let (h1, r) = pi_rxstall H h; stalled = (r AND push_bit sm 1 \<noteq> 0)
      in (if stalled then pi_clear_rxstall H (push_bit sm 1) h1 else h1, stalled))"

subsection \<open>Waiting ends\<close>

text \<open>
  What is assumed of a clock that a loop polls: the timer shows a time that never falls and stands still for finitely
  many reads only (\<open>stall\<close> bounds them), and two reads are less than \<open>2^31\<close> microseconds apart, some 35 minutes.
\<close>

definition clock_laws :: "('h \<Rightarrow> 'h \<times> bool) \<Rightarrow> ('h \<Rightarrow> 'h \<times> u32) \<Rightarrow> ('h \<Rightarrow> nat) \<Rightarrow> ('h \<Rightarrow> nat) \<Rightarrow> bool" where
  "clock_laws latch timer time stall \<longleftrightarrow>
     (\<forall>h. time h \<le> time (fst (latch h)) \<and> (time (fst (latch h)) = time h \<longrightarrow> stall (fst (latch h)) \<le> stall h)
        \<and> (let h' = fst (timer (fst (latch h))) in
             time (fst (latch h)) \<le> time h' \<and> time h' < time h + 2 ^ 31 \<and> snd (timer (fst (latch h))) = of_nat (time h')
             \<and> (time h' = time (fst (latch h)) \<longrightarrow> stall h' < stall (fst (latch h)))))"

lemma spin_wait_returns:
  assumes "clock_laws latch timer time stall" "s \<le> time h" "time h \<le> s + unat timeout" "unat timeout < 2 ^ 31"
  shows "\<exists>h' ok. spin_wait latch clear timer timeout (of_nat s) h = Some (h', ok)
    \<and> (if ok then \<exists>h1. h' = clear h1 \<and> (\<exists>h0. latch h0 = (h1, True)) else s + unat timeout < time h')"
  using assms(2,3)
proof (induction "(s + unat timeout - time h, stall h)" arbitrary: h rule: wf_induct_rule [OF wf_lex_prod [OF wf_less_than wf_less_than]])
  case 1
  obtain h1 seen where l: "latch h = (h1, seen)" by fastforce
  show ?case
  proof (cases seen)
    case True
    then show ?thesis using l by (subst spin_wait.simps) auto
  next
    case False
    obtain h2 now where t: "timer h1 = (h2, now)" by fastforce
    have c: "time h \<le> time h1" "time h1 = time h \<Longrightarrow> stall h1 \<le> stall h" "time h1 \<le> time h2" "time h2 < time h + 2 ^ 31"
      "now = of_nat (time h2)" "time h2 = time h1 \<Longrightarrow> stall h2 < stall h1"
      using assms(1) l t unfolding clock_laws_def by (auto simp: Let_def dest!: spec [of _ h])
    have "unat (now - of_nat s) = time h2 - s"
    proof -
      have "now - of_nat s = of_nat (time h2 - s)" using c 1(2) by (simp add: of_nat_diff)
      moreover have "time h2 - s < 2 ^ 32" using c(4) 1(3) assms(4) by simp
      ultimately show ?thesis by (simp add: unat_of_nat take_bit_nat_eq_self)
    qed
    then have cmp: "timeout < now - of_nat s \<longleftrightarrow> s + unat timeout < time h2" using c 1(2) by (simp add: word_less_nat_alt) linarith
    show ?thesis
    proof (cases "s + unat timeout < time h2")
      case True
      then show ?thesis using l t False cmp by (subst spin_wait.simps) auto
    next
      case f: False
      have "((s + unat timeout - time h2, stall h2), (s + unat timeout - time h, stall h)) \<in> less_than <*lex*> less_than"
        using c f 1(3) by (cases "time h2 = time h") auto
      from 1(1) [OF this] obtain h' ok where "spin_wait latch clear timer timeout (of_nat s) h2 = Some (h', ok)"
        "if ok then \<exists>h1. h' = clear h1 \<and> (\<exists>h0. latch h0 = (h1, True)) else s + unat timeout < time h'"
        using c 1(2) f by auto
      then show ?thesis using l t False f cmp by (subst spin_wait.simps) auto
    qed
  qed
qed

lemma spin_wait_latched: "latch h = (h1, True) \<Longrightarrow> spin_wait latch clear timer timeout start h = Some (clear h1, True)"
  by (subst spin_wait.simps) simp

text \<open>
  C29: the sample clock never blocks the real-time core. Whatever the wrap latch does, waiting for a tick ends: with \<open>true\<close> and
  the latch cleared when a wrap was latched, and otherwise with \<open>false\<close> once more than two sample periods have gone by. A wrap
  that was latched while the previous tick was still running is not lost: the wait returns at once.
\<close>

theorem tick_wait_ends:
  assumes "clock_laws (pwm_wrap_seen H (pt_mask p)) (ck_timerawl H) time stall" "ck_timerawl H h = (h0, of_nat (time h0))"
    "snd (pwm_wrap_new H slice_no rate hinit) = p"
  shows "\<exists>h' ok. pwm_wrap_wait H p h = Some (h', ok)
    \<and> (if ok then \<exists>g. h' = ck_pwm_clear H (pt_mask p) g \<and> (\<exists>g0. pwm_wrap_seen H (pt_mask p) g0 = (g, True))
        else time h0 + 2 * unat (sr_period_us rate) < time h')
    \<and> (snd (pwm_wrap_seen H (pt_mask p) h0) \<longrightarrow> ok)"
proof -
  have "pt_timeout_us p = 2 * ucast (sr_period_us rate)" unfolding assms(3) [symmetric] by (simp add: pwm_wrap_new_def Let_def split: prod.splits)
  then have t: "unat (pt_timeout_us p) = 2 * unat (sr_period_us rate)" "unat (pt_timeout_us p) < 2 ^ 31" by (cases rate; simp)+
  from spin_wait_returns [OF assms(1) order_refl _ t(2), of h0 "ck_pwm_clear H (pt_mask p)"]
  obtain h' ok where w: "spin_wait (pwm_wrap_seen H (pt_mask p)) (ck_pwm_clear H (pt_mask p)) (ck_timerawl H) (pt_timeout_us p) (of_nat (time h0)) h0 = Some (h', ok)"
    "if ok then \<exists>g. h' = ck_pwm_clear H (pt_mask p) g \<and> (\<exists>g0. pwm_wrap_seen H (pt_mask p) g0 = (g, True))
     else time h0 + unat (pt_timeout_us p) < time h'" by auto
  have "ok" if "snd (pwm_wrap_seen H (pt_mask p) h0)"
    using spin_wait_latched [of "pwm_wrap_seen H (pt_mask p)" h0] that w(1) by (cases "pwm_wrap_seen H (pt_mask p) h0") auto
  then show ?thesis using w assms(2) t(1) by (auto simp: pwm_wrap_wait_def split: if_splits)
qed


text \<open>A clock that advances one microsecond per read of the timer, and wraps at a given time.\<close>

definition demo_clock :: "nat \<Rightarrow> nat ClockRegs" where
  "demo_clock wrap = \<lparr>ck_timerawl = (\<lambda>t. (t + 1, of_nat (t + 1))), ck_io_edge_low = (\<lambda>_ _ t. (t, False)), ck_io_clear = (\<lambda>_ _ t. t),
     ck_pwm_intr = (\<lambda>t. (t, if wrap \<le> t then - 1 else 0)), ck_pwm_clear = (\<lambda>_ t. t), ck_pwm_disable = (\<lambda>_ t. t), ck_alarm = (\<lambda>_ _ t. t),
     ck_armed = (\<lambda>t. (t, 0)), ck_disarm = (\<lambda>_ t. t), ck_intr_clear = (\<lambda>_ t. t), ck_pend_irq0 = (\<lambda>t. t),
     ck_pwm_free = (\<lambda>_ _ _ t. t), ck_alarm_enable = (\<lambda>_ t. t), ck_unpend_irq1 = (\<lambda>t. t), ck_enable_irq1 = (\<lambda>t. t)\<rparr>"

theorem tick_wait_ends_witness:
  "\<exists>h' ok. pwm_wrap_wait (demo_clock (10 ^ 6)) (snd (pwm_wrap_new (demo_clock 0) 4 Hz8000 0)) 5 = Some (h', ok) \<and> (ok \<or> 256 < h')"
proof -
  let ?H = "demo_clock (10 ^ 6)" and ?p = "snd (pwm_wrap_new (demo_clock 0) 4 Hz8000 0)"
  have "clock_laws (pwm_wrap_seen ?H (pt_mask ?p)) (ck_timerawl ?H) id (\<lambda>_. 0)"
    by (simp add: clock_laws_def demo_clock_def pwm_wrap_seen_def Let_def)
  moreover have "ck_timerawl ?H 5 = (6, of_nat (id 6))" by (simp add: demo_clock_def)
  ultimately show ?thesis 
    using tick_wait_ends [where H = ?H and p = ?p and time = id and stall = "\<lambda>_. 0" and h = 5 and ?h0.0 = 6 and slice_no = 4 and rate = Hz8000 and hinit = 0]
    by (auto simp: pwm_wrap_new_def split: if_splits)
qed

text \<open>
  The watchdog: \<open>arm_kick\<close> returns after one attempt when the second read of the timer is less than the interval after the
  first, across a wrap of the timer too.
\<close>

lemma arm_kick_once:
  assumes "ck_timerawl H h = (h1, t0)" "ck_timerawl H (ck_alarm H ALARM_N (t0 + KICK_INTERVAL_US) h1) = (h3, t0 + d)" "d < KICK_INTERVAL_US"
  shows "arm_kick H h = Some (fst (ck_armed H h3))"
proof -
  have "t0 + KICK_INTERVAL_US - (t0 + d) = KICK_INTERVAL_US - d" by simp
  moreover have u: "uint (KICK_INTERVAL_US - d) = 50000 - uint d"
    using assms(3) by (simp add: KICK_INTERVAL_US_def uint_sub_lem [THEN iffD1] word_less_def word_le_def)
  moreover have "sint (KICK_INTERVAL_US - d) = uint (KICK_INTERVAL_US - d)"
  proof -
    have "uint d < 50000" using assms(3) by (simp add: KICK_INTERVAL_US_def word_less_def)
    then have "0 < 50000 - uint d" "50000 - uint d \<le> 50000" using uint_nonnegative [of d] by linarith+
    moreover have "0 < x \<Longrightarrow> x \<le> 50000 \<Longrightarrow> signed_take_bit 31 x = x" for x :: int by (rule signed_take_bit_int_eq_self) simp_all
    ultimately have "signed_take_bit 31 (50000 - uint d) = 50000 - uint d" by blast
    then show ?thesis by (simp add: sint_uint u)
  qed
  ultimately have "0 < sint (t0 + KICK_INTERVAL_US - (t0 + d))" using assms(3) by (simp add: KICK_INTERVAL_US_def word_less_def)
  then show ?thesis using assms(1,2) by (subst arm_kick.simps) (simp add: Let_def split: prod.splits)
qed

end
