(* ===== verification/Laser_Task.thy ===== *)
theory Laser_Task
  imports Drivers
begin

text \<open>
  The laser task of \<open>firmware/integrations/optoncdt/src/laser.rs\<close>: finding the sensor's baud rate, configuring it over its
  command channel, and publishing its measurements. The UART is an environment: whether a write succeeds, and what
  is read before a time-out. Log messages are left out.
\<close>

subsection \<open>Commands and replies\<close>

definition OUTPUT_NONE :: bytes where "OUTPUT_NONE = as_bytes ''OUTPUT NONE'' @ [10]"
definition GET_USER_LEVEL :: bytes where "GET_USER_LEVEL = as_bytes ''GETUSERLEVEL'' @ [10]"
definition NO_OUTPUT_REDUCTION :: bytes where "NO_OUTPUT_REDUCTION = as_bytes ''OUTREDUCEDEVICE NONE'' @ [10]"
definition DISTANCE_ONLY :: bytes where "DISTANCE_ONLY = as_bytes ''OUTADD_RS422 NONE'' @ [10]"
definition OUTPUT_RS422 :: bytes where "OUTPUT_RS422 = as_bytes ''OUTPUT RS422'' @ [10]"
definition REQUIRED_BAUD :: u32 where "REQUIRED_BAUD = 921600"
definition SYNC_FRAMES :: u8 where "SYNC_FRAMES = 8"
definition SUPPORTED_BAUDS :: "u32 list" where
  "SUPPORTED_BAUDS = [921600, 1000000, 691200, 460800, 256000, 230400, 128000, 115200, 56000, 19200, 9600]"

record ReplyTrace =
  rt_bytes_received :: u32
  rt_trailing :: bytes

definition trace_default :: ReplyTrace where
  "trace_default = \<lparr>rt_bytes_received = 0, rt_trailing = replicate 4 0\<rparr>"

definition trace_push :: "u8 \<Rightarrow> ReplyTrace \<Rightarrow> ReplyTrace" where
  "trace_push b t = \<lparr>rt_bytes_received = saturating_add (rt_bytes_received t) 1, rt_trailing = (rotate1 (rt_trailing t))[3 := b]\<rparr>"

text \<open>One exchange of the command channel: whether the write succeeds, and the reads before the time-out.\<close>

datatype UartRead = RxByte u8 | RxError

record Exchange =
  ex_write_ok :: bool
  ex_reads :: "UartRead list"

datatype ReplyOutcome = Replied CommandReply | ReceiveError | TimedOut | WriteFailed

fun wait_for_reply :: "UartRead list \<Rightarrow> CommandReplyParser \<Rightarrow> ReplyTrace \<Rightarrow> ReplyOutcome \<times> ReplyTrace" where
  "wait_for_reply [] parser trace = (TimedOut, trace)"
| "wait_for_reply (RxError # _) parser trace = (ReceiveError, trace)"
| "wait_for_reply (RxByte b # rest) parser trace =
     (case reply_push b parser of
        (_, Some reply) \<Rightarrow> (Replied reply, trace_push b trace)
      | (parser', None) \<Rightarrow> wait_for_reply rest parser' (trace_push b trace))"

datatype UartCall = SetBaud u32 | WriteAll bytes | DrainStopped

text \<open>What was done with the UART, and how many exchanges took place: the environment gives each its outcome.\<close>

record LaserUart =
  lu_calls :: "UartCall list"
  lu_exchanges :: nat

definition uart_call :: "UartCall \<Rightarrow> LaserUart \<Rightarrow> LaserUart" where
  "uart_call c u = u\<lparr>lu_calls := lu_calls u @ [c]\<rparr>"

definition laser_command :: "(nat \<Rightarrow> Exchange) \<Rightarrow> bytes \<Rightarrow> LaserUart \<Rightarrow> LaserUart \<times> ReplyOutcome" where
  "laser_command env bytes u =
     (let ex = env (lu_exchanges u); u1 = (uart_call (WriteAll bytes) u)\<lparr>lu_exchanges := lu_exchanges u + 1\<rparr>
      in if \<not> ex_write_ok ex then (u1, WriteFailed)
         else (u1, fst (wait_for_reply (ex_reads ex) reply_parser_new trace_default)))"

fun stop_attempts :: "(nat \<Rightarrow> Exchange) \<Rightarrow> nat \<Rightarrow> LaserUart \<Rightarrow> LaserUart \<times> u32 option" where
  "stop_attempts env 0 u = (u, None)"
| "stop_attempts env (Suc n) u =
     (case laser_command env OUTPUT_NONE u of
        (u1, Replied _) \<Rightarrow> (u1, Some REQUIRED_BAUD)
      | (u1, _) \<Rightarrow> stop_attempts env n u1)"

fun probe_bauds :: "(nat \<Rightarrow> Exchange) \<Rightarrow> u32 list \<Rightarrow> LaserUart \<Rightarrow> LaserUart \<times> u32 option" where
  "probe_bauds env [] u = (u, None)"
| "probe_bauds env (baudrate # rest) u =
     (case laser_command env GET_USER_LEVEL (uart_call (SetBaud baudrate) u) of
        (u1, Replied _) \<Rightarrow> (u1, Some baudrate)
      | (u1, _) \<Rightarrow> probe_bauds env rest u1)"

definition detect_baudrate :: "(nat \<Rightarrow> Exchange) \<Rightarrow> LaserUart \<Rightarrow> LaserUart \<times> u32 option" where
  "detect_baudrate env u =
     (case stop_attempts env 3 (uart_call (SetBaud REQUIRED_BAUD) u) of
        (u1, Some b) \<Rightarrow> (u1, Some b)
      | (u1, None) \<Rightarrow> probe_bauds env SUPPORTED_BAUDS u1)"

definition configure_commands :: "bytes \<Rightarrow> bytes list" where
  "configure_commands measrate_command = [OUTPUT_NONE, measrate_command, NO_OUTPUT_REDUCTION, DISTANCE_ONLY, OUTPUT_RS422]"

text \<open>The first command is the one named \<open>OUTPUT NONE\<close>, after which the stopped stream is drained.\<close>

fun configure_steps :: "(nat \<Rightarrow> Exchange) \<Rightarrow> bool \<Rightarrow> bytes list \<Rightarrow> LaserUart \<Rightarrow> LaserUart \<times> bool" where
  "configure_steps env first [] u = (u, True)"
| "configure_steps env first (bytes # rest) u =
     (case laser_command env bytes u of
        (u1, Replied ReplyOk) \<Rightarrow> configure_steps env False rest (if first then uart_call DrainStopped u1 else u1)
      | (u1, _) \<Rightarrow> (u1, False))"

definition configure :: "(nat \<Rightarrow> Exchange) \<Rightarrow> bytes \<Rightarrow> LaserUart \<Rightarrow> LaserUart \<times> bool" where
  "configure env measrate_command u = configure_steps env True (configure_commands measrate_command) u"

text \<open>The first loop of \<open>configured_laser_run\<close>, which ends when the sensor is configured.\<close>

partial_function (option) configure_loop :: "(nat \<Rightarrow> Exchange) \<Rightarrow> bytes \<Rightarrow> LaserUart \<Rightarrow> LaserUart option" where
  "configure_loop env measrate_command u =
     (case detect_baudrate env u of
        (u1, None) \<Rightarrow> configure_loop env measrate_command u1
      | (u1, Some baudrate) \<Rightarrow>
          if baudrate \<noteq> REQUIRED_BAUD then configure_loop env measrate_command u1
          else (let (u2, configured) = configure env measrate_command u1
                in if configured then Some u2 else configure_loop env measrate_command u2))"

subsection \<open>Measurements\<close>

record LaserCounters =
  lc_frames_received :: u32
  lc_uart_errors :: u32
  lc_parse_errors :: u32
  lc_invalid_frames :: u32
  lc_unexpected_values :: u32
  lc_sync_errors :: u32

record LaserState =
  ls_parser :: Parser
  ls_first_distance_logged :: bool
  ls_synchronised :: bool
  ls_clean_frames :: u8
  ls_counters :: LaserCounters
  ls_destination :: u32

definition laser_new :: "LaserCounters \<Rightarrow> u32 \<Rightarrow> LaserState" where
  "laser_new counters destination = \<lparr>ls_parser = parser_new, ls_first_distance_logged = False, ls_synchronised = False,
     ls_clean_frames = 0, ls_counters = counters, ls_destination = destination\<rparr>"

definition laser_count :: "(LaserCounters \<Rightarrow> LaserCounters) \<Rightarrow> LaserState \<Rightarrow> LaserState" where
  "laser_count f s = s\<lparr>ls_counters := f (ls_counters s)\<rparr>"

text \<open>An irregularity: counted where it belongs once synchronised, and as a synchronisation error before.\<close>

definition irregular :: "(LaserCounters \<Rightarrow> LaserCounters) \<Rightarrow> LaserState \<Rightarrow> LaserState" where
  "irregular f s =
     (if ls_synchronised s then laser_count f s
      else (laser_count (\<lambda>c. c\<lparr>lc_sync_errors := lc_sync_errors c + 1\<rparr>) s)\<lparr>ls_clean_frames := 0\<rparr>)"

definition laser_error :: "LaserState \<Rightarrow> LaserState" where
  "laser_error s = (irregular (\<lambda>c. c\<lparr>lc_uart_errors := lc_uart_errors c + 1\<rparr>) s)\<lparr>ls_parser := parser_new\<rparr>"

definition laser_sync :: "LaserState \<Rightarrow> LaserState" where
  "laser_sync s =
     (let s1 = (if ls_synchronised s then s
                else let c = saturating_add (ls_clean_frames s) 1
                     in s\<lparr>ls_clean_frames := c, ls_synchronised := c = SYNC_FRAMES\<rparr>)
      in if ls_synchronised s1 then laser_count (\<lambda>c. c\<lparr>lc_frames_received := lc_frames_received c + 1\<rparr>) s1 else s1)"

definition laser_value :: "u32 \<Rightarrow> RawValue \<Rightarrow> LaserState \<Rightarrow> LaserState" where
  "laser_value range_mm v s =
     (if \<not> rv_first v then irregular (\<lambda>c. c\<lparr>lc_unexpected_values := lc_unexpected_values c + 1\<rparr>) s
      else let s1 = laser_sync s
           in case scale_convert (from_bits range_mm) (rv_value v) of
                InRange mm \<Rightarrow> s1\<lparr>ls_first_distance_logged := True, ls_destination := to_bits mm\<rparr>
              | _ \<Rightarrow> (let s2 = (if ls_synchronised s1 then laser_count (\<lambda>c. c\<lparr>lc_invalid_frames := lc_invalid_frames c + 1\<rparr>) s1 else s1)
                       in s2\<lparr>ls_first_distance_logged := True\<rparr>))"

definition laser_byte :: "u32 \<Rightarrow> u8 \<Rightarrow> LaserState \<Rightarrow> LaserState" where
  "laser_byte range_mm byte s =
     (let (parser, event) = push_event byte (ls_parser s); s1 = s\<lparr>ls_parser := parser\<rparr>
      in case event of
           Pending \<Rightarrow> s1
         | Resynchronised \<Rightarrow> irregular (\<lambda>c. c\<lparr>lc_parse_errors := lc_parse_errors c + 1\<rparr>) s1
         | Value v \<Rightarrow> laser_value range_mm v s1)"

text \<open>What one \<open>rx.read\<close> gives: an error, or bytes, each with the range that the conversion would load.\<close>

datatype LaserRead = LaserFailed | LaserBytes "(u32 \<times> u8) list"

fun laser_read :: "LaserRead \<Rightarrow> LaserState \<Rightarrow> LaserState" where
  "laser_read LaserFailed s = laser_error s"
| "laser_read (LaserBytes bs) s = fold (\<lambda>(range_mm, byte). laser_byte range_mm byte) bs s"

definition laser_run :: "LaserRead list \<Rightarrow> LaserState \<Rightarrow> LaserState" where
  "laser_run reads s = fold laser_read reads s"


subsection \<open>A configured sensor has accepted every command at the required rate\<close>

definition current_baud :: "UartCall list \<Rightarrow> u32 option" where
  "current_baud calls = fold (\<lambda>c b. case c of SetBaud x \<Rightarrow> Some x | _ \<Rightarrow> b) calls None"

lemma current_baud_snoc [simp]:
  "current_baud (cs @ [SetBaud b]) = Some b" "current_baud (cs @ [WriteAll w]) = current_baud cs" "current_baud (cs @ [DrainStopped]) = current_baud cs"
  "current_baud (cs @ [SetBaud b, WriteAll w]) = Some b"
  by (simp_all add: current_baud_def)

lemma laser_command_calls: "laser_command env bs u = (u', r) \<Longrightarrow> lu_calls u' = lu_calls u @ [WriteAll bs]"
  by (auto simp: laser_command_def Let_def uart_call_def split: if_splits)

lemma stop_attempts_baud:
  "stop_attempts env n u = (u', r) \<Longrightarrow> current_baud (lu_calls u') = current_baud (lu_calls u) \<and> (r = None \<or> r = Some REQUIRED_BAUD)"
proof (induction n arbitrary: u)
  case (Suc n)
  obtain u1 x where c: "laser_command env OUTPUT_NONE u = (u1, x)" by fastforce
  then show ?case using Suc laser_command_calls [OF c] by (cases x) auto
qed simp

lemma probe_bauds_baud: "probe_bauds env bs u = (u', Some b) \<Longrightarrow> current_baud (lu_calls u') = Some b"
proof (induction bs arbitrary: u)
  case (Cons a bs)
  obtain u1 x where c: "laser_command env GET_USER_LEVEL (uart_call (SetBaud a) u) = (u1, x)" by fastforce
  then show ?case using Cons laser_command_calls [OF c] by (cases x) (auto simp: uart_call_def)
qed simp

lemma detect_baudrate_baud:
  assumes "detect_baudrate env u = (u', Some b)"
  shows "current_baud (lu_calls u') = Some b"
proof -
  obtain u1 r where s: "stop_attempts env 3 (uart_call (SetBaud REQUIRED_BAUD) u) = (u1, r)" by fastforce
  from stop_attempts_baud [OF s] assms s show ?thesis
    by (auto simp: detect_baudrate_def uart_call_def dest: probe_bauds_baud)
qed

lemma configure_steps_calls:
  "configure_steps env False cs u = (u', True) \<Longrightarrow> lu_calls u' = lu_calls u @ map WriteAll cs"
proof (induction cs arbitrary: u)
  case (Cons c cs)
  obtain u1 x where "laser_command env c u = (u1, x)" by fastforce
  with Cons laser_command_calls [OF this] show ?case by (auto split: ReplyOutcome.splits CommandReply.splits)
qed simp

definition configured_calls :: "bytes \<Rightarrow> UartCall list" where
  "configured_calls measrate_command = [WriteAll OUTPUT_NONE, DrainStopped, WriteAll measrate_command, WriteAll NO_OUTPUT_REDUCTION,
     WriteAll DISTANCE_ONLY, WriteAll OUTPUT_RS422]"

lemma configure_calls: "configure env m u = (u', True) \<Longrightarrow> lu_calls u' = lu_calls u @ configured_calls m"
proof -
  assume a: "configure env m u = (u', True)"
  obtain u1 x where c: "laser_command env OUTPUT_NONE u = (u1, x)" by fastforce
  from a c have "configure_steps env False [m, NO_OUTPUT_REDUCTION, DISTANCE_ONLY, OUTPUT_RS422] (uart_call DrainStopped u1) = (u', True)"
    by (auto simp: configure_def configure_commands_def split: ReplyOutcome.splits CommandReply.splits)
  from configure_steps_calls [OF this] laser_command_calls [OF c] show ?thesis by (simp add: configured_calls_def uart_call_def)
qed

text \<open>
  Before the laser task parses measurements, the sensor has acknowledged the whole configuration in order, at the baud
  rate that the measurement rate needs: nothing was sent after it and no command was skipped.
\<close>

lemma laser_configuration:
  "configure_loop env m u = Some u' \<Longrightarrow> \<exists>pre. lu_calls u' = pre @ configured_calls m \<and> current_baud pre = Some REQUIRED_BAUD"
proof (induction rule: configure_loop.raw_induct [rotated 1, consumes 1])
  case (1 loop env m u u')
  obtain u1 r where d: "detect_baudrate env u = (u1, r)" by fastforce
  obtain u2 ok where c: "configure env m u1 = (u2, ok)" by fastforce
  have e: "(case r of None \<Rightarrow> loop env m u1 | Some b \<Rightarrow> if b \<noteq> REQUIRED_BAUD then loop env m u1 else if ok then Some u2 else loop env m u2) = Some u'"
    using 1(2) d c by (cases r) auto
  show ?case
  proof (cases "r = Some REQUIRED_BAUD \<and> ok")
    case True
    then have "current_baud (lu_calls u1) = Some REQUIRED_BAUD" "lu_calls u2 = lu_calls u1 @ configured_calls m" "u' = u2"
      using detect_baudrate_baud [of env u u1] configure_calls [of env m u1 u2] d c e by auto
    then show ?thesis by blast
  next
    case False
    then have "loop env m u1 = Some u' \<or> loop env m u2 = Some u'" using e by (auto split: option.splits if_splits)
    then show ?thesis using 1(1) by blast
  qed
qed


subsection \<open>A clean stream\<close>

definition frame_bytes_of :: "u32 \<times> u32 \<Rightarrow> (u32 \<times> u8) list" where
  "frame_bytes_of = (\<lambda>(range_mm, v). map (Pair range_mm) (opto_bytes v True))"

lemma opto_push:
  assumes "v < 2 ^ 18" "pr_stage p = 0"
  shows "\<exists>p1 p2 p3. opto_bytes v True = [opto_bytes v True ! 0, opto_bytes v True ! 1, opto_bytes v True ! 2]
    \<and> push_event (opto_bytes v True ! 0) p = (p1, Pending) \<and> push_event (opto_bytes v True ! 1) p1 = (p2, Pending)
    \<and> push_event (opto_bytes v True ! 2) p2 = (p3, Value \<lparr>rv_value = v, rv_first = True\<rparr>) \<and> pr_stage p3 = 0"
  using join_18_bits [OF assms(1)] six_bits assms(2) by (simp add: opto_bytes_def push_event_def Let_def or.assoc)

lemma laser_frame:
  assumes "v < 2 ^ 18" "pr_stage (ls_parser s) = 0"
  shows "\<exists>p. fold (\<lambda>(r, b). laser_byte r b) (frame_bytes_of (range_mm, v)) s = laser_value range_mm \<lparr>rv_value = v, rv_first = True\<rparr> (s\<lparr>ls_parser := p\<rparr>)
    \<and> pr_stage p = 0"
proof -
  obtain p1 p2 p3 where p: "opto_bytes v True = [opto_bytes v True ! 0, opto_bytes v True ! 1, opto_bytes v True ! 2]"
    "push_event (opto_bytes v True ! 0) (ls_parser s) = (p1, Pending)" "push_event (opto_bytes v True ! 1) p1 = (p2, Pending)"
    "push_event (opto_bytes v True ! 2) p2 = (p3, Value \<lparr>rv_value = v, rv_first = True\<rparr>)" "pr_stage p3 = 0"
    using opto_push [OF assms] by blast
  obtain a b c where "opto_bytes v True = [a, b, c]" using p(1) by blast
  then show ?thesis using p by (intro exI [of _ p3]) (simp add: frame_bytes_of_def laser_byte_def)
qed

definition in_range :: "u32 \<times> u32 \<Rightarrow> bool" where
  "in_range = (\<lambda>(range_mm, v). case scale_convert (from_bits range_mm) v of InRange _ \<Rightarrow> True | _ \<Rightarrow> False)"

definition latest_distance :: "(u32 \<times> u32) list \<Rightarrow> u32 \<Rightarrow> u32" where
  "latest_distance fs d = fold (\<lambda>(range_mm, v) d. case scale_convert (from_bits range_mm) v of InRange mm \<Rightarrow> to_bits mm | _ \<Rightarrow> d) fs d"

text \<open>The counters after a clean stream: frames are counted from the eighth on.\<close>

definition clean_counters :: "(u32 \<times> u32) list \<Rightarrow> LaserCounters \<Rightarrow> LaserCounters" where
  "clean_counters fs c = c\<lparr>lc_frames_received := lc_frames_received c + of_nat (length fs - 7),
     lc_invalid_frames := lc_invalid_frames c + of_nat (length (filter (\<lambda>f. \<not> in_range f) (drop 7 fs)))\<rparr>"

definition clean_state :: "LaserCounters \<Rightarrow> u32 \<Rightarrow> (u32 \<times> u32) list \<Rightarrow> LaserState \<Rightarrow> bool" where
  "clean_state c d fs s \<longleftrightarrow> pr_stage (ls_parser s) = 0 \<and> (ls_synchronised s \<longleftrightarrow> 8 \<le> length fs)
     \<and> (length fs < 8 \<longrightarrow> ls_clean_frames s = of_nat (length fs))
     \<and> ls_counters s = clean_counters fs c \<and> ls_destination s = latest_distance fs d"

lemma clean_sync:
  assumes "clean_state c d fs s"
  shows "\<exists>k. laser_sync s = s\<lparr>ls_clean_frames := k, ls_synchronised := 8 \<le> length fs + 1,
      ls_counters := (ls_counters s)\<lparr>lc_frames_received := lc_frames_received c + of_nat (length fs + 1 - 7)\<rparr>\<rparr>
    \<and> (length fs + 1 < 8 \<longrightarrow> k = of_nat (length fs + 1))"
proof (cases "length fs < 8")
  case True
  then have k: "ls_clean_frames s = of_nat (length fs)" "\<not> ls_synchronised s" using assms by (auto simp: clean_state_def)
  have "unat (of_nat (length fs) + 1 :: u8) = length fs + 1" using True by (simp add: unat_word_ariths unat_of_nat)
  then have u: "unat (1 + of_nat (length fs) :: u8) = length fs + 1" by (simp add: add.commute)
  then have "saturating_add (of_nat (length fs)) 1 = (of_nat (length fs + 1) :: u8)" "(1 + of_nat (length fs) :: u8) = SYNC_FRAMES \<longleftrightarrow> length fs = 7"
    using True by (simp_all add: saturating_add_def word_less_nat_alt SYNC_FRAMES_def unat_of_nat add.commute word_unat_eq_iff take_bit_eq_mod) linarith
  then show ?thesis using True k assms
    by (auto simp: laser_sync_def laser_count_def clean_state_def clean_counters_def Let_def intro!: exI [of _ "of_nat (length fs + 1)"])
next
  case False
  then have "ls_synchronised s" using assms by (simp add: clean_state_def)
  moreover have "length fs + 1 - 7 = Suc (length fs - 7)" using False by simp
  ultimately show ?thesis using False assms
    by (auto simp: laser_sync_def laser_count_def clean_state_def clean_counters_def intro!: exI [of _ "ls_clean_frames s"])
qed


lemma clean_frame:
  assumes "clean_state c d fs s" "snd f < 2 ^ 18"
  shows "clean_state c d (fs @ [f]) (fold (\<lambda>(r, b). laser_byte r b) (frame_bytes_of f) s)"
proof -
  obtain r v where f: "f = (r, v)" by (cases f)
  obtain p where p: "fold (\<lambda>(r, b). laser_byte r b) (frame_bytes_of f) s = laser_value r \<lparr>rv_value = v, rv_first = True\<rparr> (s\<lparr>ls_parser := p\<rparr>)" "pr_stage p = 0"
    using laser_frame [of v s r] assms by (auto simp: f clean_state_def)
  have "clean_state c d fs (s\<lparr>ls_parser := p\<rparr>)" using assms(1) p(2) by (simp add: clean_state_def)
  from clean_sync [OF this] obtain k where y: "laser_sync (s\<lparr>ls_parser := p\<rparr>) = s\<lparr>ls_parser := p, ls_clean_frames := k, ls_synchronised := 8 \<le> length fs + 1,
      ls_counters := (ls_counters s)\<lparr>lc_frames_received := lc_frames_received c + of_nat (length fs + 1 - 7)\<rparr>\<rparr>" "length fs + 1 < 8 \<longrightarrow> k = of_nat (length fs + 1)"
    by auto
  have dr: "drop 7 (fs @ [f]) = (if 8 \<le> length fs + 1 then drop 7 fs @ [f] else [])" by auto
  show ?thesis unfolding p(1)
  proof (cases "in_range f")
    case True
    then obtain mm where "scale_convert (from_bits r) v = InRange mm" by (auto simp: in_range_def f split: Reading.splits)
    then show "clean_state c d (fs @ [f]) (laser_value r \<lparr>rv_value = v, rv_first = True\<rparr> (s\<lparr>ls_parser := p\<rparr>))"
      using assms(1) p(2) y True dr by (auto simp: laser_value_def Let_def clean_state_def clean_counters_def latest_distance_def f)
  next
    case False
    then show "clean_state c d (fs @ [f]) (laser_value r \<lparr>rv_value = v, rv_first = True\<rparr> (s\<lparr>ls_parser := p\<rparr>))"
      using assms(1) p(2) y dr
      by (auto simp: laser_value_def Let_def laser_count_def clean_state_def clean_counters_def latest_distance_def f in_range_def split: Reading.splits)
  qed
qed

lemma clean_stream:
  assumes "list_all (\<lambda>f. snd f < 2 ^ 18) fs"
  shows "clean_state c d fs (fold (\<lambda>(r, b). laser_byte r b) (concat (map frame_bytes_of fs)) (laser_new c d))"
  using assms
proof (induction fs rule: rev_induct)
  case Nil
  then show ?case by (simp add: clean_state_def laser_new_def parser_new_def clean_counters_def latest_distance_def)
next
  case (snoc f fs)
  then show ?case using clean_frame [of c d fs _ f] by simp
qed

lemma laser_run_chunks: "laser_run (map LaserBytes chunks) s = fold (\<lambda>(r, b). laser_byte r b) (concat chunks) s"
  by (induction chunks arbitrary: s) (simp_all add: laser_run_def)

text \<open>
  C27: the laser task follows its sensor exactly. When the bytes that arrive, however the UART splits them into reads, are the
  measurements \<open>fs\<close>, the published distance is that of the latest measurement within range, scaled with the range in force when
  it arrived; the stream counts as synchronised from the eighth measurement on; from then on every measurement is counted as
  received, and as invalid when out of range or an error code; and no error counter moves.
\<close>

theorem laser_tracks_stream:
  assumes "list_all (\<lambda>f. snd f < 2 ^ 18) fs" "concat chunks = concat (map frame_bytes_of fs)"
  shows "let s = laser_run (map LaserBytes chunks) (laser_new c d) in
    ls_destination s = latest_distance fs d \<and> ls_counters s = clean_counters fs c \<and> (ls_synchronised s \<longleftrightarrow> 8 \<le> length fs)"
  using clean_stream [OF assms(1), of c d] unfolding laser_run_chunks assms(2) by (simp add: clean_state_def Let_def)

definition zero_counters :: LaserCounters where
  "zero_counters = \<lparr>lc_frames_received = 0, lc_uart_errors = 0, lc_parse_errors = 0, lc_invalid_frames = 0, lc_unexpected_values = 0, lc_sync_errors = 0\<rparr>"

theorem laser_tracks_stream_witness:
  "let bs = concat (map frame_bytes_of (replicate 9 (0x42480000, 65535))); s = laser_run [LaserBytes (take 4 bs), LaserBytes (drop 4 bs)] (laser_new zero_counters 5) in
    ls_destination s = 5 \<and> lc_frames_received (ls_counters s) = 2 \<and> lc_invalid_frames (ls_counters s) = 2 \<and> lc_parse_errors (ls_counters s) = 0"
proof -
  let ?bs = "concat (map frame_bytes_of (replicate 9 (0x42480000, 65535)))"
  have n: "scale_convert (from_bits 0x42480000) 65535 = ReadingError 65535" by (simp add: scale_convert_def ERROR_FLOOR_def)
  then have "\<not> in_range (0x42480000, 65535)" "latest_distance (replicate k (0x42480000, 65535)) 5 = 5" for k
    by (simp add: in_range_def, induction k) (simp_all add: latest_distance_def n)
  then show ?thesis using laser_tracks_stream [of "replicate 9 (0x42480000, 65535)" "[take 4 ?bs, drop 4 ?bs]" zero_counters 5]
    by (simp add: Let_def clean_counters_def zero_counters_def list_all_iff)
qed

text \<open>
  Whatever arrives, errors included, the published distance is only ever replaced by the distance of a raw value
  within the sensor's span.
\<close>

lemma laser_byte_destination:
  "ls_destination (laser_byte r b s) = ls_destination s
     \<or> (\<exists>x. SPAN_LO \<le> x \<and> x \<le> SPAN_HI \<and> ls_destination (laser_byte r b s) = to_bits (scale_mm (from_bits r) x))"
proof -
  obtain p e where e: "push_event b (ls_parser s) = (p, e)" by fastforce
  have keep: "ls_destination (irregular f t) = ls_destination t" "ls_destination (laser_sync t) = ls_destination t"
    "ls_destination (laser_count f t) = ls_destination t" for f t
    by (simp_all add: irregular_def laser_count_def laser_sync_def Let_def)
  show ?thesis
  proof (cases e)
    case (Value v)
    show ?thesis
    proof (cases "\<exists>mm. scale_convert (from_bits r) (rv_value v) = InRange mm")
      case True
      then obtain x where "SPAN_LO \<le> x" "x \<le> SPAN_HI" "scale_convert (from_bits r) (rv_value v) = InRange (scale_mm (from_bits r) x)"
        by (auto simp: scale_convert_def Let_def not_less split: if_splits)
      then show ?thesis using e Value by (auto simp: laser_byte_def laser_value_def keep Let_def)
    next
      case False
      then show ?thesis using e Value by (auto simp: laser_byte_def laser_value_def keep Let_def split: Reading.splits)
    qed
  qed (simp_all add: laser_byte_def e keep)
qed

end
