(* ===== verification/Hot_Spi.thy ===== *)
theory Hot_Spi
  imports Drivers
begin

text \<open>
  The hot-path SPI transport of \<open>firmware/rt/src/analog_spi.rs\<close>: the precomputed clock configuration, the blocking
  transfer and the AD5064 writer on top of it. The SSP peripheral is a parameter: its registers are functions on a
  hardware state, and a loop that polls them may run forever, so it returns an option. What the data sheet says of a
  full-duplex SSP is the hypothesis \<open>ssp_laws\<close>.
\<close>

subsection \<open>Clock configuration\<close>

datatype Polarity = IdleLow | IdleHigh
datatype Phase = CaptureOnFirstTransition | CaptureOnSecondTransition

record HotSpiConfig =
  hs_frequency :: u32
  hs_polarity :: Polarity
  hs_phase :: Phase

record RawSpiConfig =
  rs_cpsr :: u8
  rs_scr :: u8
  rs_cpol :: bool
  rs_cpha :: bool

definition div_ceil :: "u32 \<Rightarrow> u32 \<Rightarrow> u32" where
  "div_ceil a b = (if a mod b = 0 then a div b else a div b + 1)"

text \<open>\<open>None\<close> is a division by zero or the failed assertion that the frequency can be reached.\<close>

definition raw_spi_config_new :: "u32 \<Rightarrow> u32 \<Rightarrow> bool \<Rightarrow> bool \<Rightarrow> RawSpiConfig option" where
  "raw_spi_config_new clk_peri freq cpol cpha =
     (if freq * 2 = 0 then None
      else let ratio = div_ceil clk_peri (freq * 2)
           in if \<not> (1 \<le> ratio \<and> ratio \<le> 127 * 256) then None
              else let presc = div_ceil ratio 256;
                       postdiv = (if presc = 1 then ratio else div_ceil ratio presc)
                   in Some \<lparr>rs_cpsr = ucast (presc * 2), rs_scr = ucast (postdiv - 1), rs_cpol = cpol, rs_cpha = cpha\<rparr>)"

definition hot_spi_raw :: "u32 \<Rightarrow> HotSpiConfig \<Rightarrow> RawSpiConfig option" where
  "hot_spi_raw clk_peri c =
     raw_spi_config_new clk_peri (hs_frequency c) (hs_polarity c = IdleHigh) (hs_phase c = CaptureOnSecondTransition)"

subsection \<open>The transfer\<close>

record SspStatus =
  sr_tnf :: bool
  sr_rne :: bool
  sr_bsy :: bool

text \<open>The registers: control, prescaler and format writes, status reads, the data register, and the chip select pin.\<close>

record 'h Ssp =
  ss_cr1 :: "bool \<Rightarrow> 'h \<Rightarrow> 'h"
  ss_cpsr :: "u8 \<Rightarrow> 'h \<Rightarrow> 'h"
  ss_cr0 :: "u8 \<Rightarrow> bool \<Rightarrow> bool \<Rightarrow> u8 \<Rightarrow> 'h \<Rightarrow> 'h"
  ss_status :: "'h \<Rightarrow> 'h \<times> SspStatus"
  ss_write :: "u8 \<Rightarrow> 'h \<Rightarrow> 'h"
  ss_read :: "'h \<Rightarrow> 'h \<times> u8"
  ss_cs :: "bool \<Rightarrow> 'h \<Rightarrow> 'h"

partial_function (option) drain_rx :: "'h Ssp \<Rightarrow> 'h \<Rightarrow> 'h option" where
  "drain_rx H h =
     (let (h1, s) = ss_status H h in if sr_rne s then drain_rx H (fst (ss_read H h1)) else Some h1)"

text \<open>The transmit half of one round of the loop.\<close>

definition exchange_send :: "'h Ssp \<Rightarrow> bytes \<Rightarrow> nat \<Rightarrow> 'h \<Rightarrow> nat \<times> 'h" where
  "exchange_send H buf tx h =
     (if tx < length buf
      then (let (h1, s) = ss_status H h in if sr_tnf s then (tx + 1, ss_write H (buf ! tx) h1) else (tx, h1))
      else (tx, h))"

partial_function (option) exchange :: "'h Ssp \<Rightarrow> bytes \<Rightarrow> nat \<Rightarrow> nat \<Rightarrow> 'h \<Rightarrow> (bytes \<times> 'h) option" where
  "exchange H buf tx rx h =
     (if \<not> rx < length buf then Some (buf, h)
      else let (tx1, h1) = exchange_send H buf tx h;
               (h2, s2) = ss_status H h1
           in if sr_rne s2 then (let (h3, b) = ss_read H h2 in exchange H (buf[rx := b]) tx1 (rx + 1) h3)
              else exchange H buf tx1 rx h2)"

partial_function (option) wait_idle :: "'h Ssp \<Rightarrow> 'h \<Rightarrow> 'h option" where
  "wait_idle H h = (let (h1, s) = ss_status H h in if sr_bsy s then wait_idle H h1 else Some h1)"

definition transfer_in_place :: "'h Ssp \<Rightarrow> RawSpiConfig \<Rightarrow> bytes \<Rightarrow> 'h \<Rightarrow> (bytes \<times> 'h) option" where
  "transfer_in_place H cfg buf h =
     (let h1 = ss_cr1 H False h; h2 = ss_cpsr H (rs_cpsr cfg) h1; h3 = ss_cr0 H 7 (rs_cpol cfg) (rs_cpha cfg) (rs_scr cfg) h2;
          h4 = ss_cr1 H True h3
      in Option.bind (drain_rx H h4) (\<lambda>h5.
         Option.bind (exchange H buf 0 0 (ss_cs H False h5)) (\<lambda>(buf', h6).
         Option.bind (wait_idle H h6) (\<lambda>h7. Some (buf', ss_cs H True h7)))))"

record SramAd5064 =
  sa_config :: RawSpiConfig
  sa_polarity :: "ChannelPolarity list"
  sa_vref :: f32

text \<open>\<open>SramAd5064::new\<close> asserts its reference voltage.\<close>

definition sram_ad5064_new :: "RawSpiConfig \<Rightarrow> ChannelPolarity list \<Rightarrow> f32 \<Rightarrow> SramAd5064 option" where
  "sram_ad5064_new device polarity vref =
     (if is_finite vref \<and> f32_lt f32_0 vref then Some \<lparr>sa_config = device, sa_polarity = polarity, sa_vref = vref\<rparr> else None)"

text \<open>\<open>None\<close> is also the panic of a channel out of range.\<close>

definition sram_write_volts :: "'h Ssp \<Rightarrow> SramAd5064 \<Rightarrow> nat \<Rightarrow> f32 \<Rightarrow> 'h \<Rightarrow> 'h option" where
  "sram_write_volts H d channel volts h =
     (case get_at (sa_polarity d) channel of
        None \<Rightarrow> None
      | Some polarity \<Rightarrow>
          let code = code_for_volts volts polarity (sa_vref d);
              word = ad5064_frame WriteAndUpdate (of_nat channel) code
          in map_option snd (transfer_in_place H (sa_config d) word h))"

subsection \<open>The clock never exceeds what was asked for\<close>

lemma div_ceil_unat:
  assumes "0 < b"
  shows "unat (div_ceil a b) = (unat a + unat b - 1) div unat b"
proof -
  let ?a = "unat a" and ?b = "unat b"
  have b: "0 < ?b" using assms by (simp add: word_less_nat_alt)
  have m: "a mod b = 0 \<longleftrightarrow> ?a mod ?b = 0" by (simp add: unat_mod word_unat_eq_iff)
  show ?thesis
  proof (cases "?a mod ?b = 0")
    case True
    then obtain q where q: "?a = ?b * q" by auto
    have "(?b * q + ?b - 1) div ?b = q"
      using b by (intro div_nat_eqI) (simp_all add: algebra_simps)
    then show ?thesis using True m q b by (simp add: div_ceil_def unat_div)
  next
    case False
    define q r where "q = ?a div ?b" and "r = ?a mod ?b"
    have "?a = ?b * q + r" "r < ?b" "0 < r" using b False by (simp_all add: q_def r_def)
    then have "(?a + ?b - 1) div ?b = q + 1" by (intro div_nat_eqI) simp_all
    then have "(?a + ?b - 1) div ?b = ?a div ?b + 1" by (simp add: q_def)
    moreover have "1 < ?b" using False b by (cases "?b = 1") auto
    then have "?a div ?b + 1 \<le> ?a" using False div_less_dividend [of ?b ?a] by (cases "?a = 0") (auto simp: Suc_le_eq)
    then have "unat (a div b + 1) = ?a div ?b + 1"
      using unat_u32_bound [of a] by (simp add: unat_word_ariths unat_div)
    ultimately show ?thesis using False m by (simp add: div_ceil_def)
  qed
qed

lemma ceil_bounds: "0 < b \<Longrightarrow> a \<le> b * ((a + b - 1) div b) \<and> b * ((a + b - 1) div b) < a + b" for a b :: nat
proof -
  assume b: "0 < b"
  have "b * ((a + b - 1) div b) = a + b - 1 - (a + b - 1) mod b" by (simp add: minus_mod_eq_mult_div)
  moreover have "(a + b - 1) mod b < b" using b by simp
  ultimately show ?thesis by linarith
qed


text \<open>
  The raw configuration of a reachable frequency: an even prescaler from 2 to 254 and a post-divider from 1 to 256,
  both unchanged by the casts to \<open>u8\<close>, whose product divides the peripheral clock to at most the frequency asked for.
\<close>

lemma spi_clock_bounded:
  assumes "raw_spi_config_new clk freq cpol cpha = Some c" "freq < 2 ^ 31"
  shows "even (unat (rs_cpsr c)) \<and> 2 \<le> unat (rs_cpsr c) \<and> unat (rs_cpsr c) \<le> 254
    \<and> unat clk \<le> unat freq * (unat (rs_cpsr c) * (unat (rs_scr c) + 1))"
proof -
  define ratio where "ratio = div_ceil clk (freq * 2)"
  define presc where "presc = div_ceil ratio 256"
  define postdiv where "postdiv = (if presc = 1 then ratio else div_ceil ratio presc)"
  have f: "unat (freq * 2) = unat freq * 2" using assms(2) by (simp add: unat_word_ariths word_less_nat_alt)
  have c: "freq * 2 \<noteq> 0" "1 \<le> ratio" "ratio \<le> 127 * 256"
    "c = \<lparr>rs_cpsr = ucast (presc * 2), rs_scr = ucast (postdiv - 1), rs_cpol = cpol, rs_cpha = cpha\<rparr>"
    using assms(1) by (auto simp: raw_spi_config_new_def Let_def ratio_def presc_def postdiv_def split: if_splits)
  have r: "1 \<le> unat ratio" "unat ratio \<le> 32512" using c(2,3) by (simp_all add: word_le_nat_alt)
  have f0: "0 < unat freq * 2" using c(1) f by (metis neq0_conv unat_eq_zero)
  have "0 < freq * 2" using c(1) by (simp add: word_neq_0_conv)
  from div_ceil_unat [OF this] have ur: "unat ratio = (unat clk + unat freq * 2 - 1) div (unat freq * 2)" by (simp only: ratio_def f)
  have k: "unat clk \<le> unat freq * 2 * unat ratio" using ceil_bounds [OF f0, of "unat clk"] by (simp only: ur)
  have up: "unat presc = (unat ratio + 256 - 1) div 256" using div_ceil_unat [of 256 ratio] by (simp add: presc_def)
  have p: "1 \<le> unat presc" "unat presc \<le> 127" "unat ratio \<le> 256 * unat presc" using r ceil_bounds [of 256 "unat ratio"] unfolding up by auto
  then have "0 < presc" by (simp add: word_less_nat_alt)
  then have "unat (div_ceil ratio presc) = (unat ratio + unat presc - 1) div unat presc" by (rule div_ceil_unat)
  with ceil_bounds [of "unat presc" "unat ratio"] p
  have d: "unat ratio \<le> unat presc * unat (div_ceil ratio presc)" "unat presc * unat (div_ceil ratio presc) < unat ratio + unat presc" by auto
  have q: "unat ratio \<le> unat presc * unat postdiv" "unat presc * unat postdiv < unat ratio + unat presc"
    using d by (auto simp: postdiv_def)
  then have "unat presc * unat postdiv < unat presc * 257" using p(3) by linarith
  then have pd: "unat postdiv \<le> 256" by simp
  have pd1: "1 \<le> unat postdiv" using q(1) r(1) by (cases "unat postdiv") auto
  then have "postdiv \<noteq> 0" by auto
  then have scr: "unat (rs_scr c) = unat postdiv - 1" using pd pd1
    by (simp add: c(4) unsigned_ucast_eq unat_minus_one take_bit_nat_eq_self)
  have "unat (presc * 2) = unat presc * 2" using p(2) by (simp add: unat_word_ariths)
  then have cpsr: "unat (rs_cpsr c) = unat presc * 2" using p(2) by (simp add: c(4) unsigned_ucast_eq take_bit_nat_eq_self)
  have "unat freq * 2 * unat ratio \<le> unat freq * 2 * (unat presc * unat postdiv)" using q(1) by (rule mult_le_mono2)
  also have "\<dots> = unat freq * (unat (rs_cpsr c) * (unat (rs_scr c) + 1))" using pd1 by (simp add: cpsr scr)
  finally have "unat clk \<le> unat freq * (unat (rs_cpsr c) * (unat (rs_scr c) + 1))" by (rule order_trans [OF k])
  then show ?thesis using p cpsr by simp
qed


subsection \<open>The transfer sends exactly its bytes\<close>

text \<open>
  What is assumed of the peripheral, over an abstraction of its state: \<open>pending\<close> counts the bytes written whose
  answer was not read yet, \<open>wire\<close> lists the bytes written with the level of the chip select, \<open>delay\<close> bounds how
  often the status can be read without progress, and \<open>idle\<close> says that no byte is in flight. A status read changes
  none of them but the delay; the receive buffer is not empty only when an answer is pending, and when nothing is
  in flight exactly then; with nothing pending there is room to transmit; and while an answer is awaited or the
  bus is busy the delay falls.
\<close>

record 'h ssp_view =
  v_pending :: "'h \<Rightarrow> nat"
  v_wire :: "'h \<Rightarrow> (bool \<times> u8) list"
  v_selected :: "'h \<Rightarrow> bool"
  v_delay :: "'h \<Rightarrow> nat"
  v_idle :: "'h \<Rightarrow> bool"

definition same_bus :: "'h ssp_view \<Rightarrow> 'h \<Rightarrow> 'h \<Rightarrow> bool" where
  "same_bus V h h' \<longleftrightarrow> v_pending V h' = v_pending V h \<and> v_wire V h' = v_wire V h \<and> v_selected V h' = v_selected V h \<and> (v_idle V h \<longrightarrow> v_idle V h')"

definition ssp_status_law :: "'h Ssp \<Rightarrow> 'h ssp_view \<Rightarrow> bool" where
  "ssp_status_law H V \<longleftrightarrow> (\<forall>h h' s. ss_status H h = (h', s) \<longrightarrow> same_bus V h h' \<and> v_delay V h' \<le> v_delay V h
     \<and> (sr_rne s \<longrightarrow> 0 < v_pending V h) \<and> (v_idle V h \<and> 0 < v_pending V h \<longrightarrow> sr_rne s) \<and> (v_pending V h = 0 \<longrightarrow> sr_tnf s)
     \<and> (0 < v_pending V h \<and> \<not> sr_rne s \<longrightarrow> v_delay V h' < v_delay V h) \<and> (sr_bsy s \<longrightarrow> v_delay V h' < v_delay V h) \<and> (\<not> sr_bsy s \<longrightarrow> v_idle V h'))"

definition ssp_laws :: "'h Ssp \<Rightarrow> 'h ssp_view \<Rightarrow> bool" where
  "ssp_laws H V \<longleftrightarrow> ssp_status_law H V
     \<and> (\<forall>on h. same_bus V h (ss_cr1 H on h)) \<and> (\<forall>x h. same_bus V h (ss_cpsr H x h)) \<and> (\<forall>d p q x h. same_bus V h (ss_cr0 H d p q x h))
     \<and> (\<forall>b h. v_pending V (ss_write H b h) = Suc (v_pending V h) \<and> v_wire V (ss_write H b h) = v_wire V h @ [(v_selected V h, b)]
          \<and> v_selected V (ss_write H b h) = v_selected V h)
     \<and> (\<forall>h. 0 < v_pending V h \<longrightarrow> v_pending V (fst (ss_read H h)) = v_pending V h - 1 \<and> v_wire V (fst (ss_read H h)) = v_wire V h
          \<and> v_selected V (fst (ss_read H h)) = v_selected V h \<and> (v_idle V h \<longrightarrow> v_idle V (fst (ss_read H h))))
     \<and> (\<forall>high h. v_pending V (ss_cs H high h) = v_pending V h \<and> v_wire V (ss_cs H high h) = v_wire V h
          \<and> v_selected V (ss_cs H high h) = (\<not> high) \<and> (v_idle V h \<longrightarrow> v_idle V (ss_cs H high h)))"

lemma status_lawD:
  assumes "ssp_laws H V" "ss_status H h = (h', s)"
  shows "v_pending V h' = v_pending V h" "v_wire V h' = v_wire V h" "v_selected V h' = v_selected V h" "v_idle V h \<Longrightarrow> v_idle V h'"
    "v_delay V h' \<le> v_delay V h" "sr_rne s \<Longrightarrow> 0 < v_pending V h" "v_idle V h \<Longrightarrow> 0 < v_pending V h \<Longrightarrow> sr_rne s" "v_pending V h = 0 \<Longrightarrow> sr_tnf s"
    "0 < v_pending V h \<Longrightarrow> \<not> sr_rne s \<Longrightarrow> v_delay V h' < v_delay V h" "sr_bsy s \<Longrightarrow> v_delay V h' < v_delay V h" "\<not> sr_bsy s \<Longrightarrow> v_idle V h'"
  using assms unfolding ssp_laws_def ssp_status_law_def same_bus_def by blast+

lemma drain_rx_total:
  assumes "ssp_laws H V" "v_idle V h"
  shows "\<exists>h'. drain_rx H h = Some h' \<and> v_pending V h' = 0 \<and> v_wire V h' = v_wire V h"
  using assms(2)
proof (induction "v_pending V h" arbitrary: h rule: less_induct)
  case less
  obtain h1 s where s: "ss_status H h = (h1, s)" by fastforce
  note l = status_lawD [OF assms(1) s]
  show ?case
  proof (cases "sr_rne s")
    case True
    let ?h = "fst (ss_read H h1)"
    have p: "0 < v_pending V h1" using l(1,6) True by simp
    then have "v_pending V ?h = v_pending V h1 - 1 \<and> v_wire V ?h = v_wire V h1 \<and> v_idle V ?h"
      using assms(1) l(4) less.prems unfolding ssp_laws_def by blast
    then obtain h' where "drain_rx H ?h = Some h'" "v_pending V h' = 0" "v_wire V h' = v_wire V ?h" using less.hyps [of ?h] p l(1) by auto
    then show ?thesis using s True l(2) \<open>v_pending V ?h = v_pending V h1 - 1 \<and> v_wire V ?h = v_wire V h1 \<and> v_idle V ?h\<close>
      by (subst drain_rx.simps) simp
  next
    case False
    then show ?thesis using s l(1,2,7) less.prems by (subst drain_rx.simps) auto
  qed
qed

lemma wait_idle_total:
  assumes "ssp_laws H V"
  shows "\<exists>h'. wait_idle H h = Some h' \<and> v_pending V h' = v_pending V h \<and> v_wire V h' = v_wire V h \<and> v_idle V h'"
proof (induction "v_delay V h" arbitrary: h rule: less_induct)
  case less
  obtain h1 s where s: "ss_status H h = (h1, s)" by fastforce
  note l = status_lawD [OF assms s]
  show ?case
  proof (cases "sr_bsy s")
    case True
    from less [OF l(10) [OF True]] l(1,2) show ?thesis using s True by (subst wait_idle.simps) simp
  next
    case False
    then show ?thesis using s l(1,2,11) by (subst wait_idle.simps) simp
  qed
qed


lemma exchange_send_spec:
  assumes "ssp_laws H V" "exchange_send H buf tx h = (tx1, h1)" "tx \<le> length buf" "rx < length buf" "v_pending V h = tx - rx" "rx \<le> tx" "v_selected V h"
  shows "rx \<le> tx1 \<and> tx1 \<le> length buf \<and> v_pending V h1 = tx1 - rx \<and> v_selected V h1
    \<and> v_wire V h1 @ map (Pair True) (drop tx1 buf) = v_wire V h @ map (Pair True) (drop tx buf)
    \<and> (tx1 = Suc tx \<or> tx1 = tx \<and> 0 < v_pending V h1 \<and> v_delay V h1 \<le> v_delay V h)"
proof (cases "tx < length buf")
  case True
  obtain h2 s where s: "ss_status H h = (h2, s)" by fastforce
  note l = status_lawD [OF assms(1) s]
  have w: "v_pending V (ss_write H b h2) = Suc (v_pending V h2)" "v_wire V (ss_write H b h2) = v_wire V h2 @ [(v_selected V h2, b)]"
    "v_selected V (ss_write H b h2) = v_selected V h2" for b using assms(1) unfolding ssp_laws_def by blast+
  show ?thesis
  proof (cases "sr_tnf s")
    case t: True
    then have e: "tx1 = Suc tx" "h1 = ss_write H (buf ! tx) h2" using assms(2) True s by (simp_all add: exchange_send_def)
    have "drop tx buf = buf ! tx # drop (Suc tx) buf" using True by (simp add: Cons_nth_drop_Suc)
    then show ?thesis using e w l assms True by (simp add: Suc_diff_le)
  next
    case f: False
    then have "tx1 = tx" "h1 = h2" using assms(2) True s by (simp_all add: exchange_send_def)
    moreover have "0 < v_pending V h" using f l(8) by (cases "v_pending V h = 0") auto
    ultimately show ?thesis using l(1,2,3,5) assms by simp
  qed
next
  case False
  then show ?thesis using assms by (auto simp: exchange_send_def)
qed

lemma exchange_total:
  assumes "ssp_laws H V" "rx \<le> tx" "tx \<le> length buf" "v_pending V h = tx - rx" "v_selected V h"
  shows "\<exists>buf' h'. exchange H buf tx rx h = Some (buf', h') \<and> length buf' = length buf \<and> v_pending V h' = 0 \<and> v_selected V h'
    \<and> v_wire V h' = v_wire V h @ map (Pair True) (drop tx buf)"
  using assms(2-5)
proof (induction "(2 * length buf - tx - rx, v_delay V h)" arbitrary: buf tx rx h rule: wf_induct_rule [OF wf_lex_prod [OF wf_less_than wf_less_than]])
  case 1
  show ?case
  proof (cases "rx < length buf")
    case False
    then show ?thesis using 1(2-5) by (subst exchange.simps) simp
  next
    case rx: True
    obtain tx1 h1 where e: "exchange_send H buf tx h = (tx1, h1)" by fastforce
    note x = exchange_send_spec [OF assms(1) e 1(3) rx 1(4) 1(2) 1(5)]
    obtain h2 s where s: "ss_status H h1 = (h2, s)" by fastforce
    note l = status_lawD [OF assms(1) s]
    show ?thesis
    proof (cases "sr_rne s")
      case True
      obtain h3 b where b: "ss_read H h2 = (h3, b)" by fastforce
      have p: "0 < v_pending V h2" using l(1,6) True by simp
      then have r: "v_pending V h3 = v_pending V h2 - 1" "v_wire V h3 = v_wire V h2" "v_selected V h3 = v_selected V h2"
        using assms(1) b unfolding ssp_laws_def by (metis fst_conv)+
      have lt: "rx < tx1" using p l(1) x by simp
      then have d: "drop tx1 (buf[rx := b]) = drop tx1 buf" by simp
      have "tx \<le> tx1" using x by auto
      then have "2 * length buf - tx1 - (rx + 1) < 2 * length buf - tx - rx" using x rx by linarith
      then have "((2 * length (buf[rx := b]) - tx1 - (rx + 1), v_delay V h3), (2 * length buf - tx - rx, v_delay V h)) \<in> less_than <*lex*> less_than"
        by simp
      from 1(1) [OF this] obtain buf' h' where "exchange H (buf[rx := b]) tx1 (rx + 1) h3 = Some (buf', h')" "length buf' = length buf"
        "v_pending V h' = 0" "v_selected V h'" "v_wire V h' = v_wire V h3 @ map (Pair True) (drop tx1 buf)"
        using lt x l(1,3) r by (auto simp: d)
      then show ?thesis using rx e s True b x r l(2) by (subst exchange.simps) simp
    next
      case False
      have "((2 * length buf - tx1 - rx, v_delay V h2), (2 * length buf - tx - rx, v_delay V h)) \<in> less_than <*lex*> less_than"
        using x rx l(5) l(9) [OF _ False] 1(2,3) by auto
      from 1(1) [OF this] obtain buf' h' where "exchange H buf tx1 rx h2 = Some (buf', h')" "length buf' = length buf"
        "v_pending V h' = 0" "v_selected V h'" "v_wire V h' = v_wire V h2 @ map (Pair True) (drop tx1 buf)"
        using x l(1,3) by auto
      then show ?thesis using rx e s False x l(2) by (subst exchange.simps) simp
    qed
  qed
qed

lemma same_bus_trans: "same_bus V a b \<Longrightarrow> same_bus V b c \<Longrightarrow> same_bus V a c"
  by (simp add: same_bus_def)

lemma transfer_total:
  assumes "ssp_laws H V" "v_idle V h"
  shows "\<exists>buf' h'. transfer_in_place H cfg buf h = Some (buf', h') \<and> length buf' = length buf \<and> v_pending V h' = 0 \<and> v_idle V h'
    \<and> \<not> v_selected V h' \<and> v_wire V h' = v_wire V h @ map (Pair True) buf"
proof -
  let ?h4 = "ss_cr1 H True (ss_cr0 H 7 (rs_cpol cfg) (rs_cpha cfg) (rs_scr cfg) (ss_cpsr H (rs_cpsr cfg) (ss_cr1 H False h)))"
  have c: "same_bus V h (ss_cr1 H on h)" "same_bus V h (ss_cpsr H x h)" "same_bus V h (ss_cr0 H d p q x h)" for on x d p q h
    using assms(1) by (simp_all add: ssp_laws_def)
  have "same_bus V h ?h4" by (rule same_bus_trans [OF same_bus_trans [OF same_bus_trans [OF c(1) c(2)] c(3)] c(1)])
  then have "v_idle V ?h4" "v_wire V ?h4 = v_wire V h" using assms(2) by (simp_all add: same_bus_def)
  then obtain h5 where h5: "drain_rx H ?h4 = Some h5" "v_pending V h5 = 0" "v_wire V h5 = v_wire V h"
    using drain_rx_total [OF assms(1), of ?h4] by auto
  have k: "v_pending V (ss_cs H high g) = v_pending V g" "v_wire V (ss_cs H high g) = v_wire V g" "v_selected V (ss_cs H high g) = (\<not> high)"
    "v_idle V g \<Longrightarrow> v_idle V (ss_cs H high g)" for high g using assms(1) by (simp_all add: ssp_laws_def)
  obtain buf' h6 where h6: "exchange H buf 0 0 (ss_cs H False h5) = Some (buf', h6)" "length buf' = length buf" "v_pending V h6 = 0"
    "v_wire V h6 = v_wire V h5 @ map (Pair True) buf"
    using exchange_total [OF assms(1), of 0 0 buf "ss_cs H False h5"] k h5(2) by auto
  obtain h7 where "wait_idle H h6 = Some h7" "v_pending V h7 = v_pending V h6" "v_wire V h7 = v_wire V h6" "v_idle V h7"
    using wait_idle_total [OF assms(1)] by blast
  then show ?thesis using h5 h6 k by (simp add: transfer_in_place_def Let_def)
qed



text \<open>A loop-back SSP: a byte written can be read at once.\<close>

definition loopback :: "(bytes \<times> bool \<times> (bool \<times> u8) list) Ssp" where
  "loopback = \<lparr>ss_cr1 = (\<lambda>_ h. h), ss_cpsr = (\<lambda>_ h. h), ss_cr0 = (\<lambda>_ _ _ _ h. h),
     ss_status = (\<lambda>(rx, sel, w). ((rx, sel, w), \<lparr>sr_tnf = True, sr_rne = rx \<noteq> [], sr_bsy = False\<rparr>)),
     ss_write = (\<lambda>b (rx, sel, w). (rx @ [b], sel, w @ [(sel, b)])),
     ss_read = (\<lambda>(rx, sel, w). ((tl rx, sel, w), if rx = [] then 0 else hd rx)), ss_cs = (\<lambda>high (rx, sel, w). (rx, \<not> high, w))\<rparr>"

definition loopback_view :: "(bytes \<times> bool \<times> (bool \<times> u8) list) ssp_view" where
  "loopback_view = \<lparr>v_pending = (\<lambda>(rx, _, _). length rx), v_wire = (\<lambda>(_, _, w). w), v_selected = (\<lambda>(_, sel, _). sel),
     v_delay = (\<lambda>_. 0), v_idle = (\<lambda>_. True)\<rparr>"

lemma loopback_laws: "ssp_laws loopback loopback_view"
  by (auto simp: ssp_laws_def ssp_status_law_def same_bus_def loopback_def loopback_view_def)


end
