(* ===== verification/Pico_Rig.thy ===== *)
theory Pico_Rig
  imports Rt_Loop Rt_Params Hot_Spi
begin

text \<open>
  The experiment \<open>firmware/experiments/pico2w-rig\<close>: the rig (\<open>rig.rs\<close>), its compile-time choices (\<open>config.rs\<close>), its telemetry
  (\<open>telemetry.rs\<close>) and the composition that \<open>main.rs\<close> makes of the library at start-up. The SSP of the hot path and the
  Embassy SPI device of the cold path are parameters, as are the PWM counter and the tick pin. The atomics that the laser task
  shares with the rig are fields of the rig's state. A method that panics, or a transfer that never ends, marks the rig as stuck.
\<close>

subsection \<open>Configuration and telemetry\<close>

definition PICO_EXPERIMENT :: bytes where "PICO_EXPERIMENT = as_bytes ''pico2w-rig''"
definition PICO_TABLE_CAPACITY :: nat where "PICO_TABLE_CAPACITY = 4096"
definition PICO_HARMONICS :: nat where "PICO_HARMONICS = 16"
definition PICO_OUTPUT_CHANNEL :: nat where "PICO_OUTPUT_CHANNEL = 0"
definition PICO_LASER_RANGE_MM :: f32 where "PICO_LASER_RANGE_MM = f32_lit 50 1"
definition PICO_SAMPLE_RATE :: SampleRate where "PICO_SAMPLE_RATE = Hz8000"

abbreviation PicoProgram :: "unit StandardProgram Program" where
  "PicoProgram \<equiv> StandardProgramOf PassThrough"

text \<open>The telemetry statics, by their slot.\<close>

definition PICO_EXTRA_PARAMS :: "ExtraParam list" where
  "PICO_EXTRA_PARAMS = [extra_f32 (as_bytes ''laser'') 0, extra_u32 (as_bytes ''laser_frames_received'') 1,
     extra_u32_event (as_bytes ''laser_uart_errors'') 2, extra_u32_event (as_bytes ''laser_parse_errors'') 3,
     extra_u32_event (as_bytes ''laser_invalid_frames'') 4, extra_u32_event (as_bytes ''laser_unexpected_values'') 5,
     extra_u32_event (as_bytes ''laser_sync_errors'') 6]"

subsection \<open>The rig\<close>

definition DAC_VREF :: f32 where "DAC_VREF = f32_lit 4096 1000"
definition DAC_SPI_CONFIG :: HotSpiConfig where
  "DAC_SPI_CONFIG = \<lparr>hs_frequency = 16000000, hs_polarity = IdleLow, hs_phase = CaptureOnSecondTransition\<rparr>"
definition DAC_POLARITY :: "ChannelPolarity list" where "DAC_POLARITY = [Unipolar, Unipolar, Unipolar, Unipolar]"

text \<open>What the rig is given of the board.\<close>

record 'h PicoBoard =
  pb_ssp :: "'h Ssp"
  pb_spi :: "bytes \<Rightarrow> 'h \<Rightarrow> 'h \<times> (unit + unit)"
  pb_delay :: "u32 \<Rightarrow> 'h \<Rightarrow> 'h"
  pb_tick_pin :: "bool \<Rightarrow> 'h \<Rightarrow> 'h"
  pb_pwm_ctr :: "'h \<Rightarrow> u16"

record 'h PicoDacRig =
  px_dac :: Ad5064
  px_output_channel :: nat
  px_dac_raw :: SramAd5064
  px_pwm_divider :: u32
  px_laser_value :: u32
  px_laser_range_mm :: u32
  px_hw :: 'h
  px_stuck :: bool

definition pico_build :: "u32 \<Rightarrow> SampleRate \<Rightarrow> u32 \<Rightarrow> 'h \<Rightarrow> 'h PicoDacRig option" where
  "pico_build clk_peri rate laser_range hw =
     (case hot_spi_raw clk_peri DAC_SPI_CONFIG of
        None \<Rightarrow> None
      | Some raw \<Rightarrow>
          (case sram_ad5064_new raw DAC_POLARITY DAC_VREF of
             None \<Rightarrow> None
           | Some dac_raw \<Rightarrow>
               Some \<lparr>px_dac = \<lparr>ad_polarity = DAC_POLARITY, ad_vref = DAC_VREF\<rparr>, px_output_channel = PICO_OUTPUT_CHANNEL, px_dac_raw = dac_raw,
                 px_pwm_divider = ucast (fst (sr_pwm_params rate)), px_laser_value = 0, px_laser_range_mm = laser_range, px_hw = hw, px_stuck = False\<rparr>))"

definition pico_write :: "'h PicoBoard \<Rightarrow> nat \<Rightarrow> f32 \<Rightarrow> 'h PicoDacRig \<Rightarrow> 'h PicoDacRig" where
  "pico_write B channel volts r =
     (case sram_write_volts (pb_ssp B) (px_dac_raw r) channel volts (px_hw r) of
        None \<Rightarrow> r\<lparr>px_stuck := True\<rparr>
      | Some hw \<Rightarrow> r\<lparr>px_hw := hw\<rparr>)"

definition pico_init :: "'h PicoBoard \<Rightarrow> 'h PicoDacRig \<Rightarrow> 'h PicoDacRig" where
  "pico_init B r =
     (case zero_all_with_delay (pb_spi B) (pb_delay B) (px_dac r) (px_hw r) of
        None \<Rightarrow> r\<lparr>px_stuck := True\<rparr>
      | Some (hw, _) \<Rightarrow> r\<lparr>px_hw := hw\<rparr>)"

definition pico_measure :: "f32 list \<Rightarrow> 'h PicoDacRig \<Rightarrow> 'h PicoDacRig \<times> f32 list" where
  "pico_measure values r =
     (if values = [] then (r\<lparr>px_stuck := True\<rparr>, values) else (r, values[0 := from_bits (px_laser_value r)]))"

definition pico_actuate :: "'h PicoBoard \<Rightarrow> f32 list \<Rightarrow> 'h PicoDacRig \<Rightarrow> 'h PicoDacRig" where
  "pico_actuate B outputs r =
     (case outputs of [] \<Rightarrow> r\<lparr>px_stuck := True\<rparr> | out # _ \<Rightarrow> pico_write B (px_output_channel r) out r)"

definition pico_prepare_reboot :: "'h PicoBoard \<Rightarrow> u8 \<Rightarrow> 'h PicoDacRig \<Rightarrow> 'h PicoDacRig \<times> bool" where
  "pico_prepare_reboot B step r = (pico_write B (unat (min step 3)) f32_0 r, 3 \<le> step)"

definition pico_tick_phase_us :: "'h PicoBoard \<Rightarrow> 'h PicoDacRig \<Rightarrow> u32 option" where
  "pico_tick_phase_us B r = Some (ucast (pb_pwm_ctr B (px_hw r)) * px_pwm_divider r div 150)"

definition pico_normalise_param :: "u16 \<Rightarrow> f32 \<Rightarrow> f32 option" where
  "pico_normalise_param ident value =
     (if ident = 0 \<and> is_finite value \<and> f32_lt f32_0 value then Some value
      else if ident = 1 \<and> is_finite value \<and> f32_le f32_0 value \<and> f32_lt value (f32_of_int (int (length DAC_POLARITY)))
              \<and> f32_eq value (f32_of_int (uint (f32_to_u32 value)))
      then Some value
      else None)"

definition pico_set_param :: "u16 \<Rightarrow> f32 \<Rightarrow> 'h PicoDacRig \<Rightarrow> 'h PicoDacRig" where
  "pico_set_param ident value r =
     (if ident = 0 then r\<lparr>px_laser_range_mm := to_bits value\<rparr>
      else if ident = 1 then r\<lparr>px_output_channel := unat (f32_to_u32 value)\<rparr>
      else r)"

definition pico_rig :: "'h PicoBoard \<Rightarrow> 'h PicoDacRig Rig" where
  "pico_rig B = \<lparr>R_INPUTS = [(as_bytes ''laser'', as_bytes ''mm'')], R_ACTUATORS = [(as_bytes ''out'', as_bytes ''V'')], R_SAFETY_GATED = False,
     r_init = pico_init B, r_measure = pico_measure, r_actuate = pico_actuate B, r_prepare_reboot = pico_prepare_reboot B,
     r_clamp_output = default_clamp_output, r_safe_output = default_safe_output, r_output_fault = default_output_fault,
     r_tick_start = (\<lambda>r. r\<lparr>px_hw := pb_tick_pin B True (px_hw r)\<rparr>), r_tick_end = (\<lambda>r. r\<lparr>px_hw := pb_tick_pin B False (px_hw r)\<rparr>),
     r_tick_phase_us = pico_tick_phase_us B, r_param_names = [as_bytes ''rig_laser_range'', as_bytes ''rig_out_channel''],
     r_param_defaults = [PICO_LASER_RANGE_MM, f32_of_int (int PICO_OUTPUT_CHANNEL)], r_normalise_param = pico_normalise_param,
     r_set_param = pico_set_param\<rparr>"

subsection \<open>Start-up (main.rs)\<close>

text \<open>The parameter store: the groups in the order they are pushed, then validation. \<open>None\<close> is a panic.\<close>

definition pico_store :: "'h PicoBoard \<Rightarrow> (f32 \<Rightarrow> f32) \<Rightarrow> bytes \<Rightarrow> ParamStore option" where
  "pico_store B sqrtf version =
     Option.bind (store_push (GPlatform (platform_new PICO_SAMPLE_RATE version PICO_EXPERIMENT)) (store_new [] PICO_SAMPLE_RATE)) (\<lambda>s1.
     Option.bind (generator_group_new sqrtf PICO_HARMONICS PICO_SAMPLE_RATE) (\<lambda>generator.
     Option.bind (store_push (GGenerator generator) s1) (\<lambda>s2.
     Option.bind (store_push (GTable (table_group_new PICO_TABLE_CAPACITY PICO_SAMPLE_RATE)) s2) (\<lambda>s3.
     Option.bind (control_group_new (c_scalar_param_names PassThrough) (c_scalar_param_value PassThrough ())
                    (\<lambda>ident v n. c_normalise_scalar_param PassThrough ident v n) 1) (\<lambda>control.
     Option.bind (store_push (GControl control) s3) (\<lambda>s4.
     Option.bind (rig_group_new (pico_rig B)) (\<lambda>rig.
     Option.bind (store_push (GRig rig) s4) (\<lambda>s5.
     Option.bind (telemetry_new PICO_EXTRA_PARAMS) (\<lambda>telemetry.
     Option.bind (store_push (GTelemetry telemetry) s5) (\<lambda>s6.
     Option.bind (store_validate (P_DOMAINS PicoProgram) s6) (\<lambda>s7.
       if validate_sources (pico_rig B) PicoProgram then Some s7 else None)))))))))))"


subsection \<open>The composition passes its start-up checks\<close>

definition pico_groups :: "'h PicoBoard \<Rightarrow> (f32 \<Rightarrow> f32) \<Rightarrow> bytes \<Rightarrow> Group list" where
  "pico_groups B sqrtf version =
     [GPlatform (platform_new PICO_SAMPLE_RATE version PICO_EXPERIMENT), GGenerator (the (generator_group_new sqrtf PICO_HARMONICS PICO_SAMPLE_RATE)),
      GTable (table_group_new PICO_TABLE_CAPACITY PICO_SAMPLE_RATE),
      GControl (the (control_group_new (c_scalar_param_names PassThrough) (c_scalar_param_value PassThrough ())
                    (\<lambda>ident v n. c_normalise_scalar_param PassThrough ident v n) 1)),
      GRig (the (rig_group_new (pico_rig B))), GTelemetry (the (telemetry_new PICO_EXTRA_PARAMS))]"

definition pico_unvalidated :: "'h PicoBoard \<Rightarrow> (f32 \<Rightarrow> f32) \<Rightarrow> bytes \<Rightarrow> ParamStore" where
  "pico_unvalidated B sqrtf version = \<lparr>ps_commands = [], ps_sample_rate = PICO_SAMPLE_RATE,
     ps_entries = map (\<lambda>g. (g, group_target g)) (pico_groups B sqrtf version), ps_validated = False\<rparr>"

lemma pico_group_news:
  "generator_group_new sqrtf PICO_HARMONICS PICO_SAMPLE_RATE \<noteq> None"
  "control_group_new (c_scalar_param_names PassThrough) (c_scalar_param_value PassThrough ()) (\<lambda>ident v n. c_normalise_scalar_param PassThrough ident v n) 1 \<noteq> None"
  "rig_group_new (pico_rig B) \<noteq> None" "telemetry_new PICO_EXTRA_PARAMS \<noteq> None"
  by (simp_all add: generator_group_new_def PICO_HARMONICS_def MAX_HARMONICS_def control_group_new_def PassThrough_def MAX_CTRL_PARAMS_def
      rig_group_new_def pico_rig_def MAX_RIG_PARAMS_def telemetry_new_def PICO_EXTRA_PARAMS_def MAX_EXTRA_PARAMS_def Let_def)

lemma pico_store_pushes:
  "pico_store B sqrtf version = Option.bind (store_validate (P_DOMAINS PicoProgram) (pico_unvalidated B sqrtf version))
     (\<lambda>s. if validate_sources (pico_rig B) PicoProgram then Some s else None)"
  using pico_group_news(1) [of sqrtf] pico_group_news(2) pico_group_news(3) [of B] pico_group_news(4)
  by (auto simp: pico_store_def store_push_def store_new_def MAX_GROUPS_def pico_unvalidated_def pico_groups_def)

definition pico_params :: "ParamDef list" where
  "pico_params = PLATFORM_PARAMS @ generator_params PICO_HARMONICS @ table_params PICO_TABLE_CAPACITY
     @ map (\<lambda>name. param_writable name TF32 1) [as_bytes ''rig_laser_range'', as_bytes ''rig_out_channel''] @ map extra_def PICO_EXTRA_PARAMS"

lemma pico_registry: "registry (pico_unvalidated B sqrtf version) = pico_params"
  by (simp add: registry_def pico_unvalidated_def pico_groups_def pico_params_def generator_group_new_def PICO_HARMONICS_def MAX_HARMONICS_def
      table_group_new_def control_group_new_def PassThrough_def MAX_CTRL_PARAMS_def rig_group_new_def pico_rig_def MAX_RIG_PARAMS_def
      telemetry_new_def PICO_EXTRA_PARAMS_def MAX_EXTRA_PARAMS_def Let_def)

lemma pico_names:
  "distinct (map pd_name pico_params)"
  "list_all (\<lambda>d. is_ascii (pd_name d) \<and> length (pd_name d) \<le> MAX_PARAM_NAME_LEN \<and> length (pd_name d) + 5 \<le> MAX_PAYLOAD - 4
     \<and> (case pd_kind d of PkBlob maximum \<Rightarrow> maximum \<le> 65535 | _ \<Rightarrow> True)) pico_params"
  by (simp_all add: pico_params_def PLATFORM_PARAMS_def generator_params_def table_params_def PICO_EXTRA_PARAMS_def extra_def_def extra_f32_def extra_u32_def
      extra_u32_event_def param_read_only_def param_writable_def param_blob_def as_bytes_def is_ascii_def MAX_PARAM_NAME_LEN_def MAX_PAYLOAD_def
      PICO_TABLE_CAPACITY_def PICO_HARMONICS_def)

lemma pico_store_valid: "store_validate (P_DOMAINS PicoProgram) (pico_unvalidated B sqrtf version) = Some ((pico_unvalidated B sqrtf version)\<lparr>ps_validated := True\<rparr>)"
proof -
  let ?s = "pico_unvalidated B sqrtf version"
  have "length pico_params \<le> 65535"
    by (simp add: pico_params_def PLATFORM_PARAMS_def generator_params_def table_params_def PICO_EXTRA_PARAMS_def)
  then have t: "total_count ?s \<le> 65535" by (simp add: total_count_registry pico_registry)
  have "names_valid ?s" unfolding names_valid_iff [OF t] pico_registry using pico_names by blast
  moreover have "domains_valid ?s (P_DOMAINS PicoProgram)"
    by (simp add: domains_valid_def domain_claims_def pico_unvalidated_def pico_groups_def StandardProgramOf_def DOMAIN_RIG_def DOMAIN_TABLE_def
        DOMAIN_GENERATOR_def DOMAIN_CONTROLLER_def)
  ultimately show ?thesis using t by (simp add: store_validate_def) (simp add: pico_unvalidated_def)
qed

lemma distinct_earlier: "distinct ys \<longleftrightarrow> (\<forall>i < length ys. \<forall>j < i. ys ! j \<noteq> ys ! i)"
proof (induction ys rule: rev_induct)
  case (snoc y ys)
  have "(\<forall>i < length ys. \<forall>j < i. (ys @ [y]) ! j \<noteq> (ys @ [y]) ! i) \<longleftrightarrow> distinct ys" unfolding snoc.IH by (auto simp: nth_append)
  moreover have "(\<forall>j < length ys. (ys @ [y]) ! j \<noteq> y) \<longleftrightarrow> y \<notin> set ys" by (auto simp: nth_append in_set_conv_nth)
  ultimately show ?case by (auto simp: All_less_Suc nth_append)
qed simp

lemma sources_as_list:
  assumes "map (source R P) [0..<source_count R P] = map Some xs"
  shows "source_texts_ok R P \<longleftrightarrow> distinct (map fst xs)
      \<and> list_all (\<lambda>(name, unit). length name \<le> MAX_NAME_LEN \<and> length unit \<le> MAX_UNIT_LEN \<and> is_ascii name \<and> is_ascii unit) xs"
    and "source_encoded_len R P = sum_list (map (\<lambda>(name, unit). length name + length unit + 2) xs)"
proof -
  have l: "source_count R P = length xs" using arg_cong [OF assms, of length] by simp
  have n: "source R P i = Some (xs ! i)" if "i < length xs" for i using arg_cong [OF assms, of "\<lambda>ys. ys ! i"] that l by simp
  have d: "distinct (map fst xs) \<longleftrightarrow> (\<forall>i < length xs. \<forall>j < i. fst (xs ! j) \<noteq> fst (xs ! i))"
    using distinct_earlier [of "map fst xs"] by (auto simp: order.strict_trans)
  have cong: "(\<forall>i \<in> set [0..<k]. Q i) \<longleftrightarrow> (\<forall>i < k. Q' i)" if "\<And>i. i < k \<Longrightarrow> Q i = Q' i" for Q Q' and k :: nat using that by auto
  have conj: "(\<forall>i < k. A i \<and> B i) \<longleftrightarrow> (\<forall>i < k. B i) \<and> (\<forall>i < k. A i)" for A B and k :: nat by auto
  let ?ok = "\<lambda>(name, unit). length name \<le> MAX_NAME_LEN \<and> length unit \<le> MAX_UNIT_LEN \<and> is_ascii name \<and> is_ascii unit"
  have j: "(\<forall>j \<in> set [0..<i]. map_option fst (source R P j) \<noteq> Some name) \<longleftrightarrow> (\<forall>j < i. fst (xs ! j) \<noteq> name)" if "i < length xs" for i name
    using that by (intro cong) (simp add: n)
  have "source_texts_ok R P \<longleftrightarrow> (\<forall>i < length xs. ?ok (xs ! i) \<and> (\<forall>j < i. fst (xs ! j) \<noteq> fst (xs ! i)))"
    unfolding source_texts_ok_def l
  proof (rule cong)
    fix i assume i: "i < length xs"
    obtain name un where x: "xs ! i = (name, un)" by (cases "xs ! i")
    show "(case source R P i of None \<Rightarrow> False | Some (name, unit) \<Rightarrow> length name \<le> MAX_NAME_LEN \<and> length unit \<le> MAX_UNIT_LEN \<and> is_ascii name \<and> is_ascii unit
        \<and> (\<forall>j \<in> set [0..<i]. map_option fst (source R P j) \<noteq> Some name)) \<longleftrightarrow> ?ok (xs ! i) \<and> (\<forall>j < i. fst (xs ! j) \<noteq> fst (xs ! i))"
      unfolding n [OF i] x by (simp only: option.case prod.case j [OF i] fst_conv conj_assoc)
  qed
  then show "source_texts_ok R P \<longleftrightarrow> distinct (map fst xs) \<and> list_all ?ok xs" 
    unfolding d list_all_length using conj [of "length xs" "\<lambda>i. ?ok (xs ! i)" "\<lambda>i. \<forall>j < i. fst (xs ! j) \<noteq> fst (xs ! i)"] by (rule trans)
  have "source_encoded_len R P = sum_list (map (\<lambda>i. case xs ! i of (name, unit) \<Rightarrow> length name + length unit + 2) [0..<length xs])"
    unfolding source_encoded_len_def l by (rule arg_cong [of _ _ sum_list]) (auto simp: n)
  also have "map (\<lambda>i. case xs ! i of (name, unit) \<Rightarrow> length name + length unit + 2) [0..<length xs] = map (\<lambda>(name, unit). length name + length unit + 2) xs"
    by (rule nth_equalityI) auto
  finally show "source_encoded_len R P = sum_list (map (\<lambda>(name, unit). length name + length unit + 2) xs)" .
qed

lemma pico_sources: "validate_sources (pico_rig B) PicoProgram"
proof -
  have c: "source_count (pico_rig B) PicoProgram = 7"
    by (simp add: source_count_def pico_rig_def StandardProgramOf_def standard_signal_count_def PassThrough_def standard_signals_def)
  have u: "[0..<7] = [0, 1, 2, 3, 4, 5, 6 :: nat]" by (simp add: upt_rec numeral_eq_Suc)
  have s: "map (source (pico_rig B) PicoProgram) [0..<source_count (pico_rig B) PicoProgram] = map Some [(as_bytes ''laser'', as_bytes ''mm''), (as_bytes ''target'', as_bytes ''V''),
      (as_bytes ''forcing'', as_bytes ''V''), (as_bytes ''table'', as_bytes ''V''), (as_bytes ''phase'', as_bytes ''turn''), (as_bytes ''out'', as_bytes ''V''), COMMAND_EPOCH_SOURCE]"
    unfolding c u by (simp add: source_def pico_rig_def StandardProgramOf_def standard_signal_count_def standard_signal_def PassThrough_def standard_signals_def
        get_at_def checked_sub_def Let_def)
  have "source_texts_ok (pico_rig B) PicoProgram" "source_encoded_len (pico_rig B) PicoProgram \<le> DISCOVERY_HEADROOM"
    unfolding sources_as_list [OF s]
    by (simp_all add: COMMAND_EPOCH_SOURCE_def MAX_NAME_LEN_def MAX_UNIT_LEN_def is_ascii_def as_bytes_def DISCOVERY_HEADROOM_def MAX_PAYLOAD_def)
  then show ?thesis using c
    by (simp add: validate_sources_def MAX_STREAM_SOURCES_def MAX_ACTUATORS_def pico_rig_def StandardProgramOf_def PassThrough_def)
qed

lemma dac_vref_ok: "is_finite DAC_VREF \<and> f32_lt f32_0 DAC_VREF"
  unfolding DAC_VREF_def by code_simp

lemma pico_built: "\<exists>raw. pico_build 150000000 rate laser hw = Some \<lparr>px_dac = \<lparr>ad_polarity = DAC_POLARITY, ad_vref = DAC_VREF\<rparr>,
    px_output_channel = 0, px_dac_raw = \<lparr>sa_config = raw, sa_polarity = DAC_POLARITY, sa_vref = DAC_VREF\<rparr>,
    px_pwm_divider = ucast (fst (sr_pwm_params rate)), px_laser_value = 0, px_laser_range_mm = laser, px_hw = hw, px_stuck = False\<rparr>"
proof -
  have "hot_spi_raw 150000000 DAC_SPI_CONFIG \<noteq> None"
    by (simp add: hot_spi_raw_def DAC_SPI_CONFIG_def raw_spi_config_new_def div_ceil_def Let_def)
  then show ?thesis using dac_vref_ok by (auto simp: pico_build_def sram_ad5064_new_def PICO_OUTPUT_CHANNEL_def)
qed



subsection \<open>The rig never gets stuck\<close>

text \<open>What is assumed of the board: the SSP keeps its laws, and the other peripherals leave its bus alone.\<close>

definition board_laws :: "'h PicoBoard \<Rightarrow> 'h ssp_view \<Rightarrow> bool" where
  "board_laws B V \<longleftrightarrow> ssp_laws (pb_ssp B) V \<and> (\<forall>on h. same_bus V h (pb_tick_pin B on h))"

definition rig_ok :: "'h ssp_view \<Rightarrow> 'h PicoDacRig \<Rightarrow> bool" where
  "rig_ok V r \<longleftrightarrow> \<not> px_stuck r \<and> px_output_channel r < 4 \<and> sa_polarity (px_dac_raw r) = DAC_POLARITY \<and> v_idle V (px_hw r)"

definition rig_wire :: "'h ssp_view \<Rightarrow> 'h PicoDacRig \<Rightarrow> (bool \<times> u8) list" where
  "rig_wire V r = v_wire V (px_hw r)"

text \<open>The frame that sets one channel, as the chip sees it: selected.\<close>

definition dac_frame :: "'h PicoDacRig \<Rightarrow> nat \<Rightarrow> f32 \<Rightarrow> (bool \<times> u8) list" where
  "dac_frame r channel volts =
     map (Pair True) (ad5064_frame WriteAndUpdate (of_nat channel) (code_for_volts volts Unipolar (sa_vref (px_dac_raw r))))"

lemma pico_write_ok:
  assumes "board_laws B V" "rig_ok V r" "channel < 4"
  shows "rig_ok V (pico_write B channel volts r) \<and> rig_wire V (pico_write B channel volts r) = rig_wire V r @ dac_frame r channel volts
    \<and> px_dac_raw (pico_write B channel volts r) = px_dac_raw r"
proof -
  let ?f = "ad5064_frame WriteAndUpdate (of_nat channel) (code_for_volts volts Unipolar (sa_vref (px_dac_raw r)))"
  have u: "\<forall>k < 4. DAC_POLARITY ! k = Unipolar" by (simp add: DAC_POLARITY_def All_less_Suc numeral_eq_Suc)
  obtain buf h' where "transfer_in_place (pb_ssp B) (sa_config (px_dac_raw r)) ?f (px_hw r) = Some (buf, h')" "v_idle V h'"
    "v_wire V h' = v_wire V (px_hw r) @ map (Pair True) ?f"
    using transfer_total [of "pb_ssp B" V "px_hw r" "sa_config (px_dac_raw r)" ?f] assms(1,2) by (auto simp: board_laws_def rig_ok_def)
  moreover have "length DAC_POLARITY = 4" by (simp add: DAC_POLARITY_def)
  ultimately show ?thesis using assms u
    by (simp add: pico_write_def sram_write_volts_def get_at_def rig_ok_def rig_wire_def dac_frame_def Let_def)
qed

text \<open>The reboot path: every iteration of the hot loop quiets one channel.\<close>

fun hot_iterations :: "'r Rig \<Rightarrow> 'p Program \<Rightarrow> (bool \<times> TickTimes) list \<Rightarrow> ('r, 'p) loop_state \<Rightarrow> ('r, 'p) loop_state option" where
  "hot_iterations R P [] s = Some s"
| "hot_iterations R P ((wait_ok, t) # rest) s = Option.bind (hot_iteration R P wait_ok t s) (hot_iterations R P rest)"

lemma reboot_step:
  assumes "reboot_is_requested (sh_reboot (w_shared (rl_world s)))" "step < 3"
  shows "\<exists>s'. hot_iteration (pico_rig B) P ok t (Running s step) = Some (Running s' (step + 1))
    \<and> rl_rig s' = pico_write B (unat step) f32_0 (rl_rig s) \<and> reboot_is_requested (sh_reboot (w_shared (rl_world s')))"
proof -
  have n: "\<not> 3 \<le> step" "min step 3 = step" using assms(2) by (simp_all add: not_le)
  have "step = 0 \<or> step = 1 \<or> step = 2" using assms(2) by (auto simp: word_less_nat_alt word_unat_eq_iff)
  then have "saturating_add step 1 = step + 1" by (elim disjE) (simp_all add: saturating_add_def)
  with n have "min step 3 = step" "\<not> 3 \<le> step" "saturating_add step 1 = step + 1" by simp_all
  then show ?thesis using assms(1)
    by (simp add: pico_rig_def pico_prepare_reboot_def count_timeout_def map_diagnostics_def Let_def)
qed

lemma reboot_last_step:
  assumes "reboot_is_requested (sh_reboot (w_shared (rl_world s)))"
  shows "\<exists>s'. hot_iteration (pico_rig B) P ok t (Running s 3) = Some (Quiesced s')
    \<and> rl_rig s' = pico_write B 3 f32_0 (rl_rig s) \<and> reboot_is_quiesced (sh_reboot (w_shared (rl_world s')))"
  using assms by (simp add: pico_rig_def pico_prepare_reboot_def count_timeout_def map_diagnostics_def reboot_mark_quiesced_def
      reboot_is_quiesced_def Let_def)


text \<open>A board whose bus loops back, with a reboot requested.\<close>

definition loopback_board :: "(bytes \<times> bool \<times> (bool \<times> u8) list) PicoBoard" where
  "loopback_board = \<lparr>pb_ssp = loopback, pb_spi = (\<lambda>_ h. (h, Inr ())), pb_delay = (\<lambda>_ h. h), pb_tick_pin = (\<lambda>_ h. h), pb_pwm_ctr = (\<lambda>_. 0)\<rparr>"

lemma loopback_board_laws: "board_laws loopback_board loopback_view"
  using loopback_laws by (simp add: board_laws_def loopback_board_def same_bus_def)

definition rebooting_loop :: "((bytes \<times> bool \<times> (bool \<times> u8) list) PicoDacRig, unit StandardProgram) RtLoopState" where
  "rebooting_loop = (let w = example_world\<lparr>w_shared := shared_new\<lparr>sh_reboot := reboot_request reboot_new\<rparr>\<rparr>
     in \<lparr>rl_rig = the (pico_build 150000000 PICO_SAMPLE_RATE (to_bits PICO_LASER_RANGE_MM) ([], False, [])),
         rl_program = the (standard_new PICO_HARMONICS () split_active split_active split_active), rl_world = w,
         rl_sample_rate = PICO_SAMPLE_RATE, rl_commands = [], rl_records = [], rl_ctx = example_ctx, rl_command_epoch = 0, rl_index = 0,
         rl_last_tick = None, rl_n_inputs = 1, rl_n_program_signals = p_signal_count PicoProgram, rl_n_actuators = 1,
         rl_n_sources = source_count (pico_rig loopback_board) PicoProgram\<rparr>)"

lemma rebooting_loop_ok:
  "rig_ok loopback_view (rl_rig rebooting_loop)" "rig_wire loopback_view (rl_rig rebooting_loop) = []"
  "reboot_is_requested (sh_reboot (w_shared (rl_world rebooting_loop)))"
  using pico_built [of PICO_SAMPLE_RATE "to_bits PICO_LASER_RANGE_MM" "([] :: bytes, False, [] :: (bool \<times> u8) list)"]
  by (auto simp: rebooting_loop_def Let_def rig_ok_def rig_wire_def loopback_view_def reboot_is_requested_def reboot_request_def reboot_new_def)


subsection \<open>A tick writes one frame\<close>

lemma f32_to_u32_below:
  assumes "f32_le f32_0 x" "f32_lt x (f32_of_int n)" "is_finite x" "f32_units (f32_of_int n) = n * 2 ^ 149" "n < 2 ^ 32"
  shows "int (unat (f32_to_u32 x)) < n"
proof -
  have "f32_units f32_0 \<le> f32_units x" using assms(1) by (simp only: f32_units_le_iff f32_le_def)
  moreover have "f32_units f32_0 = 0" by (simp add: f32_units_def f32_sign_def f32_code_def)
  moreover have "f32_units x < n * 2 ^ 149" using assms(2,4) f32_units_le_iff [of "f32_of_int n" x] by (simp add: f32_lt_def)
  ultimately have u: "0 \<le> f32_units x" "f32_units x div 2 ^ 149 < n" by (simp_all add: div_less_iff_less_mult)
  then have t: "f32_trunc 0 (2 ^ 32 - 1) x = f32_units x div 2 ^ 149"
    using assms(3,5) by (cases "f32_units x = 0") (simp_all add: f32_trunc_def finite_not sgn_if)
  have "0 \<le> f32_units x div 2 ^ 149" using u(1) by (simp add: pos_imp_zdiv_nonneg_iff)
  then have "uint (word_of_int (f32_units x div 2 ^ 149) :: u32) = f32_units x div 2 ^ 149"
    using u(2) assms(5) by (simp add: uint_word_of_int)
  then show ?thesis using u(2) by (simp only: f32_to_u32_def t uint_nat [symmetric])
qed

lemma four_channels: "f32_units (f32_of_int 4) = 4 * 2 ^ 149"
  by code_simp

text \<open>Commands for the rig carry values that the parameter store normalised.\<close>

definition rig_command_ok :: "'r Rig \<Rightarrow> RtCommand \<Rightarrow> bool" where
  "rig_command_ok R c \<longleftrightarrow> (rc_domain c = DOMAIN_RIG \<longrightarrow> (case rc_payload c of PF32 v \<Rightarrow> r_normalise_param R (rc_id c) v = Some v | _ \<Rightarrow> True))"

lemma apply_command_rig:
  assumes "rig_command_ok (pico_rig B) c" "rig_ok V rig" "apply_command (pico_rig B) P c (rig, w, p) = (rig', w', p')"
  shows "rig_ok V rig' \<and> rig_wire V rig' = rig_wire V rig \<and> px_dac_raw rig' = px_dac_raw rig"
proof (cases "rc_domain c = DOMAIN_RIG \<and> (\<exists>v. rc_payload c = PF32 v)")
  case True
  then obtain v where v: "rc_domain c = DOMAIN_RIG" "rc_payload c = PF32 v" by blast
  then have n: "pico_normalise_param (rc_id c) v = Some v" "rig' = pico_set_param (rc_id c) v rig"
    using assms(1,3) by (simp_all add: rig_command_ok_def apply_command_def pico_rig_def)
  have "int (unat (f32_to_u32 v)) < 4" if "rc_id c = 1"
    using n(1) that f32_to_u32_below [of v 4, OF _ _ _ four_channels]
    by (simp add: pico_normalise_param_def DAC_POLARITY_def split: if_splits)
  then have "rc_id c = 1 \<longrightarrow> unat (f32_to_u32 v) < 4" by linarith
  then show ?thesis using n(2) assms(2) by (simp add: pico_set_param_def rig_ok_def rig_wire_def)
next
  case False
  then have "rig' = rig" using assms(3) by (auto simp: apply_command_def split: if_splits Payload.splits)
  then show ?thesis using assms(2) by simp
qed

lemma fold_commands_rig:
  assumes "list_all (rig_command_ok (pico_rig B)) cs" "rig_ok V rig" "fold (apply_command (pico_rig B) P) cs (rig, w, p) = (rig', w', p')"
  shows "rig_ok V rig' \<and> rig_wire V rig' = rig_wire V rig \<and> px_dac_raw rig' = px_dac_raw rig"
  using assms
proof (induction cs arbitrary: rig w p)
  case (Cons c cs)
  obtain r1 w1 p1 where a: "apply_command (pico_rig B) P c (rig, w, p) = (r1, w1, p1)" by (metis surj_pair)
  have r1: "rig_ok V r1 \<and> rig_wire V r1 = rig_wire V rig \<and> px_dac_raw r1 = px_dac_raw rig"
    using apply_command_rig [OF _ Cons.prems(2) a] Cons.prems(1) by simp
  then show ?case using Cons.IH [of r1 w1 p1] Cons.prems a by simp
qed simp

lemma tick_pin_rig:
  assumes "board_laws B V" "rig_ok V r"
  shows "rig_ok V (r\<lparr>px_hw := pb_tick_pin B on (px_hw r)\<rparr>) \<and> rig_wire V (r\<lparr>px_hw := pb_tick_pin B on (px_hw r)\<rparr>) = rig_wire V r"
  using assms by (simp add: board_laws_def rig_ok_def rig_wire_def same_bus_def)

interpretation pico: rt_node PicoProgram "\<lambda>_. True" "pico_rig B" for B
  using pass.std.lawful_program_axioms
  by (intro rt_node.intro rt_node_axioms.intro) (auto simp: pico_rig_def pico_measure_def)


text \<open>The rig at work, with a command queued that moves the output to channel 2.\<close>

definition pico_loop :: "((bytes \<times> bool \<times> (bool \<times> u8) list) PicoDacRig, unit StandardProgram) RtLoopState" where
  "pico_loop = rebooting_loop\<lparr>rl_world := example_world, rl_commands := [\<lparr>rc_domain = DOMAIN_RIG, rc_id = 1, rc_payload = PF32 (f32_of_int 2)\<rparr>]\<rparr>"

lemma pico_loop_ok:
  "rig_ok loopback_view (rl_rig pico_loop)" "rig_wire loopback_view (rl_rig pico_loop) = []"
  "loop_ok (pico_rig loopback_board) PicoProgram (\<lambda>_. True) pico_loop" "list_all (rig_command_ok (pico_rig loopback_board)) (rl_commands pico_loop)"
proof -
  show "rig_ok loopback_view (rl_rig pico_loop)" "rig_wire loopback_view (rl_rig pico_loop) = []"
    using rebooting_loop_ok by (simp_all add: pico_loop_def)
  show "loop_ok (pico_rig loopback_board) PicoProgram (\<lambda>_. True) pico_loop"
    using pico_sources [of loopback_board]
    by (simp add: loop_ok_def pico_loop_def rebooting_loop_def Let_def validate_sources_def) (simp add: pico_rig_def StandardProgramOf_def PassThrough_def)
  have "pico_normalise_param 1 (f32_of_int 2) = Some (f32_of_int 2)" by code_simp
  then show "list_all (rig_command_ok (pico_rig loopback_board)) (rl_commands pico_loop)"
    by (simp add: pico_loop_def rig_command_ok_def) (simp add: pico_rig_def)
qed


end
