(* ===== verification/Spec2Isabelle.thy ===== *)
theory Spec2Isabelle
  imports Pll Comms_Stream Drivers Broker_Firmware Broker_Safety Fw_Identity Rt_Mem Rt_Clock Laser_Task Pico_Rig
begin

text \<open>
  A verification development for HELIC-DAQ.
\<close>

end
